(* ===== verification/Basics.thy ===== *)
theory Basics
  imports Main "HOL-Library.Word" "HOL-Library.AList"
begin

text \<open>
  The prelude of the development: the collections the component theories feed, the
  machine integers of the source (\<open>u64\<close>, \<open>usize\<close> and \<open>i32\<close> with their casts written
  out on \<^typ>\<open>nat\<close> and \<^typ>\<open>int\<close>), byte strings, and the facts on lists, maps and
  association lists that several components share.

  A Rust \<open>HashMap\<close> is an association list with distinct keys; its iteration order,
  which Rust leaves open, is the order of the list, so a theorem over all lists covers
  every order.
\<close>

named_theorems frame_simps \<open>what an operation leaves unchanged\<close>
named_theorems sql_simps \<open>lookups after a statement on the tables\<close>

section \<open>Bytes and machine integers\<close>

type_synonym byte = "8 word"
type_synonym bytes = "byte list"

text \<open>\<open>usize\<close> and \<open>u64\<close> are natural numbers below \<open>2 ^ 64\<close>; a checked operation
  that would leave the range is a panic, written as \<^term>\<open>None\<close>.\<close>

abbreviation U64 :: nat where
  "U64 \<equiv> 2 ^ 64"

definition u64_add :: "nat \<Rightarrow> nat \<Rightarrow> nat option" where
  "u64_add a b = (if a + b < U64 then Some (a + b) else None)"

text \<open>The cast \<open>x as i32\<close> of an unsigned value keeps the low 32 bits, read as two's
  complement; \<open>x as i64\<close> likewise with 64 bits.\<close>

definition as_i32 :: "nat \<Rightarrow> int" where
  "as_i32 n = (int n + 2 ^ 31) mod 2 ^ 32 - 2 ^ 31"

definition as_i64 :: "nat \<Rightarrow> int" where
  "as_i64 n = (int n + 2 ^ 63) mod 2 ^ 64 - 2 ^ 63"

text \<open>\<open>x as u64\<close> of an \<open>i64\<close>: a negative offset becomes a value above \<open>2 ^ 63\<close>.\<close>

definition i64_as_u64 :: "int \<Rightarrow> nat" where
  "i64_as_u64 i = nat (i mod 2 ^ 64)"

lemma as_i32_small: "n < 2 ^ 31 \<Longrightarrow> as_i32 n = int n"
  by (simp add: as_i32_def)

lemma as_i64_small: "n < 2 ^ 63 \<Longrightarrow> as_i64 n = int n"
  by (simp add: as_i64_def)

lemma i64_as_u64_nonneg: "0 \<le> i \<Longrightarrow> i < 2 ^ 63 \<Longrightarrow> i64_as_u64 i = nat i"
  by (simp add: i64_as_u64_def)

lemma as_i32_le: "as_i32 n \<le> int n"
proof -
  have "(int n + 2 ^ 31) mod 2 ^ 32 \<le> int n + 2 ^ 31"
    by (rule zmod_le_nonneg_dividend) simp
  then show ?thesis by (simp add: as_i32_def)
qed

lemma as_i32_cong: "\<exists>k. int n = as_i32 n + 2 ^ 32 * k"
proof
  show "int n = as_i32 n + 2 ^ 32 * ((int n + 2 ^ 31) div 2 ^ 32)"
    using minus_mod_eq_mult_div [of "int n + 2 ^ 31" "2 ^ 32"] by (simp add: as_i32_def)
qed

section \<open>Lists, maps and association lists\<close>

text \<open>\<open>Vec::resize(n, 0)\<close> growing to \<open>n\<close>; the source only calls it to grow.\<close>

definition resize0 :: "nat \<Rightarrow> bytes \<Rightarrow> bytes" where
  "resize0 n xs = xs @ replicate (n - length xs) 0"

text \<open>\<open>xs[at..at + ys.len()].copy_from_slice(ys)\<close>, for a range inside \<open>xs\<close>.\<close>

definition splice :: "nat \<Rightarrow> 'a list \<Rightarrow> 'a list \<Rightarrow> 'a list" where
  "splice at ys xs = take at xs @ ys @ drop (at + length ys) xs"

text \<open>The byte of a block at an index, \<open>0\<close> past its end.\<close>

definition byte0 :: "bytes \<Rightarrow> nat \<Rightarrow> byte" where
  "byte0 xs i = (if i < length xs then xs ! i else 0)"

lemma length_resize0 [simp]: "length (resize0 n xs) = max n (length xs)"
  by (simp add: resize0_def max_def)

lemma length_splice: "at + length ys \<le> length xs \<Longrightarrow> length (splice at ys xs) = length xs"
  by (simp add: splice_def)

lemma byte0_resize0 [simp]: "byte0 (resize0 n xs) i = byte0 xs i"
  by (auto simp: byte0_def resize0_def nth_append)

lemma byte0_splice:
  assumes "at + length ys \<le> length xs"
  shows "byte0 (splice at ys xs) i =
    (if at \<le> i \<and> i < at + length ys then ys ! (i - at) else byte0 xs i)"
  using assms by (auto simp: byte0_def splice_def nth_append min_def)

lemma byte0_take: "byte0 (take n xs) i = (if i < n then byte0 xs i else 0)"
  by (auto simp: byte0_def)

lemma byte0_Nil [simp]: "byte0 [] i = 0"
  by (simp add: byte0_def)

lemma nth_take_drop: "i < n \<Longrightarrow> a + n \<le> length xs \<Longrightarrow> take n (drop a xs) ! i = xs ! (a + i)"
  by simp

lemma find_Some_in: "find P xs = Some x \<Longrightarrow> x \<in> set xs \<and> P x"
  by (auto simp: find_Some_iff)

lemma distinct_map_filter [simp]: "distinct (map f xs) \<Longrightarrow> distinct (map f (filter P xs))"
  by (induction xs) auto

lemma distinct_key_unique:
  "distinct (map f xs) \<Longrightarrow> x \<in> set xs \<Longrightarrow> y \<in> set xs \<Longrightarrow> f x = f y \<Longrightarrow> x = y"
  by (auto simp: distinct_map dest: inj_onD)

end
