(* ===== verification/Text_Paths.thy ===== *)
theory Text_Paths
  imports Basics "HOL-Library.Sublist"
begin

text \<open>
  Paths and names. A Rust \<open>String\<close> is its UTF-8 bytes, one \<^typ>\<open>char\<close> per byte, so
  \<open>len()\<close> is \<^const>\<open>length\<close>. This theory models \<open>join\<close> of \<open>src/db.rs\<close> and
  \<open>split_path\<close> of \<open>src/fs.rs\<close>, which turn a \<open>(parent, name)\<close> key into a full path and
  back, the UTF-8 test behind \<open>OsStr::to_str\<close>, and the three text operations of the SQL in
  \<open>Db::rename\<close> on a UTF-8 database: characters, \<open>substring(s FROM n + 1)\<close> and \<open>LIKE\<close>.
\<close>

section \<open>join and split_path\<close>

abbreviation slash :: char where
  "slash \<equiv> CHR ''/''"

definition join :: "string \<Rightarrow> string \<Rightarrow> string" where
  "join parent name = (if parent = [] then name else parent @ slash # name)"

text \<open>\<open>path.rfind('/')\<close>: the byte index of the last slash.\<close>

fun rfind_slash :: "string \<Rightarrow> nat option" where
  "rfind_slash [] = None"
| "rfind_slash (c # cs) =
     (case rfind_slash cs of
        Some i \<Rightarrow> Some (Suc i)
      | None \<Rightarrow> if c = slash then Some 0 else None)"

definition split_path :: "string \<Rightarrow> string \<times> string" where
  "split_path path =
     (case rfind_slash path of
        Some i \<Rightarrow> (take i path, drop (i + 1) path)
      | None \<Rightarrow> ([], path))"

text \<open>A name as the kernel sends it: one path component.\<close>

definition plain_name :: "string \<Rightarrow> bool" where
  "plain_name n \<longleftrightarrow> slash \<notin> set n"

lemma rfind_slash_None: "rfind_slash p = None \<longleftrightarrow> slash \<notin> set p"
  by (induction p) (auto split: option.splits)

lemma rfind_slash_append: "slash \<notin> set n \<Longrightarrow> rfind_slash (p @ slash # n) = Some (length p)"
proof (induction p)
  case Nil
  then show ?case by (simp add: rfind_slash_None [THEN iffD2])
next
  case (Cons c p)
  then show ?case by simp
qed

lemma split_join:
  assumes "plain_name n"
  shows "split_path (join p n) = (p, n)"
  using assms rfind_slash_append [of n p]
  by (auto simp: split_path_def join_def plain_name_def rfind_slash_None [THEN iffD2])

lemma rfind_slash_Some:
  "rfind_slash q = Some j \<Longrightarrow> j < length q \<and> q ! j = slash \<and> slash \<notin> set (drop (Suc j) q)"
proof (induction q arbitrary: j)
  case Nil
  then show ?case by simp
next
  case (Cons c q)
  show ?case
  proof (cases "rfind_slash q")
    case None
    with Cons.prems have "j = 0" and "c = slash" by (auto split: if_splits)
    with None show ?thesis by (simp add: rfind_slash_None [THEN iffD1])
  next
    case (Some i)
    with Cons.prems have "j = Suc i" by simp
    with Cons.IH [OF Some] show ?thesis by simp
  qed
qed

lemma join_split:
  assumes "split_path p = (d, n)" and "d \<noteq> []"
  shows "join d n = p"
proof -
  obtain i where i: "rfind_slash p = Some i" and d: "d = take i p" and n: "n = drop (i + 1) p"
    using assms by (auto simp: split_path_def split: option.splits)
  from rfind_slash_Some [OF i] have "p = take i p @ slash # drop (Suc i) p"
    by (metis id_take_nth_drop)
  with assms(2) d n show ?thesis by (simp add: join_def)
qed

lemma split_path_name: "plain_name (snd (split_path p))"
  by (auto simp: split_path_def plain_name_def split: option.splits
      dest: rfind_slash_Some rfind_slash_None [THEN iffD1])

lemma join_inject:
  assumes "plain_name n" "plain_name n'" and eq: "join p n = join p' n'"
  shows "p = p' \<and> n = n'"
proof -
  have "(p, n) = split_path (join p n)" using assms(1) by (rule split_join [symmetric])
  also have "\<dots> = split_path (join p' n')" by (simp only: eq)
  also have "\<dots> = (p', n')" using assms(2) by (rule split_join)
  finally show ?thesis by simp
qed

lemma length_join: "length (join p n) = (if p = [] then 0 else length p + 1) + length n"
  by (simp add: join_def)

lemma join_neq_parent: "n \<noteq> [] \<Longrightarrow> join p n \<noteq> p"
  by (auto simp: join_def)

lemma join_Nil [simp]: "join [] n = n"
  by (simp add: join_def)

lemma join_eq_Nil [simp]: "join p n = [] \<longleftrightarrow> p = [] \<and> n = []"
  by (auto simp: join_def)

section \<open>UTF-8\<close>

definition cont :: "char \<Rightarrow> bool" where
  "cont c \<longleftrightarrow> (let b = (of_char c :: nat) in 128 \<le> b \<and> b < 192)"

text \<open>A continuation byte within bounds, as \<open>core::str::from_utf8\<close> checks them.\<close>

definition byte_in :: "nat \<Rightarrow> nat \<Rightarrow> char \<Rightarrow> bool" where
  "byte_in lo hi c \<longleftrightarrow> (let b = (of_char c :: nat) in lo \<le> b \<and> b \<le> hi)"

definition utf8_2 :: "char \<Rightarrow> char \<Rightarrow> bool" where
  "utf8_2 a b \<longleftrightarrow> byte_in 194 223 a \<and> cont b"

definition utf8_3 :: "char \<Rightarrow> char \<Rightarrow> char \<Rightarrow> bool" where
  "utf8_3 a b c \<longleftrightarrow> cont c \<and>
     (byte_in 224 224 a \<and> byte_in 160 191 b \<or> byte_in 225 236 a \<and> cont b \<or>
      byte_in 237 237 a \<and> byte_in 128 159 b \<or> byte_in 238 239 a \<and> cont b)"

definition utf8_4 :: "char \<Rightarrow> char \<Rightarrow> char \<Rightarrow> char \<Rightarrow> bool" where
  "utf8_4 a b c d \<longleftrightarrow> cont c \<and> cont d \<and>
     (byte_in 240 240 a \<and> byte_in 144 191 b \<or> byte_in 241 243 a \<and> cont b \<or>
      byte_in 244 244 a \<and> byte_in 128 143 b)"

fun utf8_valid :: "string \<Rightarrow> bool" where
  "utf8_valid [] = True"
| "utf8_valid (a # s) =
     (if byte_in 0 127 a then utf8_valid s
      else case s of
        [] \<Rightarrow> False
      | b # s2 \<Rightarrow>
          if utf8_2 a b then utf8_valid s2
          else (case s2 of
            [] \<Rightarrow> False
          | c # s3 \<Rightarrow>
              if utf8_3 a b c then utf8_valid s3
              else (case s3 of
                [] \<Rightarrow> False
              | d # s4 \<Rightarrow> utf8_4 a b c d \<and> utf8_valid s4)))"

text \<open>\<open>OsStr::to_str\<close>: the name when it is UTF-8.\<close>

definition to_str :: "string \<Rightarrow> string option" where
  "to_str s = (if utf8_valid s then Some s else None)"

definition ascii :: "string \<Rightarrow> bool" where
  "ascii s \<longleftrightarrow> list_all (byte_in 0 127) s"

lemma ascii_not_cont: "byte_in 0 127 c \<Longrightarrow> \<not> cont c"
  by (auto simp: byte_in_def cont_def Let_def)

lemma byte_in_slash [simp]: "byte_in 0 127 slash"
  by (simp add: byte_in_def)

lemma ascii_utf8: "ascii s \<Longrightarrow> utf8_valid s"
  by (induction s) (auto simp: ascii_def)

lemma cont_not_lead:
  "cont a \<Longrightarrow> \<not> byte_in 0 127 a"
  "cont a \<Longrightarrow> \<not> utf8_2 a b"
  "cont a \<Longrightarrow> \<not> utf8_3 a b c"
  "cont a \<Longrightarrow> \<not> utf8_4 a b c d"
  unfolding utf8_2_def utf8_3_def utf8_4_def cont_def byte_in_def Let_def by linarith+

lemma utf8_hd: "utf8_valid (c # s) \<Longrightarrow> \<not> cont c"
proof
  assume v: "utf8_valid (c # s)" and "cont c"
  note no = cont_not_lead [OF \<open>cont c\<close>]
  from v show False by (simp add: no split: list.splits)
qed

lemma utf8_after_ascii: "byte_in 0 127 c \<Longrightarrow> utf8_valid (c # s) \<Longrightarrow> utf8_valid s"
  by simp

section \<open>Text in the database\<close>

text \<open>The cluster is initialised with \<open>--encoding=UTF8\<close>, so Postgres counts characters:
  a lead byte with the continuation bytes after it.\<close>

lemma length_dropWhile_less [termination_simp]: "length (dropWhile P xs) < Suc (length xs)"
  using length_dropWhile_le [of P xs] by (simp add: less_Suc_eq_le)

fun pg_chars :: "string \<Rightarrow> string list" where
  "pg_chars [] = []"
| "pg_chars (c # cs) = (c # takeWhile cont cs) # pg_chars (dropWhile cont cs)"

text \<open>\<open>substring(s FROM n + 1)\<close>: the text after the first \<open>n\<close> characters.\<close>

definition substring_after :: "nat \<Rightarrow> string \<Rightarrow> string" where
  "substring_after n s = concat (drop n (pg_chars s))"

definition percent :: string where "percent = ''%''"
definition underscore :: string where "underscore = ''_''"
definition backslash :: string where "backslash = [CHR 0x5C]"

text \<open>\<open>s LIKE pattern\<close> on lists of characters. A pattern that ends in a single backslash
  is an error in Postgres; the only pattern of the source ends in \<open>%\<close>, so the case does
  not arise.\<close>

fun like :: "string list \<Rightarrow> string list \<Rightarrow> bool" where
  "like [] ys \<longleftrightarrow> ys = []"
| "like (p # ps) ys \<longleftrightarrow>
     (if p = percent then like ps ys \<or> (case ys of [] \<Rightarrow> False | _ # ys' \<Rightarrow> like (p # ps) ys')
      else if p = underscore then (case ys of [] \<Rightarrow> False | _ # ys' \<Rightarrow> like ps ys')
      else if p = backslash then
        (case ps of [] \<Rightarrow> False
         | q # ps' \<Rightarrow> (case ys of [] \<Rightarrow> False | y # ys' \<Rightarrow> y = q \<and> like ps' ys'))
      else (case ys of [] \<Rightarrow> False | y # ys' \<Rightarrow> y = p \<and> like ps ys'))"

definition sql_like :: "string \<Rightarrow> string \<Rightarrow> bool" where
  "sql_like pattern s = like (pg_chars pattern) (pg_chars s)"

text \<open>A path whose characters all stand for themselves in a pattern.\<close>

definition no_wildcard :: "string \<Rightarrow> bool" where
  "no_wildcard s \<longleftrightarrow> CHR ''%'' \<notin> set s \<and> CHR ''_'' \<notin> set s \<and> CHR 0x5C \<notin> set s"

lemmas wildcard_defs = percent_def underscore_def backslash_def

lemma like_percent: "like [percent] ys"
  by (induction ys) auto

lemma like_literal:
  "percent \<notin> set xs \<Longrightarrow> underscore \<notin> set xs \<Longrightarrow> backslash \<notin> set xs \<Longrightarrow>
    like (xs @ ps) ys \<longleftrightarrow> (\<exists>zs. ys = xs @ zs \<and> like ps zs)"
proof (induction xs arbitrary: ys)
  case Nil
  then show ?case by simp
next
  case (Cons x xs)
  then show ?case by (cases ys) auto
qed

lemma pg_chars_ascii_append:
  "ascii a \<Longrightarrow> (b = [] \<or> \<not> cont (hd b)) \<Longrightarrow> pg_chars (a @ b) = map (\<lambda>c. [c]) a @ pg_chars b"
proof (induction a)
  case Nil
  then show ?case by simp
next
  case (Cons c a)
  have "a @ b = [] \<or> \<not> cont (hd (a @ b))"
    using Cons.prems by (cases a) (auto simp: ascii_def dest: ascii_not_cont)
  then have "takeWhile cont (a @ b) = []" and "dropWhile cont (a @ b) = a @ b"
    by (cases "a @ b"; simp)+
  with Cons show ?case by (simp add: ascii_def)
qed

lemma concat_pg_chars: "concat (pg_chars s) = s"
  by (induction s rule: pg_chars.induct) simp_all

lemma concat_singletons [simp]: "concat (map (\<lambda>c. [c]) s) = s"
  by (induction s) auto

lemma substring_after_ascii:
  assumes "ascii a" and "b = [] \<or> \<not> cont (hd b)"
  shows "substring_after (length a) (a @ b) = b"
  by (simp add: substring_after_def pg_chars_ascii_append [OF assms] concat_pg_chars)

lemma utf8_drop_ascii: "ascii a \<Longrightarrow> utf8_valid (a @ b) \<Longrightarrow> utf8_valid b"
  by (induction a) (auto simp: ascii_def)

lemma utf8_append_ascii: "ascii a \<Longrightarrow> utf8_valid b \<Longrightarrow> utf8_valid (a @ b)"
  by (induction a) (auto simp: ascii_def)

lemma utf8_not_cont: "utf8_valid b \<Longrightarrow> b = [] \<or> \<not> cont (hd b)"
  by (cases b) (auto simp del: utf8_valid.simps dest: utf8_hd)

lemma ascii_append [simp]: "ascii (a @ b) \<longleftrightarrow> ascii a \<and> ascii b"
  by (simp add: ascii_def)

lemma ascii_Cons [simp]: "ascii (c # b) \<longleftrightarrow> byte_in 0 127 c \<and> ascii b"
  by (simp add: ascii_def)

lemma ascii_Nil [simp]: "ascii []"
  by (simp add: ascii_def)

text \<open>For an ASCII path without wildcards, \<open>LIKE path || '/%'\<close> is the prefix test.\<close>

lemma sql_like_prefix:
  assumes "ascii a" "no_wildcard a" "utf8_valid s"
  shows "sql_like (a @ ''/%'') s \<longleftrightarrow> prefix (a @ [slash]) s"
proof -
  have pat: "pg_chars (a @ ''/%'') = map (\<lambda>c. [c]) (a @ [slash]) @ [percent]"
    using pg_chars_ascii_append [of "a @ ''/%''" "[]"] assms(1)
    by (simp add: byte_in_def percent_def)
  have lit: "percent \<notin> set (map (\<lambda>c. [c]) (a @ [slash]))"
    "underscore \<notin> set (map (\<lambda>c. [c]) (a @ [slash]))"
    "backslash \<notin> set (map (\<lambda>c. [c]) (a @ [slash]))"
    using assms(2) by (auto simp: no_wildcard_def wildcard_defs)
  have "sql_like (a @ ''/%'') s \<longleftrightarrow> (\<exists>zs. pg_chars s = map (\<lambda>c. [c]) (a @ [slash]) @ zs)"
    by (simp only: sql_like_def pat like_literal [OF lit] like_percent simp_thms)
  also have "\<dots> \<longleftrightarrow> prefix (a @ [slash]) s"
  proof
    assume "\<exists>zs. pg_chars s = map (\<lambda>c. [c]) (a @ [slash]) @ zs"
    then obtain zs where "pg_chars s = map (\<lambda>c. [c]) (a @ [slash]) @ zs" ..
    then have "s = (a @ [slash]) @ concat zs"
      by (metis concat_pg_chars concat_append concat_singletons)
    then show "prefix (a @ [slash]) s" by (rule prefixI)
  next
    assume "prefix (a @ [slash]) s"
    then obtain r where s: "s = (a @ [slash]) @ r" by (auto elim: prefixE)
    have as: "ascii (a @ [slash])" using assms(1) by simp
    from utf8_drop_ascii [OF as] assms(3) s have "utf8_valid r" by simp
    then have "r = [] \<or> \<not> cont (hd r)" by (rule utf8_not_cont)
    from pg_chars_ascii_append [OF as this] s
    show "\<exists>zs. pg_chars s = map (\<lambda>c. [c]) (a @ [slash]) @ zs" by auto
  qed
  finally show ?thesis .
qed

end
