(* ===== verification/Observability.thy ===== *)
theory Observability
  imports Basics
begin

text \<open>
  The process-wide statics of \<open>src/metrics.rs\<close>: operation and error counters, replica
  counters, the latency histograms with their percentile summary, and the liveness
  heartbeat that every FUSE callback checks.
\<close>

section \<open>Counters\<close>

record statics =
  lookup_count :: nat
  getattr_count :: nat
  setattr_count :: nat
  read_count :: nat
  write_count :: nat
  create_count :: nat
  mkdir_count :: nat
  unlink_count :: nat
  rmdir_count :: nat
  rename_count :: nat
  readdir_count :: nat
  open_count :: nat
  fsync_count :: nat
  eio_count :: nat
  enoent_count :: nat
  eexist_count :: nat
  enotempty_count :: nat
  eisdir_count :: nat
  enotdir_count :: nat
  einval_count :: nat
  replica_read_count :: nat
  replica_fallback_count :: nat
  replica_fallback_warned :: bool
  liveness :: nat
  last_beat_seen :: nat
  beat_deadline_at :: nat
  deadlock_detected :: bool
  fuse_latency :: "nat list"
  db_latency :: "nat list"

text \<open>\<open>fetch_add(1)\<close> on an \<open>AtomicU64\<close> wraps around.\<close>

definition bump :: "nat \<Rightarrow> nat" where
  "bump n = (n + 1) mod U64"

section \<open>Latency histogram\<close>

definition HISTO_THRESHOLDS :: "nat list" where
  "HISTO_THRESHOLDS = [10, 100, 1000, 10000, 100000, 1000000]"

definition HISTO_BUCKETS :: nat where
  "HISTO_BUCKETS = 7"

definition histogram_new :: "nat list" where
  "histogram_new = replicate HISTO_BUCKETS 0"

text \<open>\<open>iter().position(p)\<close>\<close>

fun position :: "('a \<Rightarrow> bool) \<Rightarrow> 'a list \<Rightarrow> nat option" where
  "position p [] = None"
| "position p (x # xs) = (if p x then Some 0 else map_option Suc (position p xs))"

definition bucket_of :: "nat \<Rightarrow> nat" where
  "bucket_of us =
     (case position (\<lambda>t. us \<le> t) HISTO_THRESHOLDS of
        Some i \<Rightarrow> i
      | None \<Rightarrow> HISTO_BUCKETS - 1)"

definition histogram_record :: "nat \<Rightarrow> nat list \<Rightarrow> nat list" where
  "histogram_record us counts = counts[bucket_of us := bump (counts ! bucket_of us)]"

definition bucket_label :: "nat \<Rightarrow> string" where
  "bucket_label bucket =
     (if bucket = 0 then ''<=10'' else if bucket = 1 then ''<=100''
      else if bucket = 2 then ''<=1k'' else if bucket = 3 then ''<=10k''
      else if bucket = 4 then ''<=100k'' else if bucket = 5 then ''<=1M'' else ''>1M'')"

text \<open>
  The percentile loop of \<open>Histogram::summary\<close>: each target is a pair of the count to
  reach and the bucket found so far, where \<open>0\<close> also stands for "not found yet".
\<close>

fun summary_loop :: "nat \<Rightarrow> nat \<Rightarrow> (nat \<times> nat) list \<Rightarrow> nat list \<Rightarrow> (nat \<times> nat) list" where
  "summary_loop i cum targets [] = targets"
| "summary_loop i cum targets (c # cs) =
     (let cum' = cum + c
      in summary_loop (Suc i) cum'
           (map (\<lambda>(target, done). (target, if done = 0 \<and> target \<le> cum' then i else done)) targets)
           cs)"

datatype summary = No_samples | Summary nat string string string

definition histogram_summary :: "nat list \<Rightarrow> summary" where
  "histogram_summary s =
     (let total = sum_list s in
      if total = 0 then No_samples
      else
        case map snd (summary_loop 0 0
               [(total * 50 div 100, 0), (total * 95 div 100, 0), (total * 99 div 100, 0)] s) of
          [p50, p95, p99] \<Rightarrow>
            Summary total (bucket_label p50) (bucket_label p95) (bucket_label p99)
        | _ \<Rightarrow> No_samples)"

subsection \<open>Recording\<close>

lemma position_Some:
  "position p xs = Some i \<longleftrightarrow> i < length xs \<and> p (xs ! i) \<and> (\<forall>j < i. \<not> p (xs ! j))"
proof (induction xs arbitrary: i)
  case Nil
  then show ?case by simp
next
  case (Cons x xs)
  then show ?case
    by (cases i) (auto simp: All_less_Suc2)
qed

lemma position_None: "position p xs = None \<longleftrightarrow> (\<forall>x \<in> set xs. \<not> p x)"
  by (induction xs) auto

lemma bucket_of_less: "bucket_of us < HISTO_BUCKETS"
  by (auto simp: bucket_of_def HISTO_BUCKETS_def HISTO_THRESHOLDS_def split: option.splits
      dest: position_Some [THEN iffD1])

lemma length_histogram_record [simp]: "length (histogram_record us h) = length h"
  by (simp add: histogram_record_def)

lemma sum_list_histogram_record:
  assumes "length h = HISTO_BUCKETS" and "h ! bucket_of us < U64 - 1"
  shows "sum_list (histogram_record us h) = sum_list h + 1"
proof -
  have b: "bucket_of us < length h" using assms(1) bucket_of_less by simp
  have "h ! bucket_of us \<le> sum_list h" using b by (simp add: member_le_sum_list)
  with b assms(2) show ?thesis
    by (simp add: histogram_record_def bump_def sum_list_update)
qed

subsection \<open>Percentiles\<close>

text \<open>The targets do not interact.\<close>

lemma summary_loop_append:
  "summary_loop i cum (ts @ us) s = summary_loop i cum ts s @ summary_loop i cum us s"
  by (induction s arbitrary: i cum ts us) (simp_all add: Let_def)

lemma summary_loop_done: "d \<noteq> 0 \<Longrightarrow> summary_loop i cum [(t, d)] s = [(t, d)]"
  by (induction s arbitrary: i cum) simp_all

text \<open>Once the scan is past bucket 0, a target keeps the first bucket that reaches it.\<close>

lemma summary_loop_first:
  assumes "0 < i" and "k < length s"
    and "t \<le> cum + sum_list (take (Suc k) s)"
    and "\<forall>j < k. cum + sum_list (take (Suc j) s) < t"
  shows "summary_loop i cum [(t, 0)] s = [(t, i + k)]"
  using assms
proof (induction s arbitrary: i cum k)
  case Nil
  then show ?case by simp
next
  case (Cons c s)
  show ?case
  proof (cases k)
    case 0
    with Cons.prems show ?thesis by (simp add: summary_loop_done)
  next
    case (Suc k')
    from Cons.prems(4) Suc have "\<not> t \<le> cum + c" by force
    moreover from Cons.prems(4) Suc
    have "\<forall>j < k'. cum + c + sum_list (take (Suc j) s) < t" by fastforce
    ultimately show ?thesis
      using Cons.IH [of "Suc i" k' "cum + c"] Cons.prems Suc by (simp add: add.assoc)
  qed
qed

section \<open>Liveness heartbeat\<close>

definition HEARTBEAT_PERIOD_MS :: nat where
  "HEARTBEAT_PERIOD_MS = 10000"

definition HEARTBEAT_DEADLINE_MS :: nat where
  "HEARTBEAT_DEADLINE_MS = 3 * HEARTBEAT_PERIOD_MS"

abbreviation U64_MAX :: nat where
  "U64_MAX \<equiv> 2 ^ 64 - 1"

text \<open>\<open>check_liveness\<close> at monotonic time \<open>now_ms\<close>: the verdict and the new statics.\<close>

definition check_liveness :: "nat \<Rightarrow> statics \<Rightarrow> bool \<times> statics" where
  "check_liveness now_ms m =
     (let counter = liveness m; last_counter = last_beat_seen m in
      if last_counter = U64_MAX \<or> counter \<noteq> last_counter
      then (True, m\<lparr>last_beat_seen := counter,
                    beat_deadline_at := now_ms + HEARTBEAT_DEADLINE_MS\<rparr>)
      else (now_ms < beat_deadline_at m, m))"

text \<open>One turn of the heartbeat thread.\<close>

definition heartbeat :: "statics \<Rightarrow> statics" where
  "heartbeat m = m\<lparr>liveness := bump (liveness m)\<rparr>"

text \<open>The statics at process start.\<close>

definition statics_init :: statics where
  "statics_init =
     \<lparr>lookup_count = 0, getattr_count = 0, setattr_count = 0, read_count = 0, write_count = 0,
      create_count = 0, mkdir_count = 0, unlink_count = 0, rmdir_count = 0, rename_count = 0,
      readdir_count = 0, open_count = 0, fsync_count = 0, eio_count = 0, enoent_count = 0,
      eexist_count = 0, enotempty_count = 0, eisdir_count = 0, enotdir_count = 0, einval_count = 0,
      replica_read_count = 0, replica_fallback_count = 0, replica_fallback_warned = False,
      liveness = 0, last_beat_seen = U64_MAX, beat_deadline_at = U64_MAX,
      deadlock_detected = False, fuse_latency = histogram_new, db_latency = histogram_new\<rparr>"

text \<open>The callbacks' checks over time: each at a moment, with the counter it then reads.\<close>

fun liveness_run :: "(nat \<times> nat) list \<Rightarrow> statics \<Rightarrow> bool list" where
  "liveness_run [] m = []"
| "liveness_run ((now_ms, counter) # obs) m =
     (let (ok, m') = check_liveness now_ms (m\<lparr>liveness := counter\<rparr>)
      in ok # liveness_run obs m')"

text \<open>What the check keeps: the deadline is three periods after some moment at which the
  counter had the value last seen.\<close>

definition armed :: "(nat \<Rightarrow> nat) \<Rightarrow> nat \<Rightarrow> statics \<Rightarrow> bool" where
  "armed hb t m \<longleftrightarrow> last_beat_seen m = U64_MAX \<or>
     (\<exists>t0 \<le> t. last_beat_seen m = hb t0 \<and> beat_deadline_at m = t0 + HEARTBEAT_DEADLINE_MS)"

lemma check_liveness_armed:
  assumes "armed hb t m" and "t \<le> u"
  shows "armed hb u (snd (check_liveness u (m\<lparr>liveness := hb u\<rparr>)))"
proof (cases "last_beat_seen m = U64_MAX \<or> hb u \<noteq> last_beat_seen m")
  case True
  then show ?thesis by (auto simp: check_liveness_def armed_def Let_def)
next
  case False
  with assms show ?thesis by (auto simp: check_liveness_def armed_def Let_def intro: order_trans)
qed

lemma check_liveness_beating:
  assumes "armed hb t m" and "t \<le> u"
    and beating: "\<And>a b. a + HEARTBEAT_DEADLINE_MS \<le> b \<Longrightarrow> hb a \<noteq> hb b"
  shows "fst (check_liveness u (m\<lparr>liveness := hb u\<rparr>))"
proof (cases "last_beat_seen m = U64_MAX \<or> hb u \<noteq> last_beat_seen m")
  case True
  then show ?thesis by (auto simp: check_liveness_def Let_def)
next
  case False
  with assms(1) obtain t0 where "hb u = hb t0"
    and d: "beat_deadline_at m = t0 + HEARTBEAT_DEADLINE_MS"
    by (auto simp: armed_def)
  then have "\<not> t0 + HEARTBEAT_DEADLINE_MS \<le> u" using beating [of t0 u] by auto
  with False d show ?thesis by (simp add: check_liveness_def Let_def)
qed

lemma liveness_run_beating:
  assumes "armed hb t m" and "sorted (t # ts)"
    and "\<And>a b. a + HEARTBEAT_DEADLINE_MS \<le> b \<Longrightarrow> hb a \<noteq> hb b"
  shows "list_all (\<lambda>ok. ok) (liveness_run (map (\<lambda>u. (u, hb u)) ts) m)"
  using assms(1,2)
proof (induction ts arbitrary: t m)
  case Nil
  then show ?case by simp
next
  case (Cons u ts)
  let ?c = "check_liveness u (m\<lparr>liveness := hb u\<rparr>)"
  have "t \<le> u" and "sorted (u # ts)" using Cons.prems(2) by auto
  from Cons.IH [OF check_liveness_armed [OF Cons.prems(1) \<open>t \<le> u\<close>] this(2)]
  have "list_all (\<lambda>ok. ok) (liveness_run (map (\<lambda>u. (u, hb u)) ts) (snd ?c))" .
  with check_liveness_beating [OF Cons.prems(1) \<open>t \<le> u\<close> assms(3)] show ?case
    by (simp add: case_prod_unfold)
qed

end
