(* ===== verification/Postgres.thy ===== *)
theory Postgres
  imports Text_Paths Observability "HOL-Library.List_Lexorder" "HOL-Library.Char_ord"
begin

text \<open>
  The two tables of the schema in \<open>DbCustomizer::on_acquire\<close>, the SQL statements
  of \<open>src/db.rs\<close> as functions on them, and the way the client library runs a statement or
  a transaction. What the server and the network do beyond the text of the statements
  is the environment: the list \<open>fates\<close> says for each round trip whether it is served,
  refused, or carried out with the reply lost.
\<close>

section \<open>Tables\<close>

record entry =
  e_parent :: string
  e_name :: string
  e_kind :: string
  e_data :: bytes
  e_size :: int
  e_mtime :: int

record block =
  b_parent :: string
  b_name :: string
  b_no :: int
  b_data :: bytes

record tables =
  entries :: "entry list"
  blocks :: "block list"

type_synonym key = "string \<times> string"

definition entry_key :: "entry \<Rightarrow> key" where
  "entry_key r = (e_parent r, e_name r)"

definition block_key :: "block \<Rightarrow> key \<times> int" where
  "block_key b = ((b_parent b, b_name b), b_no b)"

definition block_file :: "block \<Rightarrow> key" where
  "block_file b = (b_parent b, b_name b)"

text \<open>Both \<open>PRIMARY KEY\<close> constraints hold.\<close>

definition keys_ok :: "tables \<Rightarrow> bool" where
  "keys_ok t \<longleftrightarrow> distinct (map entry_key (entries t)) \<and> distinct (map block_key (blocks t))"

section \<open>Statements\<close>

text \<open>A statement maps the tables to its result and the new tables; \<^term>\<open>None\<close> is an
  error the server raises, here a violated primary key or, for \<open>query_opt\<close>, a result of
  more than one row.\<close>

type_synonym 'a stmt = "tables \<Rightarrow> ('a \<times> tables) option"

definition sql_read :: "(tables \<Rightarrow> 'a) \<Rightarrow> 'a stmt" where
  "sql_read f t = Some (f t, t)"

definition sql_opt :: "(tables \<Rightarrow> 'a list) \<Rightarrow> 'a option stmt" where
  "sql_opt f t = (case f t of [] \<Rightarrow> Some (None, t) | [r] \<Rightarrow> Some (Some r, t) | _ \<Rightarrow> None)"

definition select_entry :: "key \<Rightarrow> tables \<Rightarrow> entry list" where
  "select_entry k t = filter (\<lambda>r. entry_key r = k) (entries t)"

definition select_children :: "string \<Rightarrow> tables \<Rightarrow> entry list" where
  "select_children parent t =
     sort_key e_name (filter (\<lambda>r. e_parent r = parent) (entries t))"

definition select_one_child :: "string \<Rightarrow> tables \<Rightarrow> entry list" where
  "select_one_child parent t = take 1 (filter (\<lambda>r. e_parent r = parent) (entries t))"

definition insert_entry :: "key \<Rightarrow> string \<Rightarrow> int \<Rightarrow> nat stmt" where
  "insert_entry k kind now t =
     (if list_ex (\<lambda>r. entry_key r = k) (entries t) then Some (0, t)
      else Some (1, t\<lparr>entries := entries t @
        [\<lparr>e_parent = fst k, e_name = snd k, e_kind = kind, e_data = [], e_size = 0,
          e_mtime = now\<rparr>]\<rparr>))"

definition update_size :: "key \<Rightarrow> int \<Rightarrow> int \<Rightarrow> nat stmt" where
  "update_size k sz now t =
     Some (length (select_entry k t),
       t\<lparr>entries := map (\<lambda>r. if entry_key r = k then r\<lparr>e_size := sz, e_mtime := now\<rparr> else r)
                      (entries t)\<rparr>)"

definition delete_entry :: "key \<Rightarrow> nat stmt" where
  "delete_entry k t =
     Some (length (select_entry k t),
       t\<lparr>entries := filter (\<lambda>r. entry_key r \<noteq> k) (entries t)\<rparr>)"

definition select_blocks :: "key \<Rightarrow> int \<Rightarrow> int \<Rightarrow> tables \<Rightarrow> block list" where
  "select_blocks k lo hi t =
     sort_key b_no (filter (\<lambda>b. block_file b = k \<and> lo \<le> b_no b \<and> b_no b \<le> hi) (blocks t))"

definition upsert_block :: "key \<Rightarrow> int \<Rightarrow> bytes \<Rightarrow> nat stmt" where
  "upsert_block k no data t =
     Some (1, t\<lparr>blocks :=
       (if list_ex (\<lambda>b. block_key b = (k, no)) (blocks t)
        then map (\<lambda>b. if block_key b = (k, no) then b\<lparr>b_data := data\<rparr> else b) (blocks t)
        else blocks t @ [\<lparr>b_parent = fst k, b_name = snd k, b_no = no, b_data = data\<rparr>])\<rparr>)"

definition prune_blocks :: "key \<Rightarrow> int \<Rightarrow> nat stmt" where
  "prune_blocks k keep t =
     Some (length (filter (\<lambda>b. block_file b = k \<and> keep < b_no b) (blocks t)),
       t\<lparr>blocks := filter (\<lambda>b. \<not> (block_file b = k \<and> keep < b_no b)) (blocks t)\<rparr>)"

definition delete_blocks :: "key \<Rightarrow> nat stmt" where
  "delete_blocks k t =
     Some (length (filter (\<lambda>b. block_file b = k) (blocks t)),
       t\<lparr>blocks := filter (\<lambda>b. block_file b \<noteq> k) (blocks t)\<rparr>)"

text \<open>An \<open>UPDATE\<close> that changes key columns goes through the rows in turn and fails when a
  new key is already taken.\<close>

fun update_keyed ::
  "('r \<Rightarrow> 'k) \<Rightarrow> ('r \<Rightarrow> bool) \<Rightarrow> ('r \<Rightarrow> 'r) \<Rightarrow> 'r list \<Rightarrow> 'r list \<Rightarrow> 'r list option"
where
  "update_keyed key P f done [] = Some done"
| "update_keyed key P f done (r # rs) =
     (if P r then
        if list_ex (\<lambda>q. key q = key (f r)) (done @ rs) then None
        else update_keyed key P f (done @ [f r]) rs
      else update_keyed key P f (done @ [r]) rs)"

text \<open>\<open>parent = $3 OR parent LIKE $3 || '/%'\<close> and \<open>$1 || substring(parent FROM $2 + 1)\<close>\<close>

definition under :: "string \<Rightarrow> string \<Rightarrow> bool" where
  "under old_path parent \<longleftrightarrow> parent = old_path \<or> sql_like (old_path @ ''/%'') parent"

definition reparent :: "string \<Rightarrow> nat \<Rightarrow> string \<Rightarrow> string" where
  "reparent new_path n parent = new_path @ substring_after n parent"

definition rewrite_entries :: "string \<Rightarrow> nat \<Rightarrow> string \<Rightarrow> nat stmt" where
  "rewrite_entries new_path n old_path t =
     map_option (\<lambda>rs. (length (filter (\<lambda>r. under old_path (e_parent r)) (entries t)),
         t\<lparr>entries := rs\<rparr>))
       (update_keyed entry_key (\<lambda>r. under old_path (e_parent r))
         (\<lambda>r. r\<lparr>e_parent := reparent new_path n (e_parent r)\<rparr>) [] (entries t))"

definition rewrite_blocks :: "string \<Rightarrow> nat \<Rightarrow> string \<Rightarrow> nat stmt" where
  "rewrite_blocks new_path n old_path t =
     map_option (\<lambda>bs. (length (filter (\<lambda>b. under old_path (b_parent b)) (blocks t)),
         t\<lparr>blocks := bs\<rparr>))
       (update_keyed block_key (\<lambda>b. under old_path (b_parent b))
         (\<lambda>b. b\<lparr>b_parent := reparent new_path n (b_parent b)\<rparr>) [] (blocks t))"

definition move_entry :: "key \<Rightarrow> key \<Rightarrow> int \<Rightarrow> nat stmt" where
  "move_entry new old now t =
     map_option (\<lambda>rs. (length (select_entry old t), t\<lparr>entries := rs\<rparr>))
       (update_keyed entry_key (\<lambda>r. entry_key r = old)
         (\<lambda>r. r\<lparr>e_parent := fst new, e_name := snd new, e_mtime := now\<rparr>) [] (entries t))"

definition move_blocks :: "key \<Rightarrow> key \<Rightarrow> nat stmt" where
  "move_blocks new old t =
     map_option (\<lambda>bs. (length (filter (\<lambda>b. block_file b = old) (blocks t)), t\<lparr>blocks := bs\<rparr>))
       (update_keyed block_key (\<lambda>b. block_file b = old)
         (\<lambda>b. b\<lparr>b_parent := fst new, b_name := snd new\<rparr>) [] (blocks t))"

section \<open>The connection\<close>

datatype fate = Served | Refused | Reply_lost

text \<open>What the daemon was doing when a statement failed: the context string that
  \<open>error::ctx\<close> attaches, one constructor per call.\<close>

datatype sql_step =
    Begin_txn | Commit_txn | Get_attributes | List_children | Read_blocks | Upsert_block
  | Update_size | Prune_blocks | Create_file | Create_dir | Remove_entry | Remove_blocks
  | Check_target | Check_empty | Rewrite_entries | Rewrite_blocks | Move_entry | Move_blocks

datatype db_error =
    Query_failed sql_step
  | Unexpected_kind string
  | Negative_size int
  | Not_a_file key
  | No_source string
  | Target_not_empty string
  | Zero_rows string
  | Panic

text \<open>The standby as the daemon sees it: its tables, and the answers to the three probes of
  \<open>replica_fresh\<close>, \<^term>\<open>None\<close> where the probe fails.\<close>

record standby =
  sb_tabs :: tables
  sb_fates :: "fate list"
  in_recovery :: "bool option"
  primary_lsn :: "int option"
  replay_lsn :: "int option option"

text \<open>
  \<open>struct Db\<close> with what its methods read and write around it: the primary's tables, the
  fates of the coming round trips, the server's \<open>now()\<close>, the monotonic clock in
  milliseconds, the durations that \<open>Instant::elapsed\<close> will report, and the statics.
\<close>

record db =
  tabs :: tables
  fates :: "fate list"
  pg_now :: int
  replica :: "standby option"
  freshness_cached :: bool
  freshness_checked_at :: "nat option"
  mono_now :: nat
  elapsed :: "nat list"
  stats :: statics

type_synonym 'a dbm = "db \<Rightarrow> (db_error + 'a) \<times> db"

definition db_return :: "'a \<Rightarrow> 'a dbm" where
  "db_return x s = (Inr x, s)"

definition db_fail :: "db_error \<Rightarrow> 'a dbm" where
  "db_fail e s = (Inl e, s)"

text \<open>Sequencing with the \<open>?\<close> operator: an error returns early.\<close>

definition db_bind :: "'a dbm \<Rightarrow> ('a \<Rightarrow> 'b dbm) \<Rightarrow> 'b dbm" where
  "db_bind m f s = (case m s of (Inl e, s') \<Rightarrow> (Inl e, s') | (Inr x, s') \<Rightarrow> f x s')"

fun db_for :: "('i \<Rightarrow> unit dbm) \<Rightarrow> 'i list \<Rightarrow> unit dbm" where
  "db_for body [] = db_return ()"
| "db_for body (x # xs) = db_bind (body x) (\<lambda>_. db_for body xs)"

text \<open>\<open>DB_LATENCY.record(_t0.elapsed())\<close>\<close>

definition record_latency :: "db \<Rightarrow> db" where
  "record_latency s =
     s\<lparr>stats := (stats s)\<lparr>db_latency :=
           histogram_record (case elapsed s of [] \<Rightarrow> 0 | us # _ \<Rightarrow> us) (db_latency (stats s))\<rparr>,
       elapsed := tl (elapsed s)\<rparr>"

definition timed_return :: "'a \<Rightarrow> 'a dbm" where
  "timed_return x s = (Inr x, record_latency s)"

text \<open>One statement on the primary.\<close>

definition run_stmt :: "sql_step \<Rightarrow> 'a stmt \<Rightarrow> 'a dbm" where
  "run_stmt step f s =
     (case f (tabs s) of
        None \<Rightarrow> (Inl (Query_failed step), s)
      | Some (r, t) \<Rightarrow> (Inr r, s\<lparr>tabs := t\<rparr>))"

definition pg_exec :: "sql_step \<Rightarrow> 'a stmt \<Rightarrow> 'a dbm" where
  "pg_exec step f s =
     (case fates s of
        [] \<Rightarrow> run_stmt step f s
      | fate # rest \<Rightarrow>
          (let s' = s\<lparr>fates := rest\<rparr> in
           case fate of
             Served \<Rightarrow> run_stmt step f s'
           | Refused \<Rightarrow> (Inl (Query_failed step), s')
           | Reply_lost \<Rightarrow> (Inl (Query_failed step), snd (run_stmt step f s'))))"

text \<open>A statement that mentions \<open>now()\<close>, the start of its transaction.\<close>

definition pg_exec_now :: "sql_step \<Rightarrow> (int \<Rightarrow> 'a stmt) \<Rightarrow> 'a dbm" where
  "pg_exec_now step f s = pg_exec step (f (pg_now s)) s"

text \<open>
  \<open>client.transaction()\<close>, the statements through it, \<open>txn.commit()\<close>. Leaving the body
  early drops the transaction, which rolls back; a commit whose reply is lost has happened.
\<close>

definition pg_transaction :: "'a dbm \<Rightarrow> 'a dbm" where
  "pg_transaction body s =
     (case pg_exec Begin_txn (sql_read (\<lambda>_. ())) s of
        (Inl e, s1) \<Rightarrow> (Inl e, s1)
      | (Inr _, s1) \<Rightarrow>
          (case body s1 of
             (Inl e, s2) \<Rightarrow> (Inl e, s2\<lparr>tabs := tabs s1\<rparr>)
           | (Inr x, s2) \<Rightarrow>
               (case fates s2 of
                  [] \<Rightarrow> (Inr x, s2)
                | fate # rest \<Rightarrow>
                    (let s3 = s2\<lparr>fates := rest\<rparr> in
                     case fate of
                       Served \<Rightarrow> (Inr x, s3)
                     | Refused \<Rightarrow> (Inl (Query_failed Commit_txn), s3\<lparr>tabs := tabs s1\<rparr>)
                     | Reply_lost \<Rightarrow> (Inl (Query_failed Commit_txn), s3)))))"

text \<open>One query on the standby.\<close>

definition standby_query :: "sql_step \<Rightarrow> 'a stmt \<Rightarrow> standby \<Rightarrow> 'a dbm" where
  "standby_query step f sb s =
     (let answer = (case f (sb_tabs sb) of
                      None \<Rightarrow> Inl (Query_failed step) | Some (r, _) \<Rightarrow> Inr r) in
      case sb_fates sb of
        [] \<Rightarrow> (answer, s)
      | fate # rest \<Rightarrow>
          (if fate = Served then answer else Inl (Query_failed step),
           s\<lparr>replica := Some (sb\<lparr>sb_fates := rest\<rparr>)\<rparr>))"

end
