(* ===== verification/Block_Math.thy ===== *)
theory Block_Math
  imports Basics
begin

text \<open>
  The block arithmetic that \<open>Db::read_range_primary\<close>, \<open>Db::write_range\<close> and
  \<open>HandleBuffer::write\<close> share: a file is cut into blocks of 64 KiB, a block number is an
  \<open>i32\<close>, and a byte that no block holds reads as zero. Checked arithmetic that leaves its
  range panics in the build the scripts run, which is \<^term>\<open>None\<close> here.
\<close>

definition BLOCK_SIZE :: nat where
  "BLOCK_SIZE = 64 * 1024"

lemma BLOCK_SIZE_pos [simp]: "0 < BLOCK_SIZE"
  by (simp add: BLOCK_SIZE_def)

section \<open>The spans of a write\<close>

text \<open>
  For a write of \<open>offset .. end\<close> and block \<open>b_no\<close>: where the chunk starts and ends in the
  data, and where it goes in the block.
\<close>

definition block_span :: "nat \<Rightarrow> nat \<Rightarrow> int \<Rightarrow> (nat \<times> nat \<times> nat) option" where
  "block_span offset end b_no =
     (if b_no < 0 then None
      else
        let block_start = nat b_no * BLOCK_SIZE;
            block_end = block_start + BLOCK_SIZE;
            write_start = max offset block_start;
            write_end = min end block_end
        in if write_end < write_start then None
           else Some (write_start - offset, write_end - offset, write_start - block_start))"

text \<open>Growing the block when the chunk ends past it, then copying the chunk in.\<close>

definition patch_block :: "nat \<Rightarrow> bytes \<Rightarrow> bytes \<Rightarrow> bytes" where
  "patch_block block_offset chunk block_data =
     splice block_offset chunk
       (if length block_data < block_offset + length chunk
        then resize0 (block_offset + length chunk) block_data else block_data)"

lemma byte0_patch_block:
  "byte0 (patch_block bo chunk old) i =
    (if bo \<le> i \<and> i < bo + length chunk then chunk ! (i - bo) else byte0 old i)"
  by (simp add: patch_block_def byte0_splice)

lemma length_patch_block:
  "length (patch_block bo chunk old) = max (bo + length chunk) (length old)"
  by (simp add: patch_block_def length_splice max_def)

lemma div_BLOCK_SIZE_bounds:
  "x div BLOCK_SIZE * BLOCK_SIZE \<le> x" "x < x div BLOCK_SIZE * BLOCK_SIZE + BLOCK_SIZE"
  using div_mult_mod_eq [of x BLOCK_SIZE] mod_less_divisor [OF BLOCK_SIZE_pos, of x] by linarith+

lemma div_BLOCK_SIZE_eq:
  "x div BLOCK_SIZE = b \<longleftrightarrow> b * BLOCK_SIZE \<le> x \<and> x < b * BLOCK_SIZE + BLOCK_SIZE"
  using div_BLOCK_SIZE_bounds [of x]
  by (metis BLOCK_SIZE_pos add.commute div_nat_eqI mult.commute mult_Suc)

lemma mod_BLOCK_SIZE: "x mod BLOCK_SIZE = x - x div BLOCK_SIZE * BLOCK_SIZE"
  by (simp add: minus_div_mult_eq_mod)

lemma block_span_inside:
  assumes "offset < end" and "offset div BLOCK_SIZE \<le> b" and "b \<le> (end - 1) div BLOCK_SIZE"
  obtains ws we where
    "block_span offset end (int b) = Some (ws - offset, we - offset, ws - b * BLOCK_SIZE)"
    "ws = max offset (b * BLOCK_SIZE)" "we = min end (b * BLOCK_SIZE + BLOCK_SIZE)"
    "offset \<le> ws" "ws < we" "we \<le> end" "b * BLOCK_SIZE \<le> ws" "we \<le> b * BLOCK_SIZE + BLOCK_SIZE"
proof -
  have "offset < b * BLOCK_SIZE + BLOCK_SIZE"
    using div_BLOCK_SIZE_bounds(2) [of offset] mult_le_mono1 [OF assms(2), of BLOCK_SIZE] by linarith
  moreover have "b * BLOCK_SIZE < end"
    using div_BLOCK_SIZE_bounds(1) [of "end - 1"] mult_le_mono1 [OF assms(3), of BLOCK_SIZE] assms(1)
    by linarith
  ultimately have "max offset (b * BLOCK_SIZE) < min end (b * BLOCK_SIZE + BLOCK_SIZE)"
    using assms(1) by simp
  then have lt: "max offset (b * BLOCK_SIZE) < min end (b * BLOCK_SIZE + BLOCK_SIZE)" .
  then have "\<not> min end (b * BLOCK_SIZE + BLOCK_SIZE) < max offset (b * BLOCK_SIZE)" by linarith
  then have "block_span offset end (int b) =
      Some (max offset (b * BLOCK_SIZE) - offset, min end (b * BLOCK_SIZE + BLOCK_SIZE) - offset,
        max offset (b * BLOCK_SIZE) - b * BLOCK_SIZE)"
    by (simp only: block_span_def Let_def nat_int if_False of_nat_less_0_iff)
  from that [OF this refl refl _ lt] show ?thesis by simp
qed

text \<open>One block of a write: what the block reads as afterwards.\<close>

lemma block_span_patch:
  assumes "data \<noteq> []" and "offset div BLOCK_SIZE \<le> b"
    and "b \<le> (offset + length data - 1) div BLOCK_SIZE"
  obtains a e bo where
    "block_span offset (offset + length data) (int b) = Some (a, e, bo)"
    "a < e" "e \<le> length data" "bo + (e - a) \<le> BLOCK_SIZE"
    "\<And>old x. x div BLOCK_SIZE = b \<Longrightarrow>
       byte0 (patch_block bo (take (e - a) (drop a data)) old) (x mod BLOCK_SIZE) =
         (if offset \<le> x \<and> x < offset + length data then data ! (x - offset)
          else byte0 old (x mod BLOCK_SIZE))"
proof -
  from assms(1) have lt: "offset < offset + length data" by simp
  obtain ws we where span:
    "block_span offset (offset + length data) (int b) =
       Some (ws - offset, we - offset, ws - b * BLOCK_SIZE)"
    and ws: "ws = max offset (b * BLOCK_SIZE)"
    and we: "we = min (offset + length data) (b * BLOCK_SIZE + BLOCK_SIZE)"
    and le: "offset \<le> ws" "ws < we" "we \<le> offset + length data"
      "b * BLOCK_SIZE \<le> ws" "we \<le> b * BLOCK_SIZE + BLOCK_SIZE"
    using block_span_inside [OF lt assms(2,3)] by blast
  show ?thesis
  proof (rule that [OF span])
    show "ws - offset < we - offset" and "we - offset \<le> length data"
      and "ws - b * BLOCK_SIZE + (we - offset - (ws - offset)) \<le> BLOCK_SIZE"
      using le by linarith+
    fix old x
    assume x: "x div BLOCK_SIZE = b"
    then have xb: "b * BLOCK_SIZE \<le> x" "x < b * BLOCK_SIZE + BLOCK_SIZE"
      by (simp_all add: div_BLOCK_SIZE_eq)
    have xm: "x mod BLOCK_SIZE = x - b * BLOCK_SIZE" using x by (simp add: mod_BLOCK_SIZE)
    have inside: "ws - b * BLOCK_SIZE \<le> x mod BLOCK_SIZE \<and>
        x mod BLOCK_SIZE < ws - b * BLOCK_SIZE + (we - ws) \<longleftrightarrow>
        offset \<le> x \<and> x < offset + length data"
      using xb ws we le unfolding xm by (auto simp: max_def min_def split: if_splits)
    have len: "length (take (we - offset - (ws - offset)) (drop (ws - offset) data)) = we - ws"
      using le by simp
    have nth: "take (we - offset - (ws - offset)) (drop (ws - offset) data) !
        (x mod BLOCK_SIZE - (ws - b * BLOCK_SIZE)) = data ! (x - offset)"
      if "offset \<le> x \<and> x < offset + length data"
    proof -
      from that inside xb le have x: "ws \<le> x" "x < we" unfolding xm by linarith+
      have "x mod BLOCK_SIZE - (ws - b * BLOCK_SIZE) = x - ws" using x le unfolding xm by simp
      moreover have "ws - offset + (x - ws) = x - offset" using x le by simp
      ultimately show ?thesis using x le by simp
    qed
    show "byte0 (patch_block (ws - b * BLOCK_SIZE)
          (take (we - offset - (ws - offset)) (drop (ws - offset) data)) old) (x mod BLOCK_SIZE) =
        (if offset \<le> x \<and> x < offset + length data then data ! (x - offset)
         else byte0 old (x mod BLOCK_SIZE))"
      unfolding byte0_patch_block len inside using nth by simp
  qed
qed

section \<open>Writing block by block\<close>

text \<open>
  The contract of a store the block loop writes into: every step on a block of the write
  puts the bytes of the data that fall in the block in place and leaves all others. The
  loop then has written exactly the data.
\<close>

locale block_writer =
  fixes step :: "int \<Rightarrow> 's \<Rightarrow> 's"
    and view :: "'s \<Rightarrow> nat \<Rightarrow> byte"
    and valid :: "'s \<Rightarrow> bool"
    and offset :: nat
    and data :: bytes
  assumes step_valid: "valid s \<Longrightarrow> offset div BLOCK_SIZE \<le> b \<Longrightarrow>
      b \<le> (offset + length data - 1) div BLOCK_SIZE \<Longrightarrow> data \<noteq> [] \<Longrightarrow> valid (step (int b) s)"
    and step_view: "valid s \<Longrightarrow> offset div BLOCK_SIZE \<le> b \<Longrightarrow>
      b \<le> (offset + length data - 1) div BLOCK_SIZE \<Longrightarrow> data \<noteq> [] \<Longrightarrow>
      view (step (int b) s) x =
        (if x div BLOCK_SIZE = b \<and> offset \<le> x \<and> x < offset + length data
         then data ! (x - offset) else view s x)"
begin

lemma loop_view_upto:
  assumes "valid s" and "data \<noteq> []" and "offset div BLOCK_SIZE \<le> m"
    and "m \<le> Suc ((offset + length data - 1) div BLOCK_SIZE)"
  shows "valid (fold (\<lambda>b. step (int b)) [offset div BLOCK_SIZE..<m] s) \<and>
    view (fold (\<lambda>b. step (int b)) [offset div BLOCK_SIZE..<m] s) x =
      (if x div BLOCK_SIZE < m \<and> offset \<le> x \<and> x < offset + length data
       then data ! (x - offset) else view s x)"
  using assms(3,4)
proof (induction m rule: dec_induct)
  case base
  have "\<not> (x div BLOCK_SIZE < offset div BLOCK_SIZE \<and> offset \<le> x)"
    using div_le_mono [of offset x BLOCK_SIZE] by auto
  with assms(1) show ?case by auto
next
  case (step m)
  let ?s = "fold (\<lambda>b. step (int b)) [offset div BLOCK_SIZE..<m] s"
  have b: "offset div BLOCK_SIZE \<le> m" "m \<le> (offset + length data - 1) div BLOCK_SIZE"
    using step by auto
  have IH: "valid ?s" "view ?s x = (if x div BLOCK_SIZE < m \<and> offset \<le> x \<and> x < offset + length data
       then data ! (x - offset) else view s x)"
    using step by auto
  have "[offset div BLOCK_SIZE..<Suc m] = [offset div BLOCK_SIZE..<m] @ [m]" using b by simp
  then have eq: "fold (\<lambda>b. step (int b)) [offset div BLOCK_SIZE..<Suc m] s = step (int m) ?s"
    by simp
  show ?case
    unfolding eq using step_valid [OF IH(1) b assms(2)]
    by (auto simp: step_view [OF IH(1) b assms(2)] IH(2) less_Suc_eq)
qed

lemma loop_view:
  assumes "valid s" and "data \<noteq> []"
  defines "s' \<equiv> fold (\<lambda>b. step (int b))
      [offset div BLOCK_SIZE..<Suc ((offset + length data - 1) div BLOCK_SIZE)] s"
  shows "valid s'"
    and "view s' x = (if offset \<le> x \<and> x < offset + length data then data ! (x - offset)
                      else view s x)"
proof -
  let ?last = "(offset + length data - 1) div BLOCK_SIZE"
  have "offset \<le> offset + length data - 1" using assms(2) by (cases data) auto
  then have "offset div BLOCK_SIZE \<le> ?last" by (rule div_le_mono)
  then have le: "offset div BLOCK_SIZE \<le> Suc ?last" by simp
  have "x div BLOCK_SIZE < Suc ?last" if "x < offset + length data"
  proof -
    from that have "x \<le> offset + length data - 1" by linarith
    then have "x div BLOCK_SIZE \<le> ?last" by (rule div_le_mono)
    then show ?thesis by simp
  qed
  with loop_view_upto [OF assms(1,2) le order_refl, of x] show "valid s'"
    and "view s' x = (if offset \<le> x \<and> x < offset + length data then data ! (x - offset)
                      else view s x)"
    unfolding s'_def by auto
qed

end

text \<open>The range \<open>start_block..=end_block\<close> of \<open>i32\<close>s.\<close>

lemma upto_int_nat: "[int a..int b] = map int [a..<Suc b]"
proof (induction "Suc b - a" arbitrary: a)
  case 0
  then show ?case by (simp add: upto.simps)
next
  case (Suc n)
  then have "a \<le> b" by linarith
  then have "[int a..int b] = int a # [int (Suc a)..int b]"
    by (subst upto.simps) (simp add: add.commute)
  also have "[int (Suc a)..int b] = map int [Suc a..<Suc b]"
    using Suc.hyps(2) by (intro Suc.hyps(1)) simp
  also have "int a # map int [Suc a..<Suc b] = map int [a..<Suc b]"
    using \<open>a \<le> b\<close> by (subst upt_conv_Cons [of a]) simp_all
  finally show ?case .
qed

definition block_range :: "nat \<Rightarrow> nat \<Rightarrow> int list" where
  "block_range offset end = [as_i32 (offset div BLOCK_SIZE)..as_i32 ((end - 1) div BLOCK_SIZE)]"

text \<open>The largest offset whose block number fits an \<open>i32\<close>.\<close>

abbreviation MAX_BYTES :: nat where
  "MAX_BYTES \<equiv> 2 ^ 47"

lemma div_MAX_BYTES: "x < MAX_BYTES \<Longrightarrow> x div BLOCK_SIZE < 2 ^ 31"
  by (simp add: BLOCK_SIZE_def less_mult_imp_div_less)

lemma block_range_nat:
  assumes "offset < end" and "end \<le> MAX_BYTES"
  shows "block_range offset end =
    map int [offset div BLOCK_SIZE..<Suc ((end - 1) div BLOCK_SIZE)]"
  using assms div_MAX_BYTES [of offset] div_MAX_BYTES [of "end - 1"]
  by (simp add: block_range_def as_i32_small upto_int_nat)

section \<open>Reading block by block\<close>

text \<open>
  The bytes one turn of the read loop appends: the part of the block that is stored, then
  zeros.
\<close>

definition append_block :: "bytes option \<Rightarrow> nat \<Rightarrow> nat \<Rightarrow> bytes \<Rightarrow> bytes" where
  "append_block found block_offset bytes_in_block result =
     (case found of
        Some b_data \<Rightarrow>
          (let slice_end = min (block_offset + bytes_in_block) (length b_data) in
           if block_offset < length b_data then
             (let result' = result @ take (slice_end - block_offset) (drop block_offset b_data) in
              if slice_end < block_offset + bytes_in_block
              then resize0 (length result' + (block_offset + bytes_in_block - slice_end)) result'
              else result')
           else resize0 (length result + bytes_in_block) result)
      | None \<Rightarrow> resize0 (length result + bytes_in_block) result)"

lemma block_advances:
  assumes "0 \<le> as_i32 (current div BLOCK_SIZE)"
    and "\<not> min (nat (as_i32 (current div BLOCK_SIZE)) * BLOCK_SIZE + BLOCK_SIZE) end < current"
    and "current < end"
  shows "as_i32 (current div BLOCK_SIZE) = int (current div BLOCK_SIZE)"
proof -
  define q where "q = current div BLOCK_SIZE"
  define r where "r = nat (as_i32 q)"
  have r: "as_i32 q = int r" using assms(1) by (simp add: r_def q_def)
  obtain k where k: "int q = int r + 2 ^ 32 * k" using as_i32_cong [of q] r by auto
  have "r \<le> q" using as_i32_le [of q] r by simp
  have "current \<le> r * BLOCK_SIZE + BLOCK_SIZE" using assms(2) by (simp add: r_def q_def)
  with div_BLOCK_SIZE_bounds(1) [of current] have "q * BLOCK_SIZE \<le> (r + 1) * BLOCK_SIZE"
    unfolding q_def add_mult_distrib mult_1 by linarith
  then have "q \<le> r + 1" by (simp only: mult_le_cancel2 BLOCK_SIZE_pos simp_thms)
  with k \<open>r \<le> q\<close> have "k = 0" by auto
  with k r show ?thesis by (simp add: q_def)
qed

function read_loop ::
  "(int \<Rightarrow> bytes option) \<Rightarrow> nat \<Rightarrow> nat \<Rightarrow> bytes \<Rightarrow> bytes option"
where
  "read_loop stored end_offset current_offset result =
     (if current_offset < end_offset then
        let block_no = as_i32 (current_offset div BLOCK_SIZE) in
        if block_no < 0 then None
        else
          let block_start = nat block_no * BLOCK_SIZE;
              block_offset = current_offset - block_start;
              block_end = min (block_start + BLOCK_SIZE) end_offset
          in if block_end < current_offset then None
             else read_loop stored end_offset
                    (current_offset + (block_end - current_offset))
                    (append_block (stored block_no) block_offset (block_end - current_offset) result)
      else Some result)"
  by pat_completeness auto
termination
proof (relation "measure (\<lambda>(stored, end_offset, current_offset, result). end_offset - current_offset)")
  show "wf (measure (\<lambda>(stored :: int \<Rightarrow> bytes option, end_offset, current_offset, result :: bytes).
      end_offset - current_offset))" by simp
next
  fix stored :: "int \<Rightarrow> bytes option" and end_offset current_offset :: nat
    and result :: bytes and b st bo be
  assume a: "current_offset < end_offset" "b = as_i32 (current_offset div BLOCK_SIZE)" "\<not> b < 0"
    "st = nat b * BLOCK_SIZE" "bo = current_offset - st" "be = min (st + BLOCK_SIZE) end_offset"
    "\<not> be < current_offset"
  then have "as_i32 (current_offset div BLOCK_SIZE) = int (current_offset div BLOCK_SIZE)"
    by (intro block_advances [of _ end_offset]) simp_all
  with a have "current_offset < be"
    using div_BLOCK_SIZE_bounds(2) [of current_offset] by simp
  then show "((stored, end_offset, current_offset + (be - current_offset),
       append_block (stored b) bo (be - current_offset) result),
       (stored, end_offset, current_offset, result))
     \<in> measure (\<lambda>(stored, end_offset, current_offset, result). end_offset - current_offset)"
    using a(1) by (simp only: in_measure prod.case)
qed

declare read_loop.simps [simp del]

text \<open>The byte at a file offset, given the stored blocks.\<close>

definition stored_byte :: "(int \<Rightarrow> bytes option) \<Rightarrow> nat \<Rightarrow> byte" where
  "stored_byte stored x =
     (case stored (int (x div BLOCK_SIZE)) of
        None \<Rightarrow> 0
      | Some d \<Rightarrow> byte0 d (x mod BLOCK_SIZE))"

lemma append_block_eq:
  "append_block found bo n result =
     result @ map (\<lambda>i. case found of None \<Rightarrow> 0 | Some d \<Rightarrow> byte0 d i) [bo..<bo + n]"
proof (cases found)
  case None
  then show ?thesis
    by (simp add: append_block_def resize0_def map_replicate_const)
next
  case (Some d)
  show ?thesis
  proof (rule nth_equalityI)
    show "length (append_block found bo n result) = length (result @
        map (\<lambda>i. case found of None \<Rightarrow> 0 | Some d \<Rightarrow> byte0 d i) [bo..<bo + n])"
      using Some by (simp add: append_block_def Let_def)
  next
    fix i
    assume "i < length (append_block found bo n result)"
    then have "i < length result + n"
      using Some by (simp add: append_block_def Let_def split: if_splits)
    then show "append_block found bo n result ! i = (result @
        map (\<lambda>i. case found of None \<Rightarrow> 0 | Some d \<Rightarrow> byte0 d i) [bo..<bo + n]) ! i"
      using Some
      by (auto simp: append_block_def resize0_def nth_append byte0_def Let_def min_def)
  qed
qed

lemma block_bytes:
  assumes "x div BLOCK_SIZE = b" and "x + n \<le> b * BLOCK_SIZE + BLOCK_SIZE"
  shows "map (\<lambda>i. case stored (int b) of None \<Rightarrow> 0 | Some d \<Rightarrow> byte0 d i)
      [x - b * BLOCK_SIZE..<x - b * BLOCK_SIZE + n] = map (stored_byte stored) [x..<x + n]"
proof (rule nth_equalityI)
  fix i
  assume "i < length (map (\<lambda>i. case stored (int b) of None \<Rightarrow> 0 | Some d \<Rightarrow> byte0 d i)
      [x - b * BLOCK_SIZE..<x - b * BLOCK_SIZE + n])"
  then have i: "i < n" by simp
  have "b * BLOCK_SIZE \<le> x" using assms(1) by (simp add: div_BLOCK_SIZE_eq)
  with assms(2) i have "(x + i) div BLOCK_SIZE = b" by (simp add: div_BLOCK_SIZE_eq)
  moreover have "(x + i) mod BLOCK_SIZE = x - b * BLOCK_SIZE + i"
    using \<open>b * BLOCK_SIZE \<le> x\<close> calculation(1) by (simp add: mod_BLOCK_SIZE)
  ultimately show "map (\<lambda>i. case stored (int b) of None \<Rightarrow> 0 | Some d \<Rightarrow> byte0 d i)
      [x - b * BLOCK_SIZE..<x - b * BLOCK_SIZE + n] ! i = map (stored_byte stored) [x..<x + n] ! i"
    using i by (simp add: stored_byte_def split: option.split)
qed simp

lemma read_loop_bytes:
  assumes "end_offset \<le> MAX_BYTES" and "current_offset \<le> end_offset"
  shows "read_loop stored end_offset current_offset result =
    Some (result @ map (stored_byte stored) [current_offset..<end_offset])"
  using assms(2)
proof (induction "end_offset - current_offset" arbitrary: current_offset result rule: less_induct)
  case less
  show ?case
  proof (cases "current_offset < end_offset")
    case False
    with less.prems show ?thesis by (subst read_loop.simps) simp
  next
    case True
    define b where "b = current_offset div BLOCK_SIZE"
    define be where "be = min (b * BLOCK_SIZE + BLOCK_SIZE) end_offset"
    have i32: "as_i32 b = int b"
      using True assms(1) div_MAX_BYTES [of current_offset] by (simp add: b_def as_i32_small)
    have lt: "current_offset < be" "be \<le> end_offset" "be \<le> b * BLOCK_SIZE + BLOCK_SIZE"
      using True div_BLOCK_SIZE_bounds(2) [of current_offset] by (simp_all add: be_def b_def)
    have step: "read_loop stored end_offset current_offset result =
        read_loop stored end_offset be
          (result @ map (stored_byte stored) [current_offset..<be])"
      using True lt block_bytes [of current_offset b "be - current_offset" stored]
      by (subst read_loop.simps)
        (simp add: Let_def b_def [symmetric] i32 be_def [symmetric] append_block_eq)
    have "read_loop stored end_offset be (result @ map (stored_byte stored) [current_offset..<be])
        = Some ((result @ map (stored_byte stored) [current_offset..<be])
            @ map (stored_byte stored) [be..<end_offset])"
      using lt True by (intro less.hyps) linarith+
    moreover have "[current_offset..<be] @ [be..<end_offset] = [current_offset..<end_offset]"
      using lt upt_add_eq_append [of current_offset be "end_offset - be"] by simp
    ultimately show ?thesis using step by (simp flip: map_append)
  qed
qed

end
