(* ===== verification/Table_Lookup.thy ===== *)
theory Table_Lookup
  imports Postgres Block_Math
begin

text \<open>
  The tables read as maps: the entry under a key, the stored block of a file, and the byte
  at a file offset. The lemmas say what every statement does to these maps and that every
  statement keeps the primary keys, so that the components above never unfold a statement.
\<close>

definition ent :: "tables \<Rightarrow> key \<Rightarrow> entry option" where
  "ent t k = find (\<lambda>r. entry_key r = k) (entries t)"

definition blk :: "tables \<Rightarrow> key \<Rightarrow> int \<Rightarrow> bytes option" where
  "blk t k no = map_option b_data (find (\<lambda>b. block_key b = (k, no)) (blocks t))"

definition byte_at :: "tables \<Rightarrow> key \<Rightarrow> nat \<Rightarrow> byte" where
  "byte_at t k x = stored_byte (blk t k) x"

section \<open>Keyed rows\<close>

lemma find_append:
  "find P (xs @ ys) = (case find P xs of None \<Rightarrow> find P ys | Some x \<Rightarrow> Some x)"
  by (induction xs) auto

lemma find_map_if:
  assumes "\<And>r. key (f r) = key r"
  shows "find (\<lambda>r. key r = k) (map (\<lambda>r. if Q (key r) then f r else r) rs) =
    map_option (\<lambda>r. if Q k then f r else r) (find (\<lambda>r. key r = k) rs)"
  by (induction rs) (auto simp: assms)

lemma find_filter_key:
  "find (\<lambda>r. key r = k) (filter (\<lambda>r. Q (key r)) rs) =
    (if Q k then find (\<lambda>r. key r = k) rs else None)"
  by (induction rs) auto

lemma find_None_list_ex: "find P rs = None \<longleftrightarrow> \<not> list_ex P rs"
  by (induction rs) auto

lemma map_key_map_if:
  "(\<And>r. key (f r) = key r) \<Longrightarrow> map key (map (\<lambda>r. if Q r then f r else r) rs) = map key rs"
  by (induction rs) auto

lemma filter_key_distinct:
  "distinct (map key rs) \<Longrightarrow>
    filter (\<lambda>r. key r = k) rs = (case find (\<lambda>r. key r = k) rs of None \<Rightarrow> [] | Some r \<Rightarrow> [r])"
proof (induction rs)
  case Nil
  then show ?case by simp
next
  case (Cons r rs)
  show ?case
  proof (cases "key r = k")
    case True
    with Cons.prems have "\<forall>q \<in> set rs. key q \<noteq> k" by (metis distinct.simps(2) image_eqI list.simps(9) set_map)
    then have "filter (\<lambda>r. key r = k) rs = []" by (simp add: filter_empty_conv)
    with True show ?thesis by simp
  next
    case False
    with Cons show ?thesis by simp
  qed
qed

lemma find_in_set:
  "distinct (map key rs) \<Longrightarrow> find (\<lambda>r. key r = k) rs = Some r \<longleftrightarrow> r \<in> set rs \<and> key r = k"
proof (induction rs)
  case Nil
  then show ?case by simp
next
  case (Cons q rs)
  then show ?case by (cases "key q = k") (auto simp: image_iff)
qed

section \<open>Entries\<close>

lemma ent_iff: "keys_ok t \<Longrightarrow> ent t k = Some r \<longleftrightarrow> r \<in> set (entries t) \<and> entry_key r = k"
  unfolding ent_def keys_ok_def by (rule find_in_set) simp

lemma ent_key: "ent t k = Some r \<Longrightarrow> entry_key r = k"
  unfolding ent_def by (drule find_Some_in) simp

lemma ent_in_set: "ent t k = Some r \<Longrightarrow> r \<in> set (entries t)"
  unfolding ent_def by (drule find_Some_in) simp

lemma select_entry_ent:
  "keys_ok t \<Longrightarrow> select_entry k t = (case ent t k of None \<Rightarrow> [] | Some r \<Rightarrow> [r])"
  unfolding select_entry_def ent_def keys_ok_def by (rule filter_key_distinct) simp

lemma sql_opt_entry: "keys_ok t \<Longrightarrow> sql_opt (select_entry k) t = Some (ent t k, t)"
  by (simp add: sql_opt_def select_entry_ent split: option.split)

definition new_entry :: "key \<Rightarrow> string \<Rightarrow> int \<Rightarrow> entry" where
  "new_entry k kind now = \<lparr>e_parent = fst k, e_name = snd k, e_kind = kind, e_data = [],
     e_size = 0, e_mtime = now\<rparr>"

lemma entry_key_new [simp]: "entry_key (new_entry k kind now) = k"
  by (simp add: entry_key_def new_entry_def)

lemma insert_entry_new:
  "ent t k = None \<Longrightarrow>
    insert_entry k kind now t = Some (1, t\<lparr>entries := entries t @ [new_entry k kind now]\<rparr>)"
  by (simp add: insert_entry_def ent_def find_None_list_ex new_entry_def)

lemma insert_entry_old: "ent t k \<noteq> None \<Longrightarrow> insert_entry k kind now t = Some (0, t)"
  by (simp add: insert_entry_def ent_def find_None_list_ex)

lemma ent_insert_entry:
  assumes "insert_entry k kind now t = Some (n, t')"
  shows "ent t' = (case ent t k of None \<Rightarrow> (ent t)(k \<mapsto> new_entry k kind now) | Some _ \<Rightarrow> ent t)"
proof (cases "ent t k")
  case None
  with assms have t': "t' = t\<lparr>entries := entries t @ [new_entry k kind now]\<rparr>"
    by (simp add: insert_entry_new)
  show ?thesis
    using None by (auto simp: t' ent_def find_append fun_eq_iff split: option.split)
next
  case (Some r)
  with assms show ?thesis by (simp add: insert_entry_old)
qed

lemma keys_ok_insert_entry:
  "keys_ok t \<Longrightarrow> insert_entry k kind now t = Some (n, t') \<Longrightarrow> keys_ok t'"
  by (cases "ent t k")
    (auto simp: insert_entry_new insert_entry_old keys_ok_def ent_def find_None_iff image_iff)

lemma ent_update_size:
  "update_size k sz now t = Some (n, t') \<Longrightarrow>
    ent t' k' = map_option (\<lambda>r. if k' = k then r\<lparr>e_size := sz, e_mtime := now\<rparr> else r) (ent t k')"
  using find_map_if [where key = entry_key and f = "\<lambda>r. r\<lparr>e_size := sz, e_mtime := now\<rparr>"
      and Q = "\<lambda>q. q = k" and k = k' and rs = "entries t"]
  by (auto simp: update_size_def ent_def entry_key_def)

lemma keys_ok_update_size:
  assumes "keys_ok t" and "update_size k sz now t = Some (n, t')"
  shows "keys_ok t'"
proof -
  have "map entry_key (map (\<lambda>r. if entry_key r = k then r\<lparr>e_size := sz, e_mtime := now\<rparr> else r)
      (entries t)) = map entry_key (entries t)"
    by (rule map_key_map_if) (simp add: entry_key_def)
  with assms show ?thesis by (auto simp: update_size_def keys_ok_def simp del: map_map)
qed

lemma ent_delete_entry:
  "delete_entry k t = Some (n, t') \<Longrightarrow> ent t' = (ent t)(k := None)"
  using find_filter_key [where key = entry_key and Q = "\<lambda>q. q \<noteq> k" and rs = "entries t"]
  by (auto simp: delete_entry_def ent_def)

lemma keys_ok_delete_entry: "keys_ok t \<Longrightarrow> delete_entry k t = Some (n, t') \<Longrightarrow> keys_ok t'"
  by (auto simp: delete_entry_def keys_ok_def)

section \<open>Blocks\<close>

lemma blk_upsert_block:
  assumes "upsert_block k no d t = Some (n, t')"
  shows "blk t' k' no' = (if k' = k \<and> no' = no then Some d else blk t k' no')"
proof (cases "list_ex (\<lambda>b. block_key b = (k, no)) (blocks t)")
  case True
  then obtain b where "find (\<lambda>b. block_key b = (k, no)) (blocks t) = Some b"
    by (cases "find (\<lambda>b. block_key b = (k, no)) (blocks t)") (auto simp: find_None_list_ex)
  moreover have "find (\<lambda>b. block_key b = (k', no'))
      (map (\<lambda>b. if block_key b = (k, no) then b\<lparr>b_data := d\<rparr> else b) (blocks t)) =
    map_option (\<lambda>b. if (k', no') = (k, no) then b\<lparr>b_data := d\<rparr> else b)
      (find (\<lambda>b. block_key b = (k', no')) (blocks t))"
    by (rule find_map_if [where Q = "\<lambda>q. q = (k, no)"]) (simp add: block_key_def)
  ultimately show ?thesis
    using assms True by (auto simp: upsert_block_def blk_def option.map_comp o_def)
next
  case False
  then have "find (\<lambda>b. block_key b = (k, no)) (blocks t) = None" by (simp add: find_None_list_ex)
  with assms False show ?thesis
    by (auto simp: upsert_block_def blk_def find_append block_key_def split: option.split)
qed

lemma keys_ok_upsert_block:
  assumes "keys_ok t" and "upsert_block k no d t = Some (n, t')"
  shows "keys_ok t'"
proof -
  have "map block_key (map (\<lambda>b. if block_key b = (k, no) then b\<lparr>b_data := d\<rparr> else b) (blocks t)) =
      map block_key (blocks t)"
    by (rule map_key_map_if) (simp add: block_key_def)
  with assms show ?thesis
    by (cases "list_ex (\<lambda>b. block_key b = (k, no)) (blocks t)")
      (auto simp: upsert_block_def keys_ok_def list_ex_iff block_key_def simp del: map_map)
qed

lemma blk_filter:
  "blk (t\<lparr>blocks := filter (\<lambda>b. Q (block_key b)) (blocks t)\<rparr>) k no =
    (if Q (k, no) then blk t k no else None)"
  using find_filter_key [where key = block_key and Q = Q and rs = "blocks t" and k = "(k, no)"]
  by (simp add: blk_def)

lemma block_file_key: "block_file b = fst (block_key b)"
  by (simp add: block_file_def block_key_def)

lemma b_no_key: "b_no b = snd (block_key b)"
  by (simp add: block_key_def)

lemma blk_prune_blocks:
  "prune_blocks k keep t = Some (n, t') \<Longrightarrow>
    blk t' k' no = (if k' = k \<and> keep < no then None else blk t k' no)"
  using blk_filter [of "\<lambda>q. \<not> (fst q = k \<and> keep < snd q)" t k' no]
  by (auto simp: prune_blocks_def block_file_key b_no_key)

lemma keys_ok_prune_blocks: "keys_ok t \<Longrightarrow> prune_blocks k keep t = Some (n, t') \<Longrightarrow> keys_ok t'"
  by (auto simp: prune_blocks_def keys_ok_def)

lemma blk_delete_blocks:
  "delete_blocks k t = Some (n, t') \<Longrightarrow> blk t' k' no = (if k' = k then None else blk t k' no)"
  using blk_filter [of "\<lambda>q. fst q \<noteq> k" t k' no] by (auto simp: delete_blocks_def block_file_key)

lemma keys_ok_delete_blocks: "keys_ok t \<Longrightarrow> delete_blocks k t = Some (n, t') \<Longrightarrow> keys_ok t'"
  by (auto simp: delete_blocks_def keys_ok_def)

text \<open>The \<open>HashMap\<close> that \<open>read_range_primary\<close> fills from the rows.\<close>

definition rows_map :: "block list \<Rightarrow> int \<Rightarrow> bytes option" where
  "rows_map rows = fold (\<lambda>r m. m(b_no r \<mapsto> b_data r)) rows Map.empty"

lemma fold_rows:
  "distinct (map b_no rows) \<Longrightarrow>
    fold (\<lambda>r m. m(b_no r \<mapsto> b_data r)) rows m no =
      (case find (\<lambda>r. b_no r = no) rows of None \<Rightarrow> m no | Some r \<Rightarrow> Some (b_data r))"
proof (induction rows arbitrary: m)
  case Nil
  then show ?case by simp
next
  case (Cons a rows)
  have "find (\<lambda>r. b_no r = no) rows = None" if "b_no a = no"
  proof -
    from Cons.prems that have "\<forall>q \<in> set rows. b_no q \<noteq> no"
      by (metis distinct.simps(2) image_eqI list.simps(9) set_map)
    then show ?thesis by (simp add: find_None_iff)
  qed
  with Cons show ?case by (auto split: option.split)
qed

lemma option_eq_if:
  "(\<And>r. x = Some r \<longleftrightarrow> P \<and> y = Some r) \<Longrightarrow> x = (if P then y else None)"
  by (cases x; cases y) auto

lemma rows_map_select:
  assumes "keys_ok t"
  shows "rows_map (select_blocks k lo hi t) no =
    (if lo \<le> no \<and> no \<le> hi then blk t k no else None)"
proof -
  let ?P = "\<lambda>b. block_file b = k \<and> lo \<le> b_no b \<and> b_no b \<le> hi"
  have d: "distinct (map block_key (blocks t))" using assms by (simp add: keys_ok_def)
  have "inj_on b_no (set (filter ?P (blocks t)))"
    using d by (auto simp: inj_on_def block_key_def block_file_def distinct_map)
  moreover have "distinct (blocks t)" using d by (simp add: distinct_map)
  ultimately have dn: "distinct (map b_no (select_blocks k lo hi t))"
    by (simp add: select_blocks_def distinct_map)
  have "find (\<lambda>r. b_no r = no) (select_blocks k lo hi t) = Some r \<longleftrightarrow>
      lo \<le> no \<and> no \<le> hi \<and> find (\<lambda>b. block_key b = (k, no)) (blocks t) = Some r" for r
    unfolding find_in_set [OF dn] find_in_set [OF d]
    by (auto simp: select_blocks_def block_key_def block_file_def)
  then have "find (\<lambda>r. b_no r = no) (select_blocks k lo hi t) =
      (if lo \<le> no \<and> no \<le> hi then find (\<lambda>b. block_key b = (k, no)) (blocks t) else None)"
    by (intro option_eq_if) simp
  then show ?thesis
    by (simp add: rows_map_def fold_rows [OF dn] blk_def split: option.split)
qed

text \<open>The query for a single block.\<close>

lemma select_block_hd:
  assumes "keys_ok t"
  shows "(case select_blocks k no no t of [] \<Rightarrow> None | r # _ \<Rightarrow> Some (b_data r)) = blk t k no"
proof -
  have "distinct (map block_key (blocks t))" using assms by (simp add: keys_ok_def)
  moreover have "(\<lambda>b. block_file b = k \<and> no \<le> b_no b \<and> b_no b \<le> no) =
      (\<lambda>b. block_key b = (k, no))"
    by (auto simp: fun_eq_iff block_file_def block_key_def)
  ultimately have "filter (\<lambda>b. block_file b = k \<and> no \<le> b_no b \<and> b_no b \<le> no) (blocks t) =
      (case find (\<lambda>b. block_key b = (k, no)) (blocks t) of None \<Rightarrow> [] | Some r \<Rightarrow> [r])"
    by (simp only: filter_key_distinct)
  then show ?thesis
    by (simp add: select_blocks_def blk_def split: option.split)
qed

end
