(* ===== verification/Pg_Runs.thy ===== *)
theory Pg_Runs
  imports Postgres
begin

text \<open>
  Runs of database operations under arbitrary fates. \<open>steady\<close>: a run that succeeds is, but
  for the fates it used up, the run with no faults. \<open>atomic\<close>: whatever fails, the tables
  are left alone or changed as the run without faults changes them. The locale
  \<open>atomic_op\<close> is the contract of an operation with both properties, and carries invariants
  from runs without faults to all runs.
\<close>

definition calm :: "db \<Rightarrow> db" where
  "calm s = s\<lparr>fates := []\<rparr>"

definition steady :: "'a dbm \<Rightarrow> bool" where
  "steady m \<longleftrightarrow> (\<forall>s r s'. m s = (Inr r, s') \<longrightarrow> m (calm s) = (Inr r, calm s'))"

definition atomic :: "'a dbm \<Rightarrow> bool" where
  "atomic m \<longleftrightarrow>
     (\<forall>s. tabs (snd (m s)) = tabs s \<or> tabs (snd (m s)) = tabs (snd (m (calm s))))"

definition quiet :: "'a dbm \<Rightarrow> bool" where
  "quiet m \<longleftrightarrow> (\<forall>s. tabs (snd (m s)) = tabs s)"

lemma calm_simps [simp]:
  "fates (calm s) = []" "tabs (calm s) = tabs s" "calm (calm s) = calm s"
  "pg_now (calm s) = pg_now s" "replica (calm s) = replica s" "stats (calm s) = stats s"
  "elapsed (calm s) = elapsed s" "mono_now (calm s) = mono_now s"
  "freshness_cached (calm s) = freshness_cached s"
  "freshness_checked_at (calm s) = freshness_checked_at s"
  "calm (s\<lparr>tabs := t\<rparr>) = (calm s)\<lparr>tabs := t\<rparr>" "calm (s\<lparr>fates := fs\<rparr>) = calm s"
  "calm (s\<lparr>replica := rp\<rparr>) = (calm s)\<lparr>replica := rp\<rparr>"
  by (simp_all add: calm_def)

lemma calm_tabs_self [simp]: "(calm s)\<lparr>tabs := tabs s\<rparr> = calm s"
  by (simp add: calm_def)

lemma tabs_self [simp]: "s\<lparr>tabs := tabs s\<rparr> = s"
  by simp

lemma calm_id: "fates s = [] \<Longrightarrow> calm s = s"
  by (simp add: calm_def)

lemma record_latency_frame [simp, frame_simps]:
  "tabs (record_latency s) = tabs s" "fates (record_latency s) = fates s"
  "pg_now (record_latency s) = pg_now s" "replica (record_latency s) = replica s"
  "mono_now (record_latency s) = mono_now s"
  "freshness_cached (record_latency s) = freshness_cached s"
  "freshness_checked_at (record_latency s) = freshness_checked_at s"
  by (simp_all add: record_latency_def)

lemma calm_record_latency [simp]: "calm (record_latency s) = record_latency (calm s)"
  by (simp add: calm_def record_latency_def)

section \<open>Statements and sequencing\<close>

lemma run_stmt_calm: "run_stmt step f (calm s) = (fst (run_stmt step f s), calm (snd (run_stmt step f s)))"
  by (simp add: run_stmt_def split: option.split)

lemma pg_exec_calm: "fates s = [] \<Longrightarrow> pg_exec step f s = run_stmt step f s"
  by (simp add: pg_exec_def)

lemma pg_exec_cases:
  obtains (ran) s' where "calm s' = calm s" "pg_exec step f s = run_stmt step f s'"
  | (refused) s' where "calm s' = calm s" "pg_exec step f s = (Inl (Query_failed step), s')"
  | (lost) s' where "calm s' = calm s"
      "pg_exec step f s = (Inl (Query_failed step), snd (run_stmt step f s'))"
proof (cases "fates s")
  case Nil
  then show ?thesis by (intro ran [of s]) (simp_all add: pg_exec_def)
next
  case (Cons fate rest)
  show ?thesis
  proof (cases fate)
    case Served
    with Cons show ?thesis by (intro ran [of "s\<lparr>fates := rest\<rparr>"]) (simp_all add: pg_exec_def)
  next
    case Refused
    with Cons show ?thesis by (intro refused [of "s\<lparr>fates := rest\<rparr>"]) (simp_all add: pg_exec_def)
  next
    case Reply_lost
    with Cons show ?thesis by (intro lost [of "s\<lparr>fates := rest\<rparr>"]) (simp_all add: pg_exec_def)
  qed
qed

lemma calm_eq_tabs: "calm s' = calm s \<Longrightarrow> tabs s' = tabs s"
  by (metis calm_simps(2))

lemma steady_exec: "steady (pg_exec step f)"
  unfolding steady_def
proof (intro allI impI)
  fix s r s'
  assume "pg_exec step f s = (Inr r, s')"
  then obtain s0 where "calm s0 = calm s" and "run_stmt step f s0 = (Inr r, s')"
    by (cases rule: pg_exec_cases [of s step f]) auto
  then show "pg_exec step f (calm s) = (Inr r, calm s')"
    using run_stmt_calm [of step f s0] by (simp add: pg_exec_calm)
qed

lemma atomic_exec: "atomic (pg_exec step f)"
  unfolding atomic_def
proof (intro allI)
  fix s
  have calm: "tabs (snd (pg_exec step f (calm s))) = tabs (snd (run_stmt step f s'))"
    if "calm s' = calm s" for s'
    using run_stmt_calm [of step f s'] that by (simp add: pg_exec_calm)
  show "tabs (snd (pg_exec step f s)) = tabs s \<or>
      tabs (snd (pg_exec step f s)) = tabs (snd (pg_exec step f (calm s)))"
  proof (cases rule: pg_exec_cases [of s step f])
    case (ran s')
    with calm [of s'] show ?thesis by simp
  next
    case (refused s')
    then show ?thesis by (auto dest: calm_eq_tabs)
  next
    case (lost s')
    with calm [of s'] show ?thesis by simp
  qed
qed

lemma steady_exec_now: "steady (pg_exec_now step f)"
  unfolding steady_def pg_exec_now_def
  by (auto intro: steady_exec [unfolded steady_def, rule_format])

lemma atomic_exec_now: "atomic (pg_exec_now step f)"
  unfolding atomic_def pg_exec_now_def
  by (metis atomic_def atomic_exec calm_simps(4))

lemma pg_exec_now_calm: "fates s = [] \<Longrightarrow> pg_exec_now step f s = run_stmt step (f (pg_now s)) s"
  by (simp add: pg_exec_now_def pg_exec_calm)

lemma quiet_exec: "(\<And>t r t'. f t = Some (r, t') \<Longrightarrow> t' = t) \<Longrightarrow> quiet (pg_exec step f)"
  unfolding quiet_def
proof (intro allI)
  fix s
  assume f: "\<And>t r t'. f t = Some (r, t') \<Longrightarrow> t' = t"
  have "tabs (snd (run_stmt step f s')) = tabs s'" for s'
    by (auto simp: run_stmt_def dest: f split: option.split)
  then show "tabs (snd (pg_exec step f s)) = tabs s"
    by (cases rule: pg_exec_cases [of s step f]) (auto dest: calm_eq_tabs)
qed

lemma quiet_read: "quiet (pg_exec step (sql_read g))"
  by (rule quiet_exec) (simp add: sql_read_def)

lemma quiet_opt: "quiet (pg_exec step (sql_opt g))"
  by (rule quiet_exec) (auto simp: sql_opt_def split: list.splits)

lemma steady_return: "steady (db_return x)" and quiet_return: "quiet (db_return x)"
  and steady_fail: "steady (db_fail e)" and quiet_fail: "quiet (db_fail e)"
  and steady_timed: "steady (timed_return x)" and quiet_timed: "quiet (timed_return x)"
  by (auto simp: steady_def quiet_def db_return_def db_fail_def timed_return_def)

lemma db_bind_Inr:
  "db_bind m f s = (Inr y, s'') \<longleftrightarrow> (\<exists>x s'. m s = (Inr x, s') \<and> f x s' = (Inr y, s''))"
  by (auto simp: db_bind_def split: prod.split sum.split)

lemma steady_bind: "steady m \<Longrightarrow> (\<And>x. steady (f x)) \<Longrightarrow> steady (db_bind m f)"
  unfolding steady_def db_bind_Inr by blast

lemma quiet_bind:
  assumes "quiet m" and "\<And>x. quiet (f x)"
  shows "quiet (db_bind m f)"
  unfolding quiet_def
proof (intro allI)
  fix s
  obtain r s' where m: "m s = (r, s')" by (cases "m s")
  with assms(1) have "tabs s' = tabs s" by (auto simp: quiet_def dest: spec [of _ s])
  with m assms(2) show "tabs (snd (db_bind m f s)) = tabs s"
    by (cases r) (auto simp: db_bind_def quiet_def)
qed

lemma steady_for: "(\<And>x. steady (body x)) \<Longrightarrow> steady (db_for body xs)"
  by (induction xs) (auto intro: steady_bind steady_return)

lemma steady_if: "(b \<Longrightarrow> steady m) \<Longrightarrow> (\<not> b \<Longrightarrow> steady m') \<Longrightarrow> steady (if b then m else m')"
  by simp

lemma atomic_quiet: "quiet m \<Longrightarrow> atomic m"
  by (simp add: atomic_def quiet_def)

text \<open>Reads before an atomic step, and quiet steps after it.\<close>

lemma atomic_after_read:
  assumes "steady m" "quiet m" and "\<And>x. atomic (f x)"
  shows "atomic (db_bind m f)"
  unfolding atomic_def
proof (intro allI)
  fix s
  obtain r s' where m: "m s = (r, s')" by (cases "m s")
  with assms(2) have t: "tabs s' = tabs s" by (auto simp: quiet_def dest: spec [of _ s])
  show "tabs (snd (db_bind m f s)) = tabs s \<or>
      tabs (snd (db_bind m f s)) = tabs (snd (db_bind m f (calm s)))"
  proof (cases r)
    case (Inl e)
    with m t show ?thesis by (simp add: db_bind_def)
  next
    case (Inr x)
    with assms(1) m have "m (calm s) = (Inr x, calm s')" by (simp add: steady_def)
    moreover have "tabs (snd (f x s')) = tabs s' \<or>
        tabs (snd (f x s')) = tabs (snd (f x (calm s')))"
      using assms(3) [of x] by (simp add: atomic_def)
    ultimately show ?thesis using Inr m t by (auto simp: db_bind_def)
  qed
qed

lemma atomic_before_quiet:
  assumes "steady m" "atomic m" and "\<And>x. quiet (f x)"
  shows "atomic (db_bind m f)"
  unfolding atomic_def
proof (intro allI)
  fix s
  have "tabs (snd (db_bind m f u)) = tabs (snd (m u))" for u
    using assms(3) by (auto simp: db_bind_def quiet_def split: prod.split sum.split)
  with assms(2) show "tabs (snd (db_bind m f s)) = tabs s \<or>
      tabs (snd (db_bind m f s)) = tabs (snd (db_bind m f (calm s)))"
    by (simp add: atomic_def)
qed

section \<open>Transactions\<close>

lemma begin_txn:
  obtains (failed) e s1 where "pg_exec Begin_txn (sql_read (\<lambda>_. ())) s = (Inl e, s1)" "tabs s1 = tabs s"
  | (begun) s1 where "pg_exec Begin_txn (sql_read (\<lambda>_. ())) s = (Inr (), s1)" "calm s1 = calm s"
      "tabs s1 = tabs s"
proof -
  obtain r s1 where e: "pg_exec Begin_txn (sql_read (\<lambda>_. ())) s = (r, s1)"
    by (cases "pg_exec Begin_txn (sql_read (\<lambda>_. ())) s")
  then have t: "tabs s1 = tabs s"
    using quiet_read [of Begin_txn "\<lambda>_. ()"] by (auto simp: quiet_def dest: spec [of _ s])
  show ?thesis
  proof (cases r)
    case (Inl err)
    with e t show ?thesis by (auto intro: failed)
  next
    case (Inr u)
    with e have "pg_exec Begin_txn (sql_read (\<lambda>_. ())) (calm s) = (Inr u, calm s1)"
      by (intro steady_exec [unfolded steady_def, rule_format]) simp
    then have "calm s1 = calm s" by (simp add: pg_exec_calm run_stmt_def sql_read_def)
    with e t Inr show ?thesis by (auto intro: begun)
  qed
qed

lemma pg_transaction_calm:
  assumes "fates s = []" and "body s = (r, s')" and "fates s' = []"
  shows "pg_transaction body s =
    (case r of Inl e \<Rightarrow> (Inl e, s'\<lparr>tabs := tabs s\<rparr>) | Inr x \<Rightarrow> (Inr x, s'))"
  using assms
  by (simp add: pg_transaction_def pg_exec_calm run_stmt_def sql_read_def split: sum.split)

lemma steady_transaction:
  assumes "steady body"
  shows "steady (pg_transaction body)"
  unfolding steady_def
proof (intro allI impI)
  fix s r s'
  assume run: "pg_transaction body s = (Inr r, s')"
  then obtain s1 s2 where b: "calm s1 = calm s" and body: "body s1 = (Inr r, s2)"
    and s': "calm s' = calm s2"
    by (cases rule: begin_txn [of s])
      (auto simp: pg_transaction_def Let_def split: sum.splits prod.splits list.splits fate.splits)
  have "body (calm s) = (Inr r, calm s2)"
    using assms body b by (metis steady_def)
  then show "pg_transaction body (calm s) = (Inr r, calm s')"
    by (simp add: pg_transaction_calm s')
qed

lemma atomic_transaction:
  assumes "steady body"
  shows "atomic (pg_transaction body)"
  unfolding atomic_def
proof (intro allI)
  fix s
  show "tabs (snd (pg_transaction body s)) = tabs s \<or>
      tabs (snd (pg_transaction body s)) = tabs (snd (pg_transaction body (calm s)))"
  proof (cases rule: begin_txn [of s])
    case (failed e s1)
    then show ?thesis by (simp add: pg_transaction_def)
  next
    case (begun s1)
    obtain r s2 where body: "body s1 = (r, s2)" by (cases "body s1")
    show ?thesis
    proof (cases r)
      case (Inl e)
      with begun body show ?thesis by (simp add: pg_transaction_def)
    next
      case (Inr x)
      with body begun(2) assms have "body (calm s) = (Inr x, calm s2)" by (metis steady_def)
      then have "tabs (snd (pg_transaction body (calm s))) = tabs s2"
        by (simp add: pg_transaction_calm)
      with Inr begun body show ?thesis
        by (auto simp: pg_transaction_def Let_def split: list.split fate.split)
    qed
  qed
qed

lemma atomic_txn_then:
  "steady body \<Longrightarrow> (\<And>x. quiet (f x)) \<Longrightarrow> atomic (db_bind (pg_transaction body) f)"
  by (intro atomic_before_quiet steady_transaction atomic_transaction)

lemmas steady_intros = steady_exec steady_exec_now steady_return steady_fail steady_timed steady_bind steady_for
  steady_if steady_transaction
lemmas quiet_intros = quiet_read quiet_opt quiet_return quiet_fail quiet_timed quiet_bind

section \<open>The contract of an atomic operation\<close>

locale atomic_op =
  fixes op :: "'a dbm"
  assumes op_steady: "steady op"
    and op_atomic: "atomic op"
begin

lemma all_or_nothing:
  "tabs (snd (op s)) = tabs s \<or> tabs (snd (op s)) = tabs (snd (op (calm s)))"
  using op_atomic by (simp add: atomic_def)

lemma success_is_calm: "op s = (Inr r, s') \<Longrightarrow> op (calm s) = (Inr r, calm s')"
  using op_steady by (simp add: steady_def)

lemma success_tabs: "op s = (Inr r, s') \<Longrightarrow> tabs s' = tabs (snd (op (calm s)))"
  by (drule success_is_calm) simp

lemma keeps_invariant:
  assumes "\<And>u. fates u = [] \<Longrightarrow> I (tabs u) \<Longrightarrow> I (tabs (snd (op u)))" and "I (tabs s)"
  shows "I (tabs (snd (op s)))"
  using all_or_nothing [of s] assms(1) [of "calm s"] assms(2) by auto

end

text \<open>An operation that only reads.\<close>

locale read_op =
  fixes op :: "'a dbm"
  assumes read_steady: "steady op"
    and read_quiet: "quiet op"
begin

lemma tabs_same: "tabs (snd (op s)) = tabs s"
  using read_quiet by (simp add: quiet_def)

lemma result_of_calm:
  assumes "\<And>u. fates u = [] \<Longrightarrow> tabs u = tabs s \<Longrightarrow> fst (op u) = r" and "op s = (Inr x, s')"
  shows "r = Inr x"
proof -
  from read_steady assms(2) have "op (calm s) = (Inr x, calm s')" by (simp add: steady_def)
  then show ?thesis using assms(1) [of "calm s"] by simp
qed

end

sublocale read_op \<subseteq> atomic_op
  by unfold_locales (auto intro: read_steady atomic_quiet read_quiet)

end
