(* ===== verification/Db_Reads.thy ===== *)
theory Db_Reads
  imports Table_Lookup Pg_Runs
begin

text \<open>
  The reading half of \<open>struct Db\<close> in \<open>src/db.rs\<close>: rows to metadata, the freshness check
  of the standby with its cache, the routing of reads, and the block reader. On runs
  without faults the reader is shown to return the file's bytes.
\<close>

section \<open>Metadata\<close>

datatype kind = File | Dir

record file_meta =
  m_name :: string
  m_kind :: kind
  m_size :: nat
  m_mtime :: int

definition row_to_meta :: "entry \<Rightarrow> db_error + file_meta" where
  "row_to_meta r =
     (case (if e_kind r = ''file'' then Inr File
            else if e_kind r = ''dir'' then Inr Dir
            else Inl (Unexpected_kind (e_kind r))) of
        Inl e \<Rightarrow> Inl e
      | Inr k \<Rightarrow>
          (if e_size r < 0 then Inl (Negative_size (e_size r))
           else Inr \<lparr>m_name = e_name r, m_kind = k, m_size = nat (e_size r),
                     m_mtime = e_mtime r\<rparr>))"

text \<open>\<open>row.as_ref().map(row_to_meta).transpose()\<close>\<close>

definition meta_opt :: "entry option \<Rightarrow> db_error + file_meta option" where
  "meta_opt row =
     (case row of
        None \<Rightarrow> Inr None
      | Some r \<Rightarrow> (case row_to_meta r of Inl e \<Rightarrow> Inl e | Inr m \<Rightarrow> Inr (Some m)))"

text \<open>\<open>rows.iter().map(row_to_meta).collect()\<close>\<close>

fun meta_all :: "entry list \<Rightarrow> db_error + file_meta list" where
  "meta_all [] = Inr []"
| "meta_all (r # rs) =
     (case row_to_meta r of
        Inl e \<Rightarrow> Inl e
      | Inr m \<Rightarrow> (case meta_all rs of Inl e \<Rightarrow> Inl e | Inr ms \<Rightarrow> Inr (m # ms)))"

section \<open>Reads of the primary\<close>

definition getattr_primary :: "string \<Rightarrow> string \<Rightarrow> file_meta option dbm" where
  "getattr_primary parent name =
     db_bind (pg_exec Get_attributes (sql_opt (select_entry (parent, name))))
       (\<lambda>row s. (meta_opt row, record_latency s))"

definition list_primary :: "string \<Rightarrow> file_meta list dbm" where
  "list_primary parent =
     db_bind (pg_exec List_children (sql_read (select_children parent)))
       (\<lambda>rows s. (meta_all rows, record_latency s))"

section \<open>The standby\<close>

definition FRESHNESS_TTL_MS :: nat where
  "FRESHNESS_TTL_MS = 500"

definition replica_fresh :: "db \<Rightarrow> bool" where
  "replica_fresh s =
     (case replica s of
        None \<Rightarrow> False
      | Some sb \<Rightarrow>
          (case in_recovery sb of
             Some False \<Rightarrow> True
           | None \<Rightarrow> False
           | Some True \<Rightarrow>
               (case (primary_lsn sb, replay_lsn sb) of
                  (Some p, Some (Some r)) \<Rightarrow> p \<le> r
                | _ \<Rightarrow> False)))"

text \<open>\<open>now.saturating_sub(last_check)\<close> is the subtraction of \<^typ>\<open>nat\<close>.\<close>

definition replica_fresh_cached :: "db \<Rightarrow> bool \<times> db" where
  "replica_fresh_cached s =
     (let now = mono_now s;
          fresh = replica_fresh s;
          checked = (fresh, s\<lparr>freshness_cached := fresh, freshness_checked_at := Some now\<rparr>)
      in case freshness_checked_at s of
           Some last_check \<Rightarrow>
             (if now - last_check < FRESHNESS_TTL_MS then (freshness_cached s, s) else checked)
         | None \<Rightarrow> checked)"

definition replica_state :: "db \<Rightarrow> string \<times> db" where
  "replica_state s =
     (if replica s = None then (''none'', s)
      else case replica_fresh_cached s of
        (True, s') \<Rightarrow> (''fresh'', s')
      | (False, s') \<Rightarrow> (''stale or unreachable'', s'))"

definition count_replica_read :: "db \<Rightarrow> db" where
  "count_replica_read s =
     s\<lparr>stats := (stats s)\<lparr>replica_read_count := bump (replica_read_count (stats s))\<rparr>\<rparr>"

definition record_replica_fallback_if_configured :: "db \<Rightarrow> db" where
  "record_replica_fallback_if_configured s =
     (if replica s = None then s
      else s\<lparr>stats := (stats s)\<lparr>replica_fallback_count := bump (replica_fallback_count (stats s)),
                                replica_fallback_warned := True\<rparr>\<rparr>)"

text \<open>The test \<open>self.replica.is_some() && self.replica_fresh_cached()\<close>: the standby to read
  from, if any.\<close>

definition choose_standby :: "db \<Rightarrow> standby option \<times> db" where
  "choose_standby s =
     (case replica s of
        None \<Rightarrow> (None, s)
      | Some sb \<Rightarrow>
          (case replica_fresh_cached s of
             (fresh, s') \<Rightarrow> (if fresh then Some sb else None, s')))"

definition getattr :: "string \<Rightarrow> string \<Rightarrow> file_meta option dbm" where
  "getattr parent name s =
     (case choose_standby s of
        (Some sb, s') \<Rightarrow>
          db_bind (standby_query Get_attributes (sql_opt (select_entry (parent, name))) sb)
            (\<lambda>row s. (meta_opt row, record_latency s)) (count_replica_read s')
      | (None, s') \<Rightarrow>
          getattr_primary parent name (record_replica_fallback_if_configured s'))"

definition list_dir :: "string \<Rightarrow> file_meta list dbm" where
  "list_dir parent s =
     (case choose_standby s of
        (Some sb, s') \<Rightarrow>
          db_bind (standby_query List_children (sql_read (select_children parent)) sb)
            (\<lambda>rows s. (meta_all rows, record_latency s)) (count_replica_read s')
      | (None, s') \<Rightarrow> list_primary parent (record_replica_fallback_if_configured s'))"

section \<open>Reading a range\<close>

definition read_range_primary :: "string \<Rightarrow> string \<Rightarrow> nat \<Rightarrow> nat \<Rightarrow> bytes option dbm" where
  "read_range_primary parent name offset len =
     db_bind (getattr_primary parent name) (\<lambda>found.
       case found of
         None \<Rightarrow> db_return None
       | Some meta \<Rightarrow>
           if m_kind meta \<noteq> File then db_return None
           else if m_size meta \<le> offset then db_return (Some [])
           else
             let actual_len = min len (m_size meta - offset) in
             if actual_len = 0 then db_return (Some [])
             else
               let start_block = as_i32 (offset div BLOCK_SIZE);
                   end_block = as_i32 ((offset + actual_len - 1) div BLOCK_SIZE)
               in db_bind
                    (pg_exec Read_blocks
                      (sql_read (select_blocks (parent, name) start_block end_block)))
                    (\<lambda>rows.
                      case read_loop (rows_map rows) (offset + actual_len) offset [] of
                        None \<Rightarrow> db_fail Panic
                      | Some result \<Rightarrow> timed_return (Some result)))"

definition read_range :: "string \<Rightarrow> string \<Rightarrow> nat \<Rightarrow> nat \<Rightarrow> bytes option dbm" where
  "read_range parent name offset len s =
     read_range_primary parent name offset len (record_replica_fallback_if_configured s)"

definition read_whole :: "string \<Rightarrow> string \<Rightarrow> bytes option dbm" where
  "read_whole parent name = read_range parent name 0 (2 ^ 64 - 1)"

definition read_whole_primary :: "string \<Rightarrow> string \<Rightarrow> bytes option dbm" where
  "read_whole_primary parent name = read_range_primary parent name 0 (2 ^ 64 - 1)"

section \<open>The primary's reads are read operations\<close>

lemma steady_result: "steady (\<lambda>s. (r, record_latency s))"
  and quiet_result: "quiet (\<lambda>s. (r, record_latency s))"
  by (simp_all add: steady_def quiet_def)

lemma steady_getattr_primary: "steady (getattr_primary parent name)"
  unfolding getattr_primary_def by (intro steady_bind steady_exec steady_result)

lemma quiet_getattr_primary: "quiet (getattr_primary parent name)"
  unfolding getattr_primary_def by (intro quiet_bind quiet_opt quiet_result)

lemma steady_list_primary: "steady (list_primary parent)"
  unfolding list_primary_def by (intro steady_bind steady_exec steady_result)

lemma quiet_list_primary: "quiet (list_primary parent)"
  unfolding list_primary_def by (intro quiet_bind quiet_read quiet_result)

lemma steady_read_range_primary: "steady (read_range_primary parent name offset len)"
  unfolding read_range_primary_def Let_def
  by (auto intro!: steady_bind steady_getattr_primary steady_exec steady_return steady_fail
      steady_timed split: option.split)

lemma quiet_read_range_primary: "quiet (read_range_primary parent name offset len)"
  unfolding read_range_primary_def Let_def
  by (auto intro!: quiet_bind quiet_getattr_primary quiet_read quiet_return quiet_fail
      quiet_timed split: option.split)

interpretation ga: read_op "getattr_primary parent name" for parent name
  by unfold_locales (rule steady_getattr_primary quiet_getattr_primary)+

interpretation lp: read_op "list_primary parent" for parent
  by unfold_locales (rule steady_list_primary quiet_list_primary)+

interpretation rr: read_op "read_range_primary parent name offset len" for parent name offset len
  by unfold_locales (rule steady_read_range_primary quiet_read_range_primary)+

section \<open>What the reads return\<close>

text \<open>The tables the daemon writes: keyed rows of the two kinds with sizes in range.\<close>

definition rows_ok :: "tables \<Rightarrow> bool" where
  "rows_ok t \<longleftrightarrow> keys_ok t \<and>
     (\<forall>r \<in> set (entries t). (e_kind r = ''file'' \<or> e_kind r = ''dir'') \<and> 0 \<le> e_size r)"

definition is_file :: "tables \<Rightarrow> key \<Rightarrow> nat \<Rightarrow> bool" where
  "is_file t k n \<longleftrightarrow> (\<exists>r. ent t k = Some r \<and> e_kind r = ''file'' \<and> e_size r = int n)"

definition is_dir :: "tables \<Rightarrow> key \<Rightarrow> bool" where
  "is_dir t k \<longleftrightarrow> (\<exists>r. ent t k = Some r \<and> e_kind r = ''dir'')"

text \<open>The contents of a file: the abstract view the block operations refine.\<close>

definition file_bytes :: "tables \<Rightarrow> key \<Rightarrow> nat \<Rightarrow> bytes" where
  "file_bytes t k n = map (byte_at t k) [0..<n]"

lemma length_file_bytes [simp]: "length (file_bytes t k n) = n"
  by (simp add: file_bytes_def)

lemma nth_file_bytes [simp]: "i < n \<Longrightarrow> file_bytes t k n ! i = byte_at t k i"
  by (simp add: file_bytes_def)

lemma take_drop_file_bytes:
  "take len (drop offset (file_bytes t k n)) = map (byte_at t k) [offset..<min (offset + len) n]"
  by (cases "offset + len \<le> n") (auto simp: file_bytes_def take_map drop_map min_def)

lemma row_to_meta_ok:
  "0 \<le> e_size r \<Longrightarrow> e_kind r = ''file'' \<or> e_kind r = ''dir'' \<Longrightarrow>
    row_to_meta r = Inr \<lparr>m_name = e_name r, m_kind = (if e_kind r = ''file'' then File else Dir),
      m_size = nat (e_size r), m_mtime = e_mtime r\<rparr>"
  by (auto simp: row_to_meta_def)

lemma getattr_primary_calm:
  assumes "fates s = []" and "keys_ok (tabs s)"
  shows "getattr_primary parent name s =
    (meta_opt (ent (tabs s) (parent, name)), record_latency s)"
  using assms
  by (simp add: getattr_primary_def db_bind_def pg_exec_calm run_stmt_def sql_opt_entry)

lemma list_primary_calm:
  "fates s = [] \<Longrightarrow>
    list_primary parent s = (meta_all (select_children parent (tabs s)), record_latency s)"
  by (simp add: list_primary_def db_bind_def pg_exec_calm run_stmt_def sql_read_def)

lemma meta_opt_file:
  "is_file t k n \<Longrightarrow> \<exists>m. meta_opt (ent t k) = Inr (Some m) \<and> m_kind m = File \<and> m_size m = n"
  by (auto simp: is_file_def meta_opt_def row_to_meta_ok)

lemma meta_opt_dir:
  "rows_ok t \<Longrightarrow> is_dir t k \<Longrightarrow> \<exists>m. meta_opt (ent t k) = Inr (Some m) \<and> m_kind m = Dir"
proof -
  assume ok: "rows_ok t" and "is_dir t k"
  then obtain r where r: "ent t k = Some r" "e_kind r = ''dir''" by (auto simp: is_dir_def)
  with ok have "0 \<le> e_size r" by (auto simp: rows_ok_def dest: ent_in_set)
  with r show ?thesis by (simp add: meta_opt_def row_to_meta_ok)
qed

lemma meta_opt_None: "ent t k = None \<Longrightarrow> meta_opt (ent t k) = Inr None"
  by (simp add: meta_opt_def)

lemma read_range_primary_calm:
  assumes "fates s = []" and "keys_ok (tabs s)" and isf: "is_file (tabs s) (parent, name) n"
    and "n \<le> MAX_BYTES"
  shows "fst (read_range_primary parent name offset len s) =
    Inr (Some (take len (drop offset (file_bytes (tabs s) (parent, name) n))))"
proof -
  let ?k = "(parent, name)"
  obtain m where m: "meta_opt (ent (tabs s) ?k) = Inr (Some m)" "m_kind m = File" "m_size m = n"
    using meta_opt_file [OF isf] by blast
  note run = read_range_primary_def db_bind_def getattr_primary_calm [OF assms(1,2)] m
    db_return_def timed_return_def Let_def
  show ?thesis
  proof (cases "n \<le> offset \<or> len = 0")
    case True
    then show ?thesis by (auto simp: run)
  next
    case False
    define stop where "stop = offset + min len (n - offset)"
    have stop: "offset < stop" "stop \<le> n" "stop = min (offset + len) n"
      using False by (auto simp: stop_def)
    let ?lo = "as_i32 (offset div BLOCK_SIZE)" and ?hi = "as_i32 ((stop - 1) div BLOCK_SIZE)"
    have i32: "?lo = int (offset div BLOCK_SIZE)" "?hi = int ((stop - 1) div BLOCK_SIZE)"
      using stop assms(4) div_MAX_BYTES [of offset] div_MAX_BYTES [of "stop - 1"]
      by (simp_all add: as_i32_small)
    have "stored_byte (rows_map (select_blocks ?k ?lo ?hi (tabs s))) x = byte_at (tabs s) ?k x"
      if "offset \<le> x" "x < stop" for x
    proof -
      have "x \<le> stop - 1" using that by linarith
      then have "offset div BLOCK_SIZE \<le> x div BLOCK_SIZE"
        and "x div BLOCK_SIZE \<le> (stop - 1) div BLOCK_SIZE"
        using that(1) by (simp_all only: div_le_mono)
      then show ?thesis
        by (simp only: byte_at_def stored_byte_def rows_map_select [OF assms(2)] i32
            of_nat_le_iff simp_thms if_True)
    qed
    then have "read_loop (rows_map (select_blocks ?k ?lo ?hi (tabs s))) stop offset [] =
        Some (map (byte_at (tabs s) ?k) [offset..<stop])"
      using read_loop_bytes [of stop offset] stop assms(4) by simp
    then show ?thesis
      using False assms(1)
      by (simp add: run pg_exec_calm run_stmt_def sql_read_def stop_def [symmetric]
          take_drop_file_bytes stop(3) [symmetric])
        (auto simp: min_def split: if_splits)
  qed
qed

end
