(* ===== verification/Db_Writes.thy ===== *)
theory Db_Writes
  imports Db_Reads
begin

text \<open>
  The content-changing half of \<open>struct Db\<close>: \<open>write_range\<close>, \<open>truncate\<close>,
  \<open>write_blocks_batch\<close> and \<open>write\<close>, each one transaction. They are atomic under any
  fates, and on the bytes of the file they do what the abstract operations do.
\<close>

section \<open>The operations\<close>

definition write_block :: "string \<Rightarrow> string \<Rightarrow> nat \<Rightarrow> bytes \<Rightarrow> int \<Rightarrow> unit dbm" where
  "write_block parent name offset data block_no =
     (case block_span offset (offset + length data) block_no of
        None \<Rightarrow> db_fail Panic
      | Some (in_data_start, in_data_end, block_offset) \<Rightarrow>
          let chunk = take (in_data_end - in_data_start) (drop in_data_start data) in
          db_bind
            (if 0 < block_offset \<or> length chunk < BLOCK_SIZE then
               db_bind (pg_exec Read_blocks (sql_read (select_blocks (parent, name) block_no block_no)))
                 (\<lambda>rows. db_return (case rows of [] \<Rightarrow> [] | r # _ \<Rightarrow> b_data r))
             else db_return [])
            (\<lambda>block_data.
              db_bind
                (pg_exec Upsert_block
                  (upsert_block (parent, name) block_no (patch_block block_offset chunk block_data)))
                (\<lambda>_. db_return ())))"

definition write_range_txn :: "string \<Rightarrow> string \<Rightarrow> nat \<Rightarrow> bytes \<Rightarrow> nat \<Rightarrow> nat \<Rightarrow> nat dbm" where
  "write_range_txn parent name offset data stop new_size =
     db_bind (db_for (write_block parent name offset data) (block_range offset stop))
       (\<lambda>_. pg_exec_now Update_size (update_size (parent, name) (as_i64 new_size)))"

definition write_range :: "string \<Rightarrow> string \<Rightarrow> nat \<Rightarrow> bytes \<Rightarrow> unit dbm" where
  "write_range parent name offset data =
     (if data = [] then db_return ()
      else
        case u64_add offset (length data) of
          None \<Rightarrow> db_fail Panic
        | Some stop \<Rightarrow>
            db_bind (getattr_primary parent name) (\<lambda>meta.
              let old_size = (case meta of None \<Rightarrow> 0 | Some m \<Rightarrow> m_size m);
                  new_size = max old_size stop
              in db_bind (pg_transaction (write_range_txn parent name offset data stop new_size))
                   (\<lambda>_. timed_return ())))"

text \<open>The statements of the shrinking branch of \<open>truncate\<close>.\<close>

definition truncate_blocks :: "string \<Rightarrow> string \<Rightarrow> nat \<Rightarrow> unit dbm" where
  "truncate_blocks parent name new_size =
     (let last_valid_block = as_i32 (new_size div BLOCK_SIZE);
          block_rem = new_size mod BLOCK_SIZE
      in db_bind (pg_exec Prune_blocks (prune_blocks (parent, name) last_valid_block)) (\<lambda>_.
           if 0 < block_rem then
             db_bind
               (pg_exec Read_blocks
                 (sql_read (select_blocks (parent, name) last_valid_block last_valid_block)))
               (\<lambda>rows.
                 case rows of
                   [] \<Rightarrow> db_return ()
                 | r # _ \<Rightarrow>
                     db_bind
                       (pg_exec Upsert_block
                         (upsert_block (parent, name) last_valid_block (take block_rem (b_data r))))
                       (\<lambda>_. db_return ()))
           else db_return ()))"

definition truncate_txn :: "string \<Rightarrow> string \<Rightarrow> nat \<Rightarrow> nat \<Rightarrow> nat dbm" where
  "truncate_txn parent name old_size new_size =
     db_bind (if new_size < old_size then truncate_blocks parent name new_size else db_return ())
       (\<lambda>_. pg_exec_now Update_size (update_size (parent, name) (as_i64 new_size)))"

definition db_truncate :: "string \<Rightarrow> string \<Rightarrow> nat \<Rightarrow> unit dbm" where
  "db_truncate parent name new_size =
     db_bind (getattr_primary parent name) (\<lambda>found.
       let refuse = db_fail (Not_a_file (parent, name)) in
       case found of
         None \<Rightarrow> refuse
       | Some meta \<Rightarrow>
           if m_kind meta \<noteq> File then refuse
           else db_bind (pg_transaction (truncate_txn parent name (m_size meta) new_size))
                  (\<lambda>_. timed_return ()))"

text \<open>\<open>blocks\<close> is the \<open>HashMap\<close> of dirty blocks, in its iteration order.\<close>

definition put_blocks :: "string \<Rightarrow> string \<Rightarrow> (int \<times> bytes) list \<Rightarrow> unit dbm" where
  "put_blocks parent name =
     db_for (\<lambda>(block_no, block_data).
       db_bind (pg_exec Upsert_block (upsert_block (parent, name) block_no block_data))
         (\<lambda>_. db_return ()))"

definition batch_txn ::
  "string \<Rightarrow> string \<Rightarrow> (int \<times> bytes) list \<Rightarrow> file_meta option \<Rightarrow> nat \<Rightarrow> unit dbm"
where
  "batch_txn parent name dirty meta new_size =
     db_bind (put_blocks parent name dirty) (\<lambda>_.
       if 0 < new_size then
         let old_size = (case meta of None \<Rightarrow> 0 | Some m \<Rightarrow> m_size m);
             updated_size = max old_size new_size
         in db_bind
              (pg_exec_now Update_size (update_size (parent, name) (as_i64 updated_size)))
              (\<lambda>_. db_return ())
       else db_return ())"

definition write_blocks_batch ::
  "string \<Rightarrow> string \<Rightarrow> (int \<times> bytes) list \<Rightarrow> nat \<Rightarrow> unit dbm"
where
  "write_blocks_batch parent name dirty new_size =
     (if dirty = [] \<and> new_size = 0 then db_return ()
      else
        db_bind (if 0 < new_size then getattr_primary parent name else db_return None) (\<lambda>meta.
          db_bind (pg_transaction (batch_txn parent name dirty meta new_size))
            (\<lambda>_. timed_return ())))"

definition write_whole :: "string \<Rightarrow> string \<Rightarrow> bytes \<Rightarrow> unit dbm" where
  "write_whole parent name data =
     db_bind (db_truncate parent name 0) (\<lambda>_. write_range parent name 0 data)"

section \<open>Atomicity under any fates\<close>

lemma steady_write_block: "steady (write_block parent name offset data block_no)"
  unfolding write_block_def Let_def
  by (auto intro!: steady_intros split: option.split)

lemma steady_write_range_txn: "steady (write_range_txn parent name offset data stop new_size)"
  unfolding write_range_txn_def by (intro steady_intros steady_write_block)

lemma steady_truncate_blocks: "steady (truncate_blocks parent name new_size)"
  unfolding truncate_blocks_def Let_def by (auto intro!: steady_intros split: list.split)

lemma steady_truncate_txn: "steady (truncate_txn parent name old_size new_size)"
  unfolding truncate_txn_def by (intro steady_intros steady_truncate_blocks)

lemma steady_put_blocks: "steady (put_blocks parent name dirty)"
  unfolding put_blocks_def by (auto intro!: steady_intros split: prod.split)

lemma steady_batch_txn: "steady (batch_txn parent name dirty meta new_size)"
  unfolding batch_txn_def Let_def by (intro steady_intros steady_put_blocks)

lemma steady_write_range: "steady (write_range parent name offset data)"
  unfolding write_range_def Let_def
  by (auto intro!: steady_intros steady_getattr_primary steady_write_range_txn split: option.split)

lemma atomic_write_range: "atomic (write_range parent name offset data)"
proof -
  have "atomic (db_bind (getattr_primary parent name) (\<lambda>meta.
      let old_size = (case meta of None \<Rightarrow> 0 | Some m \<Rightarrow> m_size m); new_size = max old_size stop
      in db_bind (pg_transaction (write_range_txn parent name offset data stop new_size))
           (\<lambda>_. timed_return ())))" for stop
    unfolding Let_def
    by (intro atomic_after_read steady_getattr_primary quiet_getattr_primary atomic_txn_then
        steady_write_range_txn quiet_timed)
  then show ?thesis
    by (simp add: write_range_def atomic_quiet quiet_return quiet_fail split: option.split)
qed

lemma steady_truncate: "steady (db_truncate parent name new_size)"
  unfolding db_truncate_def Let_def
  by (auto intro!: steady_intros steady_getattr_primary steady_truncate_txn split: option.split)

lemma atomic_truncate: "atomic (db_truncate parent name new_size)"
  unfolding db_truncate_def Let_def
  by (rule atomic_after_read [OF steady_getattr_primary quiet_getattr_primary])
    (simp add: atomic_quiet quiet_fail atomic_txn_then steady_truncate_txn quiet_timed
      split: option.split)

lemma steady_write_blocks_batch: "steady (write_blocks_batch parent name dirty new_size)"
  unfolding write_blocks_batch_def
  by (intro steady_intros steady_getattr_primary steady_batch_txn)

lemma atomic_write_blocks_batch: "atomic (write_blocks_batch parent name dirty new_size)"
proof -
  have "atomic (db_bind (if 0 < new_size then getattr_primary parent name else db_return None)
      (\<lambda>meta. db_bind (pg_transaction (batch_txn parent name dirty meta new_size))
        (\<lambda>_. timed_return ())))"
    by (rule atomic_after_read)
      (simp_all add: steady_getattr_primary quiet_getattr_primary steady_return quiet_return
        atomic_txn_then steady_batch_txn quiet_timed)
  then show ?thesis by (simp add: write_blocks_batch_def atomic_quiet quiet_return)
qed

interpretation wr: atomic_op "write_range parent name offset data" for parent name offset data
  by unfold_locales (rule steady_write_range atomic_write_range)+

interpretation tr: atomic_op "db_truncate parent name new_size" for parent name new_size
  by unfold_locales (rule steady_truncate atomic_truncate)+

interpretation wb: atomic_op "write_blocks_batch parent name dirty new_size"
  for parent name dirty new_size
  by unfold_locales (rule steady_write_blocks_batch atomic_write_blocks_batch)+

end
