(* ===== verification/File_Contents.thy ===== *)
theory File_Contents
  imports Db_Writes
begin

text \<open>
  What the writing operations of \<open>Db_Writes\<close> do to the bytes of a file on a run without
  faults: \<open>write_range\<close>, \<open>truncate\<close> and \<open>write_blocks_batch\<close> against the operations
  on a byte string, and what they leave alone.
\<close>

section \<open>The abstract file\<close>

definition spec_read :: "nat \<Rightarrow> nat \<Rightarrow> bytes \<Rightarrow> bytes" where
  "spec_read offset len bs = take len (drop offset bs)"

definition spec_write :: "nat \<Rightarrow> bytes \<Rightarrow> bytes \<Rightarrow> bytes" where
  "spec_write offset data bs = splice offset data (resize0 (offset + length data) bs)"

definition spec_truncate :: "nat \<Rightarrow> bytes \<Rightarrow> bytes" where
  "spec_truncate n bs = take n (resize0 n bs)"

lemma length_spec_write [simp]:
  "length (spec_write offset data bs) = max (length bs) (offset + length data)"
  by (simp add: spec_write_def length_splice max.commute)

lemma byte0_spec_write:
  "byte0 (spec_write offset data bs) x =
    (if offset \<le> x \<and> x < offset + length data then data ! (x - offset) else byte0 bs x)"
  by (simp add: spec_write_def byte0_splice)

lemma length_spec_truncate [simp]: "length (spec_truncate n bs) = n"
  by (simp add: spec_truncate_def)

lemma byte0_spec_truncate: "byte0 (spec_truncate n bs) x = (if x < n then byte0 bs x else 0)"
  by (simp add: spec_truncate_def byte0_take)

lemma bytes_eqI:
  "length xs = length ys \<Longrightarrow> (\<And>x. x < length ys \<Longrightarrow> byte0 xs x = byte0 ys x) \<Longrightarrow> xs = ys"
  by (rule nth_equalityI) (auto simp: byte0_def)

lemma byte0_file_bytes: "byte0 (file_bytes t k n) x = (if x < n then byte_at t k x else 0)"
  by (simp add: byte0_def)

text \<open>No stored byte past the size of the file is other than zero.\<close>

definition tail_zero :: "tables \<Rightarrow> key \<Rightarrow> nat \<Rightarrow> bool" where
  "tail_zero t k n \<longleftrightarrow> (\<forall>x \<ge> n. byte_at t k x = 0)"

text \<open>Everything but the file under a key is the same.\<close>

definition others_same :: "key \<Rightarrow> tables \<Rightarrow> tables \<Rightarrow> bool" where
  "others_same k t t' \<longleftrightarrow> (\<forall>k'. k' \<noteq> k \<longrightarrow> ent t' k' = ent t k' \<and> blk t' k' = blk t k')"

lemma others_same_refl [simp]: "others_same k t t"
  by (simp add: others_same_def)

lemma others_same_trans: "others_same k t u \<Longrightarrow> others_same k u v \<Longrightarrow> others_same k t v"
  by (simp add: others_same_def)

section \<open>Statements in turn\<close>

lemma upsert_block_runs: "\<exists>t'. upsert_block k no d t = Some (1, t')"
  by (simp add: upsert_block_def)

text \<open>The tables after a statement.\<close>

definition after :: "'a stmt \<Rightarrow> tables \<Rightarrow> tables" where
  "after f t = (case f t of None \<Rightarrow> t | Some (_, t') \<Rightarrow> t')"

definition put :: "key \<Rightarrow> int \<Rightarrow> bytes \<Rightarrow> tables \<Rightarrow> tables" where
  "put k no d t = after (upsert_block k no d) t"

lemma upsert_block_put: "upsert_block k no d t = Some (1, put k no d t)"
  using upsert_block_runs [of k no d t] by (auto simp: put_def after_def)

lemma put_simps [sql_simps]:
  "entries (put k no d t) = entries t"
  "ent (put k no d t) = ent t"
  "blk (put k no d t) k' no' = (if k' = k \<and> no' = no then Some d else blk t k' no')"
  using blk_upsert_block [OF upsert_block_put]
  by (simp_all add: put_def after_def upsert_block_def ent_def fun_eq_iff)

lemma keys_ok_put [simp]: "keys_ok t \<Longrightarrow> keys_ok (put k no d t)"
  by (rule keys_ok_upsert_block [OF _ upsert_block_put])

lemma byte_at_put:
  "byte_at (put k no d t) k x =
    (if int (x div BLOCK_SIZE) = no then byte0 d (x mod BLOCK_SIZE) else byte_at t k x)"
  by (simp add: byte_at_def stored_byte_def put_simps)

lemma others_same_put [simp]: "others_same k t (put k no d t)"
  by (simp add: others_same_def put_simps fun_eq_iff)

lemma exec_upsert_calm:
  "fates s = [] \<Longrightarrow>
    pg_exec step (upsert_block k no d) s = (Inr 1, s\<lparr>tabs := put k no d (tabs s)\<rparr>)"
  by (simp add: pg_exec_calm run_stmt_def upsert_block_put)

lemma exec_read_calm: "fates s = [] \<Longrightarrow> pg_exec step (sql_read g) s = (Inr (g (tabs s)), s)"
  by (simp add: pg_exec_calm run_stmt_def sql_read_def)

definition set_size :: "key \<Rightarrow> int \<Rightarrow> int \<Rightarrow> tables \<Rightarrow> tables" where
  "set_size k sz now t = after (update_size k sz now) t"

lemma update_size_set_size:
  "update_size k sz now t = Some (length (select_entry k t), set_size k sz now t)"
  by (simp add: update_size_def set_size_def after_def)

lemma set_size_simps [sql_simps]:
  "ent (set_size k sz now t) k' =
    map_option (\<lambda>r. if k' = k then r\<lparr>e_size := sz, e_mtime := now\<rparr> else r) (ent t k')"
  "blk (set_size k sz now t) = blk t" "blocks (set_size k sz now t) = blocks t"
  using ent_update_size [OF update_size_set_size]
  by (simp_all add: set_size_def after_def update_size_def blk_def fun_eq_iff)

lemma keys_ok_set_size [simp]: "keys_ok t \<Longrightarrow> keys_ok (set_size k sz now t)"
  by (rule keys_ok_update_size [OF _ update_size_set_size])

lemma byte_at_set_size [simp]: "byte_at (set_size k sz now t) = byte_at t"
  by (simp add: byte_at_def set_size_simps fun_eq_iff)

lemma others_same_set_size [simp]: "others_same k t (set_size k sz now t)"
  by (auto simp: others_same_def set_size_simps option.map_ident)

lemma is_file_set_size:
  "is_file t k n \<Longrightarrow> is_file (set_size k (int m) now t) k m"
  by (auto simp: is_file_def set_size_simps)

lemma exec_set_size_calm:
  "fates s = [] \<Longrightarrow> pg_exec_now step (update_size k sz) s =
    (Inr (length (select_entry k (tabs s))), s\<lparr>tabs := set_size k sz (pg_now s) (tabs s)\<rparr>)"
  by (simp add: pg_exec_now_calm run_stmt_def update_size_set_size)

lemma db_for_fold:
  assumes "fates s = []" and "I (tabs s)"
    and "\<And>x s. x \<in> set xs \<Longrightarrow> fates s = [] \<Longrightarrow> I (tabs s) \<Longrightarrow>
      body x s = (Inr (), s\<lparr>tabs := f x (tabs s)\<rparr>) \<and> I (f x (tabs s))"
  shows "db_for body xs s = (Inr (), s\<lparr>tabs := fold f xs (tabs s)\<rparr>)"
  using assms
proof (induction xs arbitrary: s)
  case Nil
  then show ?case by (simp add: db_return_def)
next
  case (Cons x xs)
  from Cons.prems have "body x s = (Inr (), s\<lparr>tabs := f x (tabs s)\<rparr>)" "I (f x (tabs s))" by simp_all
  with Cons.IH [of "s\<lparr>tabs := f x (tabs s)\<rparr>"] Cons.prems show ?case by (simp add: db_bind_def)
qed

section \<open>Writing a range\<close>

definition stored :: "tables \<Rightarrow> key \<Rightarrow> int \<Rightarrow> bytes" where
  "stored t k no = (case blk t k no of None \<Rightarrow> [] | Some d \<Rightarrow> d)"

lemma rows_stored:
  "keys_ok t \<Longrightarrow>
    (case select_blocks k no no t of [] \<Rightarrow> [] | r # _ \<Rightarrow> b_data r) = stored t k no"
  using select_block_hd [of t k no] by (auto simp: stored_def split: list.splits option.splits)

lemma byte0_stored: "byte0 (stored t k (int b)) (x mod BLOCK_SIZE) = byte_at t k x"
  if "x div BLOCK_SIZE = b"
  using that by (simp add: stored_def byte_at_def stored_byte_def split: option.split)

text \<open>The tables after \<open>write_block\<close>.\<close>

definition block_written :: "key \<Rightarrow> nat \<Rightarrow> bytes \<Rightarrow> int \<Rightarrow> tables \<Rightarrow> tables" where
  "block_written k offset data no t =
     (case block_span offset (offset + length data) no of
        None \<Rightarrow> t
      | Some (a, e, bo) \<Rightarrow>
          put k no (patch_block bo (take (e - a) (drop a data))
            (if 0 < bo \<or> length (take (e - a) (drop a data)) < BLOCK_SIZE
             then stored t k no else [])) t)"

lemma write_block_calm:
  assumes "fates s = []" and "keys_ok (tabs s)"
    and "block_span offset (offset + length data) no \<noteq> None"
  shows "write_block parent name offset data no s =
    (Inr (), s\<lparr>tabs := block_written (parent, name) offset data no (tabs s)\<rparr>)"
proof -
  obtain a e bo where sp: "block_span offset (offset + length data) no = Some (a, e, bo)"
    using assms(3) by auto
  show ?thesis
    using assms(1,2)
    by (simp add: write_block_def block_written_def sp Let_def db_bind_def exec_read_calm
        db_return_def rows_stored exec_upsert_calm del: length_take length_drop)
qed

definition on_file :: "key \<Rightarrow> tables \<Rightarrow> tables \<Rightarrow> bool" where
  "on_file k t0 t \<longleftrightarrow> keys_ok t \<and> entries t = entries t0 \<and> (\<forall>k'. k' \<noteq> k \<longrightarrow> blk t k' = blk t0 k')"

lemma on_file_put: "on_file k t0 t \<Longrightarrow> on_file k t0 (put k no d t)"
  by (simp add: on_file_def put_simps fun_eq_iff)

lemma on_file_others: "on_file k t0 t \<Longrightarrow> others_same k t0 t"
  by (simp add: on_file_def others_same_def ent_def)

interpretation dw: block_writer "block_written k offset data" "\<lambda>t. byte_at t k" "on_file k t0"
  offset data for k offset data t0
proof unfold_locales
  fix t b
  assume "on_file k t0 t"
  then show "on_file k t0 (block_written k offset data (int b) t)"
    by (simp add: block_written_def on_file_put split: option.split)
next
  fix t b x
  assume "on_file k t0 t" and b: "offset div BLOCK_SIZE \<le> b"
    "b \<le> (offset + length data - 1) div BLOCK_SIZE" and ne: "data \<noteq> []"
  obtain a e bo where sp: "block_span offset (offset + length data) (int b) = Some (a, e, bo)"
    and le: "a < e" "e \<le> length data" "bo + (e - a) \<le> BLOCK_SIZE"
    and patch: "\<And>old x. x div BLOCK_SIZE = b \<Longrightarrow>
       byte0 (patch_block bo (take (e - a) (drop a data)) old) (x mod BLOCK_SIZE) =
         (if offset \<le> x \<and> x < offset + length data then data ! (x - offset)
          else byte0 old (x mod BLOCK_SIZE))"
    using block_span_patch [OF ne b] by blast
  let ?c = "take (e - a) (drop a data)"
  let ?part = "0 < bo \<or> length ?c < BLOCK_SIZE"
  have "byte0 (patch_block bo ?c (if ?part then stored t k (int b) else [])) (x mod BLOCK_SIZE) =
      (if offset \<le> x \<and> x < offset + length data then data ! (x - offset) else byte_at t k x)"
    if x: "x div BLOCK_SIZE = b"
  proof (cases "?part")
    case True
    then show ?thesis by (simp only: if_True patch [OF x] byte0_stored [OF x])
  next
    case False
    then have c: "bo = 0" "length ?c = BLOCK_SIZE" using le by auto
    have "byte0 (patch_block bo ?c old) (x mod BLOCK_SIZE) = ?c ! (x mod BLOCK_SIZE)" for old
      unfolding byte0_patch_block c by simp
    then have "byte0 (patch_block bo ?c []) (x mod BLOCK_SIZE) =
        byte0 (patch_block bo ?c (stored t k (int b))) (x mod BLOCK_SIZE)"
      by (simp only:)
    with False show ?thesis by (simp only: if_False patch [OF x] byte0_stored [OF x])
  qed
  then show "byte_at (block_written k offset data (int b) t) k x =
      (if x div BLOCK_SIZE = b \<and> offset \<le> x \<and> x < offset + length data
       then data ! (x - offset) else byte_at t k x)"
    by (simp only: block_written_def sp option.case prod.case byte_at_put of_nat_eq_iff) auto
qed

lemma write_blocks_calm:
  assumes "fates s = []" and "keys_ok (tabs s)" and "data \<noteq> []"
    and "offset + length data \<le> MAX_BYTES"
  obtains t where
    "db_for (write_block parent name offset data) (block_range offset (offset + length data)) s =
       (Inr (), s\<lparr>tabs := t\<rparr>)"
    "on_file (parent, name) (tabs s) t"
    "\<And>x. byte_at t (parent, name) x =
       (if offset \<le> x \<and> x < offset + length data then data ! (x - offset)
        else byte_at (tabs s) (parent, name) x)"
proof -
  let ?k = "(parent, name)"
  let ?bs = "[offset div BLOCK_SIZE..<Suc ((offset + length data - 1) div BLOCK_SIZE)]"
  let ?t = "fold (\<lambda>b. block_written ?k offset data (int b)) ?bs (tabs s)"
  have range: "block_range offset (offset + length data) = map int ?bs"
    using assms(3,4) by (intro block_range_nat) auto
  have start: "on_file ?k (tabs s) (tabs s)" using assms(2) by (simp add: on_file_def)
  have run: "db_for (write_block parent name offset data)
      (block_range offset (offset + length data)) s = (Inr (), s\<lparr>tabs :=
        fold (block_written ?k offset data) (block_range offset (offset + length data)) (tabs s)\<rparr>)"
  proof (rule db_for_fold [where I = "on_file ?k (tabs s)", OF assms(1) start])
    fix no and u :: db
    assume no: "no \<in> set (block_range offset (offset + length data))"
      and u: "fates u = []" "on_file ?k (tabs s) (tabs u)"
    then obtain b where b: "no = int b" "offset div BLOCK_SIZE \<le> b"
      "b \<le> (offset + length data - 1) div BLOCK_SIZE" by (auto simp: range less_Suc_eq_le)
    then have "block_span offset (offset + length data) no \<noteq> None"
      using block_span_patch [OF assms(3) b(2,3)] by (metis option.distinct(1))
    then show "write_block parent name offset data no u =
        (Inr (), u\<lparr>tabs := block_written ?k offset data no (tabs u)\<rparr>) \<and>
        on_file ?k (tabs s) (block_written ?k offset data no (tabs u))"
      using u dw.step_valid [OF u(2) b(2,3) assms(3)] b(1)
      by (simp add: write_block_calm on_file_def)
  qed
  show ?thesis
  proof (rule that [of ?t])
    show "db_for (write_block parent name offset data) (block_range offset (offset + length data)) s =
       (Inr (), s\<lparr>tabs := ?t\<rparr>)"
      using run by (simp only: range fold_map o_def)
  qed (rule dw.loop_view [OF start assms(3)])+
qed

text \<open>What \<open>write_range\<close> does to the tables.\<close>

definition wrote :: "key \<Rightarrow> nat \<Rightarrow> nat \<Rightarrow> bytes \<Rightarrow> tables \<Rightarrow> tables \<Rightarrow> bool" where
  "wrote k n offset data t t' \<longleftrightarrow>
     keys_ok t' \<and> is_file t' k (max n (offset + length data)) \<and> others_same k t t' \<and>
     (\<forall>x. byte_at t' k x =
       (if offset \<le> x \<and> x < offset + length data then data ! (x - offset) else byte_at t k x))"

text \<open>The second half of \<open>write_range\<close>, after its look at the entry: a transaction that sets the
  size from what the look has found.\<close>

definition write_range_commit :: "string \<Rightarrow> string \<Rightarrow> nat \<Rightarrow> bytes \<Rightarrow> file_meta option \<Rightarrow> unit dbm" where
  "write_range_commit parent name offset data meta =
     (let stop = offset + length data;
          old_size = (case meta of None \<Rightarrow> 0 | Some m \<Rightarrow> m_size m)
      in db_bind (pg_transaction (write_range_txn parent name offset data stop (max old_size stop)))
           (\<lambda>_. timed_return ()))"

lemma write_range_halves:
  "data \<noteq> [] \<Longrightarrow> offset + length data \<le> MAX_BYTES \<Longrightarrow>
    write_range parent name offset data =
      db_bind (getattr_primary parent name) (write_range_commit parent name offset data)"
  by (simp add: write_range_def write_range_commit_def [abs_def] u64_add_def Let_def)

lemma write_range_commit_calm:
  assumes "fates s = []" and "keys_ok (tabs s)" and "is_file (tabs s) (parent, name) n0"
    and "n < 2 ^ 63" and "data \<noteq> []" and "offset + length data \<le> MAX_BYTES" and "m_size m = n"
  shows "\<exists>s'. write_range_commit parent name offset data (Some m) s = (Inr (), s') \<and> fates s' = [] \<and>
    wrote (parent, name) n offset data (tabs s) (tabs s')"
proof -
  let ?k = "(parent, name)" and ?m = "max n (offset + length data)"
  have i64: "as_i64 ?m = int ?m" using assms(4,6) by (intro as_i64_small) simp
  obtain t where t: "db_for (write_block parent name offset data)
        (block_range offset (offset + length data)) s = (Inr (), s\<lparr>tabs := t\<rparr>)"
    "on_file ?k (tabs s) t"
    "\<And>x. byte_at t ?k x = (if offset \<le> x \<and> x < offset + length data then data ! (x - offset)
        else byte_at (tabs s) ?k x)"
    using write_blocks_calm [OF assms(1,2,5,6), of parent name] by blast
  let ?t = "set_size ?k (int ?m) (pg_now s) t"
  have "write_range_txn parent name offset data (offset + length data) ?m s =
      (Inr (length (select_entry ?k t)), s\<lparr>tabs := ?t\<rparr>)"
    using assms(1) t(1)
    by (simp add: write_range_txn_def db_bind_def exec_set_size_calm i64)
  then have "write_range_commit parent name offset data (Some m) s =
      (Inr (), record_latency (s\<lparr>tabs := ?t\<rparr>))"
    using assms(1,7)
    by (simp add: write_range_commit_def db_bind_def Let_def pg_transaction_calm [OF assms(1)]
        timed_return_def)
  moreover have "wrote ?k n offset data (tabs s) ?t"
  proof -
    from t(2) have "keys_ok t" and "others_same ?k (tabs s) t" and "is_file t ?k n0"
      using assms(3) by (auto simp: on_file_def on_file_others is_file_def ent_def)
    then show ?thesis
      by (auto simp: wrote_def t(3) is_file_set_size intro: others_same_trans)
  qed
  ultimately show ?thesis using assms(1) by simp
qed

lemma write_range_calm:
  assumes "fates s = []" and "keys_ok (tabs s)" and "is_file (tabs s) (parent, name) n"
    and "n < 2 ^ 63" and "data \<noteq> []" and "offset + length data \<le> MAX_BYTES"
  shows "\<exists>s'. write_range parent name offset data s = (Inr (), s') \<and> fates s' = [] \<and>
    wrote (parent, name) n offset data (tabs s) (tabs s')"
proof -
  obtain m where m: "meta_opt (ent (tabs s) (parent, name)) = Inr (Some m)" "m_size m = n"
    using meta_opt_file [OF assms(3)] by blast
  show ?thesis
    using write_range_commit_calm [of "record_latency s" parent name n n data offset m] m assms
    by (simp add: write_range_halves db_bind_def getattr_primary_calm)
qed

lemma wrote_bytes:
  assumes "wrote k n offset data t t'" and "offset \<le> n \<or> tail_zero t k n"
  shows "file_bytes t' k (max n (offset + length data)) =
    spec_write offset data (file_bytes t k n)"
  using assms
  by (intro bytes_eqI) (auto simp: wrote_def byte0_spec_write byte0_file_bytes tail_zero_def)

lemma wrote_tail_zero: "wrote k n offset data t t' \<Longrightarrow> tail_zero t k n \<Longrightarrow>
    tail_zero t' k (max n (offset + length data))"
  by (simp add: wrote_def tail_zero_def)

section \<open>Truncating\<close>

definition pruned :: "key \<Rightarrow> int \<Rightarrow> tables \<Rightarrow> tables" where
  "pruned k keep t = after (prune_blocks k keep) t"

lemma prune_blocks_pruned: "\<exists>c. prune_blocks k keep t = Some (c, pruned k keep t)"
  by (simp add: prune_blocks_def pruned_def after_def)

lemma pruned_simps [sql_simps]:
  "entries (pruned k keep t) = entries t"
  "blk (pruned k keep t) k' no = (if k' = k \<and> keep < no then None else blk t k' no)"
  "keys_ok t \<Longrightarrow> keys_ok (pruned k keep t)"
  using prune_blocks_pruned [of k keep t]
  by (auto simp: blk_prune_blocks keys_ok_prune_blocks prune_blocks_def pruned_def after_def)

lemma byte_at_pruned:
  "byte_at (pruned k (int q) t) k x = (if q < x div BLOCK_SIZE then 0 else byte_at t k x)"
  by (simp add: byte_at_def stored_byte_def pruned_simps)

lemma on_file_pruned: "keys_ok t \<Longrightarrow> on_file k t (pruned k keep t)"
  by (simp add: on_file_def pruned_simps fun_eq_iff)

text \<open>The boundary block: cut when it is stored and the new size is inside it.\<close>

definition boundary_cut :: "key \<Rightarrow> nat \<Rightarrow> tables \<Rightarrow> tables" where
  "boundary_cut k new_size t =
     (let q = int (new_size div BLOCK_SIZE) in
      case blk t k q of
        None \<Rightarrow> t
      | Some d \<Rightarrow>
          if 0 < new_size mod BLOCK_SIZE then put k q (take (new_size mod BLOCK_SIZE) d) t else t)"

lemma byte_at_boundary_cut:
  "byte_at (boundary_cut k new_size t) k x =
    (if x div BLOCK_SIZE = new_size div BLOCK_SIZE \<and> 0 < new_size mod BLOCK_SIZE \<and>
        new_size mod BLOCK_SIZE \<le> x mod BLOCK_SIZE
     then 0 else byte_at t k x)"
proof (cases "blk t k (int (new_size div BLOCK_SIZE))")
  case None
  then show ?thesis by (simp add: boundary_cut_def byte_at_def stored_byte_def)
next
  case (Some d)
  then have "byte_at t k x = byte0 d (x mod BLOCK_SIZE)"
    if "x div BLOCK_SIZE = new_size div BLOCK_SIZE"
    using that by (simp add: byte_at_def stored_byte_def)
  with Some show ?thesis by (simp add: boundary_cut_def Let_def byte_at_put byte0_take)
qed

lemma on_file_cut: "on_file k t0 t \<Longrightarrow> on_file k t0 (boundary_cut k new_size t)"
  by (simp add: boundary_cut_def Let_def on_file_put split: option.split)

lemma truncate_blocks_calm:
  assumes "fates s = []" and "keys_ok (tabs s)" and "new_size < MAX_BYTES"
  shows "truncate_blocks parent name new_size s =
    (Inr (), s\<lparr>tabs := boundary_cut (parent, name) new_size
                       (pruned (parent, name) (int (new_size div BLOCK_SIZE)) (tabs s))\<rparr>)"
proof -
  let ?k = "(parent, name)" and ?q = "int (new_size div BLOCK_SIZE)"
  let ?t = "pruned ?k ?q (tabs s)"
  obtain c where c: "prune_blocks ?k ?q (tabs s) = Some (c, ?t)"
    using prune_blocks_pruned by blast
  have q: "as_i32 (new_size div BLOCK_SIZE) = ?q"
    using div_MAX_BYTES [OF assms(3)] by (simp add: as_i32_small)
  have "keys_ok ?t" using assms(2) by (simp add: pruned_simps)
  from select_block_hd [OF this, of ?k ?q, symmetric] show ?thesis
    using assms(1)
    by (cases "select_blocks ?k ?q ?q ?t")
      (simp_all add: truncate_blocks_def Let_def q db_bind_def exec_read_calm exec_upsert_calm
        pg_exec_calm [where step = Prune_blocks] run_stmt_def c db_return_def boundary_cut_def)
qed

lemma below_by_block:
  "x < n \<longleftrightarrow> x div BLOCK_SIZE < n div BLOCK_SIZE \<or>
    x div BLOCK_SIZE = n div BLOCK_SIZE \<and> x mod BLOCK_SIZE < n mod BLOCK_SIZE"
proof -
  have x: "x = x div BLOCK_SIZE * BLOCK_SIZE + x mod BLOCK_SIZE"
    and n: "n = n div BLOCK_SIZE * BLOCK_SIZE + n mod BLOCK_SIZE" by simp_all
  consider "x div BLOCK_SIZE < n div BLOCK_SIZE" | "x div BLOCK_SIZE = n div BLOCK_SIZE"
    | "n div BLOCK_SIZE < x div BLOCK_SIZE" by linarith
  then show ?thesis
  proof cases
    case 1
    then have "x < n" by (meson div_le_mono leD leI)
    with 1 show ?thesis by simp
  next
    case 2
    then have "x < n \<longleftrightarrow> x mod BLOCK_SIZE < n mod BLOCK_SIZE"
      using x n by (metis add_less_cancel_left)
    with 2 show ?thesis by simp
  next
    case 3
    then have "\<not> x < n" by (meson div_le_mono leD less_imp_le)
    with 3 show ?thesis by simp
  qed
qed

text \<open>The bytes a shrinking \<open>truncate\<close> leaves: those below the new size and, when the new
  size is a multiple of the block size, the whole block that starts there.\<close>

definition survives :: "nat \<Rightarrow> nat \<Rightarrow> bool" where
  "survives new_size x \<longleftrightarrow> x < new_size \<or>
     new_size mod BLOCK_SIZE = 0 \<and> x div BLOCK_SIZE = new_size div BLOCK_SIZE"

lemma byte_at_truncated:
  "byte_at (boundary_cut k new_size (pruned k (int (new_size div BLOCK_SIZE)) t)) k x =
    (if survives new_size x then byte_at t k x else 0)"
  unfolding byte_at_boundary_cut byte_at_pruned survives_def below_by_block [of x new_size]
  by auto

definition truncated :: "key \<Rightarrow> nat \<Rightarrow> nat \<Rightarrow> tables \<Rightarrow> tables \<Rightarrow> bool" where
  "truncated k n new_size t t' \<longleftrightarrow>
     keys_ok t' \<and> is_file t' k new_size \<and> others_same k t t' \<and>
     (\<forall>x. byte_at t' k x =
        (if n \<le> new_size \<or> survives new_size x then byte_at t k x else 0))"

lemma truncate_calm:
  assumes "fates s = []" and "keys_ok (tabs s)" and "is_file (tabs s) (parent, name) n"
    and "n \<le> MAX_BYTES" and "new_size < 2 ^ 63"
  shows "\<exists>s'. db_truncate parent name new_size s = (Inr (), s') \<and> fates s' = [] \<and>
    truncated (parent, name) n new_size (tabs s) (tabs s')"
proof -
  let ?k = "(parent, name)"
  obtain m where m: "meta_opt (ent (tabs s) ?k) = Inr (Some m)" "m_size m = n" "m_kind m = File"
    using meta_opt_file [OF assms(3)] by blast
  let ?s = "record_latency s"
  let ?c = "boundary_cut ?k new_size (pruned ?k (int (new_size div BLOCK_SIZE)) (tabs s))"
  let ?b = "if new_size < n then ?c else tabs s"
  let ?t = "set_size ?k (int new_size) (pg_now s) ?b"
  have i64: "as_i64 new_size = int new_size" using assms(5) by (rule as_i64_small)
  have "(if new_size < n then truncate_blocks parent name new_size else db_return ()) ?s =
      (Inr (), ?s\<lparr>tabs := ?b\<rparr>)"
    using assms(1,2,4) by (simp add: truncate_blocks_calm db_return_def)
  then have "truncate_txn parent name n new_size ?s =
      (Inr (length (select_entry ?k ?b)), ?s\<lparr>tabs := ?t\<rparr>)"
    using assms(1) by (simp only: truncate_txn_def db_bind_def) (simp add: exec_set_size_calm i64)
  then have "db_truncate parent name new_size s = (Inr (), record_latency (?s\<lparr>tabs := ?t\<rparr>))"
    using assms(1,2)
    by (simp add: db_truncate_def db_bind_def getattr_primary_calm m Let_def
        pg_transaction_calm timed_return_def)
  moreover have "truncated ?k n new_size (tabs s) ?t"
  proof -
    have b: "on_file ?k (tabs s) ?b"
      using assms(2) by (simp add: on_file_cut on_file_pruned) (simp add: on_file_def)
    then have "keys_ok ?b" and "others_same ?k (tabs s) ?b" and "is_file ?b ?k n"
      using assms(3) by (auto simp: on_file_def on_file_others is_file_def ent_def)
    then show ?thesis
      by (auto simp: truncated_def is_file_set_size byte_at_truncated intro: others_same_trans)
  qed
  ultimately show ?thesis using assms(1) by simp
qed

lemma truncated_bytes:
  assumes "truncated k n new_size t t'" and "new_size \<le> n \<or> tail_zero t k n"
  shows "file_bytes t' k new_size = spec_truncate new_size (file_bytes t k n)"
  using assms
  by (intro bytes_eqI)
    (auto simp: truncated_def byte0_spec_truncate byte0_file_bytes tail_zero_def survives_def)

lemma truncated_tail_zero:
  assumes "truncated k n new_size t t'" and "tail_zero t k n"
    and "n \<le> new_size \<or> new_size mod BLOCK_SIZE \<noteq> 0"
  shows "tail_zero t' k new_size"
  using assms by (auto simp: truncated_def tail_zero_def survives_def)

lemma truncate_not_file:
  assumes "fates s = []" and "rows_ok (tabs s)"
    and "ent (tabs s) (parent, name) = None \<or> is_dir (tabs s) (parent, name)"
  shows "db_truncate parent name new_size s = (Inl (Not_a_file (parent, name)), record_latency s)"
proof -
  have "keys_ok (tabs s)" using assms(2) by (simp add: rows_ok_def)
  moreover have "meta_opt (ent (tabs s) (parent, name)) = Inr None \<or>
      (\<exists>m. meta_opt (ent (tabs s) (parent, name)) = Inr (Some m) \<and> m_kind m = Dir)"
    using assms(2,3) meta_opt_None meta_opt_dir by blast
  ultimately show ?thesis
    using assms(1)
    by (auto simp: db_truncate_def db_bind_def getattr_primary_calm Let_def db_fail_def)
qed

section \<open>Writing dirty blocks\<close>

definition put_all :: "key \<Rightarrow> (int \<times> bytes) list \<Rightarrow> tables \<Rightarrow> tables" where
  "put_all k = fold (\<lambda>(no, d). put k no d)"

lemma put_all_simps:
  "put_all k [] t = t" "put_all k ((no, d) # dirty) t = put_all k dirty (put k no d t)"
  by (simp_all add: put_all_def)

lemma on_file_put_all: "on_file k t0 t \<Longrightarrow> on_file k t0 (put_all k dirty t)"
  by (induction dirty arbitrary: t) (auto simp: put_all_simps on_file_put)

lemma blk_put_all:
  "distinct (map fst dirty) \<Longrightarrow>
    blk (put_all k dirty t) k no = (case map_of dirty no of Some d \<Rightarrow> Some d | None \<Rightarrow> blk t k no)"
proof (induction dirty arbitrary: t)
  case Nil
  then show ?case by (simp add: put_all_simps)
next
  case (Cons p dirty)
  obtain m d where p: "p = (m, d)" by (cases p)
  with Cons.prems have "map_of dirty m = None" by (simp add: map_of_eq_None_iff)
  with Cons p show ?case by (auto simp: put_all_simps put_simps split: option.split)
qed

definition with_dirty :: "(int \<times> bytes) list \<Rightarrow> (nat \<Rightarrow> byte) \<Rightarrow> nat \<Rightarrow> byte" where
  "with_dirty dirty old x =
     (case map_of dirty (int (x div BLOCK_SIZE)) of
        Some d \<Rightarrow> byte0 d (x mod BLOCK_SIZE)
      | None \<Rightarrow> old x)"

lemma byte_at_put_all:
  "distinct (map fst dirty) \<Longrightarrow>
    byte_at (put_all k dirty t) k x = with_dirty dirty (byte_at t k) x"
  by (simp add: byte_at_def stored_byte_def blk_put_all with_dirty_def split: option.split)

lemma put_blocks_calm:
  "fates s = [] \<Longrightarrow>
    put_blocks parent name dirty s = (Inr (), s\<lparr>tabs := put_all (parent, name) dirty (tabs s)\<rparr>)"
  unfolding put_blocks_def put_all_def
  by (rule db_for_fold [where I = "\<lambda>_. True"])
    (auto simp: db_bind_def exec_upsert_calm db_return_def)

definition batched ::
  "key \<Rightarrow> nat \<Rightarrow> (int \<times> bytes) list \<Rightarrow> nat \<Rightarrow> tables \<Rightarrow> tables \<Rightarrow> bool"
where
  "batched k n dirty new_size t t' \<longleftrightarrow>
     keys_ok t' \<and> is_file t' k (max n new_size) \<and> others_same k t t' \<and>
     (\<forall>x. byte_at t' k x = with_dirty dirty (byte_at t k) x)"

lemma write_blocks_batch_calm:
  assumes "fates s = []" and "keys_ok (tabs s)" and "is_file (tabs s) (parent, name) n"
    and "n < 2 ^ 63" and "new_size < 2 ^ 63" and "distinct (map fst dirty)"
  shows "\<exists>s'. write_blocks_batch parent name dirty new_size s = (Inr (), s') \<and> fates s' = [] \<and>
    batched (parent, name) n dirty new_size (tabs s) (tabs s')"
proof -
  let ?k = "(parent, name)"
  let ?t = "put_all ?k dirty (tabs s)"
  obtain m where m: "meta_opt (ent (tabs s) ?k) = Inr (Some m)" "m_size m = n"
    using meta_opt_file [OF assms(3)] by blast
  have i64: "as_i64 (max n new_size) = int (max n new_size)"
    using assms(4,5) by (intro as_i64_small) simp
  have "on_file ?k (tabs s) ?t" using assms(2) by (intro on_file_put_all) (simp add: on_file_def)
  then have t: "keys_ok ?t" "others_same ?k (tabs s) ?t" "is_file ?t ?k n"
    using assms(3) by (auto simp: on_file_def on_file_others is_file_def ent_def)
  note run = write_blocks_batch_def batch_txn_def db_bind_def db_return_def getattr_primary_calm
    put_blocks_calm pg_transaction_calm exec_set_size_calm timed_return_def Let_def m i64
  show ?thesis
  proof (cases "new_size = 0")
    case True
    then have b: "batched ?k n dirty new_size (tabs s) ?t"
      using t assms(6) by (simp add: batched_def byte_at_put_all)
    show ?thesis
    proof (cases "dirty = []")
      case True
      with \<open>new_size = 0\<close> b assms(1) show ?thesis by (simp add: run put_all_simps)
    next
      case False
      with \<open>new_size = 0\<close> b assms(1) show ?thesis by (simp add: run)
    qed
  next
    case False
    let ?u = "set_size ?k (int (max n new_size)) (pg_now s) ?t"
    have "batched ?k n dirty new_size (tabs s) ?u"
      using t assms(6)
      by (auto simp: batched_def byte_at_put_all is_file_set_size intro: others_same_trans)
    with False assms(1,2) show ?thesis by (simp add: run)
  qed
qed

end
