(* ===== verification/Handle_Buffer.thy ===== *)
theory Handle_Buffer
  imports File_Contents
begin

text \<open>
  \<open>HandleBuffer\<close> of \<open>src/fs.rs\<close>: the dirty blocks of an open file between its writes and
  the flush, which stores them with \<open>write_blocks_batch\<close>. On the buffer, a write is the
  block loop of \<open>write_range\<close> over a map that starts empty; the lemmas say which bytes a
  flush makes visible.
\<close>

section \<open>The buffer\<close>

record handle_buffer =
  hb_parent :: string
  hb_name :: string
  dirty_blocks :: "(int \<times> bytes) list"
  max_size :: nat

definition handle_new :: "string \<Rightarrow> string \<Rightarrow> handle_buffer" where
  "handle_new parent name =
     \<lparr>hb_parent = parent, hb_name = name, dirty_blocks = [], max_size = 0\<rparr>"

text \<open>One turn of the loop; \<^term>\<open>None\<close> is the panic of \<open>block_span\<close>.\<close>

definition buffer_block ::
  "nat \<Rightarrow> bytes \<Rightarrow> int \<Rightarrow> (int \<times> bytes) list \<Rightarrow> (int \<times> bytes) list option"
where
  "buffer_block offset data block_no dirty =
     (case block_span offset (offset + length data) block_no of
        None \<Rightarrow> None
      | Some (in_data_start, in_data_end, block_offset) \<Rightarrow>
          let chunk = take (in_data_end - in_data_start) (drop in_data_start data);
              block_data = (case map_of dirty block_no of None \<Rightarrow> [] | Some d \<Rightarrow> d)
          in Some (AList.update block_no (patch_block block_offset chunk block_data) dirty))"

fun buffer_blocks ::
  "nat \<Rightarrow> bytes \<Rightarrow> int list \<Rightarrow> (int \<times> bytes) list \<Rightarrow> (int \<times> bytes) list option"
where
  "buffer_blocks offset data [] dirty = Some dirty"
| "buffer_blocks offset data (b # bs) dirty =
     (case buffer_block offset data b dirty of
        None \<Rightarrow> None
      | Some dirty' \<Rightarrow> buffer_blocks offset data bs dirty')"

definition handle_write :: "nat \<Rightarrow> bytes \<Rightarrow> handle_buffer \<Rightarrow> handle_buffer option" where
  "handle_write offset data h =
     (if data = [] then Some h
      else
        case u64_add offset (length data) of
          None \<Rightarrow> None
        | Some stop \<Rightarrow>
            (case buffer_blocks offset data (block_range offset stop) (dirty_blocks h) of
               None \<Rightarrow> None
             | Some dirty \<Rightarrow>
                 Some (h\<lparr>max_size := max (max_size h) stop, dirty_blocks := dirty\<rparr>)))"

text \<open>\<open>PgFs::flush_handle\<close> on the table of open handles. The handle is taken out first and
  put back at the end, so an error of the database leaves it out.\<close>

definition flush_handle ::
  "nat \<Rightarrow> (nat \<times> handle_buffer) list \<Rightarrow> db \<Rightarrow> (db_error + unit) \<times> (nat \<times> handle_buffer) list \<times> db"
where
  "flush_handle fh handles d =
     (case map_of handles fh of
        None \<Rightarrow> (Inr (), handles, d)
      | Some h \<Rightarrow>
          let rest = AList.delete fh handles in
          if dirty_blocks h \<noteq> [] \<or> 0 < max_size h then
            (case write_blocks_batch (hb_parent h) (hb_name h) (dirty_blocks h) (max_size h) d of
               (Inl e, d') \<Rightarrow> (Inl e, rest, d')
             | (Inr _, d') \<Rightarrow>
                 (Inr (), AList.update fh (h\<lparr>dirty_blocks := [], max_size := 0\<rparr>) rest, d'))
          else (Inr (), AList.update fh h rest, d))"

section \<open>What a write leaves in the buffer\<close>

definition buffered :: "(int \<times> bytes) list \<Rightarrow> nat \<Rightarrow> byte" where
  "buffered dirty = with_dirty dirty (\<lambda>_. 0)"

lemma buffered_Nil [simp]: "buffered [] x = 0"
  by (simp add: buffered_def with_dirty_def)

definition buffer_step :: "nat \<Rightarrow> bytes \<Rightarrow> int \<Rightarrow> (int \<times> bytes) list \<Rightarrow> (int \<times> bytes) list" where
  "buffer_step offset data b dirty =
     (case buffer_block offset data b dirty of None \<Rightarrow> dirty | Some d \<Rightarrow> d)"

interpretation hw: block_writer "buffer_step offset data" buffered "\<lambda>d. distinct (map fst d)"
  offset data for offset data
proof unfold_locales
  fix d :: "(int \<times> bytes) list" and b :: nat
  assume "distinct (map fst d)"
  then show "distinct (map fst (buffer_step offset data (int b) d))"
    by (simp add: buffer_step_def buffer_block_def Let_def distinct_update split: option.split)
next
  fix d :: "(int \<times> bytes) list" and b x :: nat
  assume "distinct (map fst d)" and b: "offset div BLOCK_SIZE \<le> b"
    "b \<le> (offset + length data - 1) div BLOCK_SIZE" and ne: "data \<noteq> []"
  obtain a e bo where sp: "block_span offset (offset + length data) (int b) = Some (a, e, bo)"
    and le: "a < e" "e \<le> length data" "bo + (e - a) \<le> BLOCK_SIZE"
    and patch: "\<And>old x. x div BLOCK_SIZE = b \<Longrightarrow>
       byte0 (patch_block bo (take (e - a) (drop a data)) old) (x mod BLOCK_SIZE) =
         (if offset \<le> x \<and> x < offset + length data then data ! (x - offset)
          else byte0 old (x mod BLOCK_SIZE))"
    using block_span_patch [OF ne b] by blast
  let ?old = "case map_of d (int b) of None \<Rightarrow> [] | Some d \<Rightarrow> d"
  have "byte0 ?old (x mod BLOCK_SIZE) = buffered d x" if "x div BLOCK_SIZE = b"
    using that by (simp add: buffered_def with_dirty_def split: option.split)
  with patch [of x ?old]
  show "buffered (buffer_step offset data (int b) d) x =
      (if x div BLOCK_SIZE = b \<and> offset \<le> x \<and> x < offset + length data
       then data ! (x - offset) else buffered d x)"
    by (auto simp: buffer_step_def buffer_block_def sp Let_def buffered_def with_dirty_def update_conv'
        simp del: length_take length_drop)
qed

lemma buffer_blocks_steps:
  assumes "\<And>b. b \<in> set bs \<Longrightarrow> block_span offset (offset + length data) b \<noteq> None"
  shows "buffer_blocks offset data bs dirty = Some (fold (buffer_step offset data) bs dirty)"
  using assms
proof (induction bs arbitrary: dirty)
  case Nil
  then show ?case by simp
next
  case (Cons b bs)
  then obtain a e bo where "block_span offset (offset + length data) b = Some (a, e, bo)" by fastforce
  with Cons show ?case by (simp add: buffer_step_def buffer_block_def Let_def)
qed

lemma buffer_step_keys:
  "block_span offset (offset + length data) b \<noteq> None \<Longrightarrow>
    fst ` set (buffer_step offset data b d) = insert b (fst ` set d)"
  by (cases "block_span offset (offset + length data) b")
    (simp_all add: buffer_step_def buffer_block_def Let_def dom_update split: prod.split)

lemma fold_buffer_keys:
  "(\<And>b. b \<in> set bs \<Longrightarrow> block_span offset (offset + length data) b \<noteq> None) \<Longrightarrow>
    fst ` set (fold (buffer_step offset data) bs d) = set bs \<union> fst ` set d"
  by (induction bs arbitrary: d) (auto simp: buffer_step_keys)

text \<open>The contract of a buffered write.\<close>

lemma handle_write_ok:
  assumes "distinct (map fst (dirty_blocks h))" and "data \<noteq> []"
    and "offset + length data \<le> MAX_BYTES"
  obtains d where
    "handle_write offset data h =
       Some (h\<lparr>max_size := max (max_size h) (offset + length data), dirty_blocks := d\<rparr>)"
    "distinct (map fst d)"
    "fst ` set d = set (block_range offset (offset + length data)) \<union> fst ` set (dirty_blocks h)"
    "\<And>x. buffered d x = (if offset \<le> x \<and> x < offset + length data then data ! (x - offset)
       else buffered (dirty_blocks h) x)"
proof -
  let ?bs = "[offset div BLOCK_SIZE..<Suc ((offset + length data - 1) div BLOCK_SIZE)]"
  have range: "block_range offset (offset + length data) = map int ?bs"
    using assms(2,3) by (intro block_range_nat) auto
  have span: "block_span offset (offset + length data) b \<noteq> None"
    if "b \<in> set (block_range offset (offset + length data))" for b
  proof -
    from that obtain m where m: "b = int m" "offset div BLOCK_SIZE \<le> m"
      "m \<le> (offset + length data - 1) div BLOCK_SIZE" by (auto simp: range less_Suc_eq_le)
    show ?thesis using block_span_patch [OF assms(2) m(2,3)] m(1) by (metis option.distinct(1))
  qed
  let ?d = "fold (\<lambda>b. buffer_step offset data (int b)) ?bs (dirty_blocks h)"
  have eq: "fold (buffer_step offset data) (block_range offset (offset + length data))
      (dirty_blocks h) = ?d" by (simp only: range fold_map o_def)
  have u64: "u64_add offset (length data) = Some (offset + length data)"
    using assms(3) by (simp add: u64_add_def)
  show ?thesis
  proof (rule that [of ?d])
    show "handle_write offset data h =
       Some (h\<lparr>max_size := max (max_size h) (offset + length data), dirty_blocks := ?d\<rparr>)"
      using assms(2) buffer_blocks_steps [OF span] eq by (simp add: handle_write_def u64)
    show "fst ` set ?d = set (block_range offset (offset + length data)) \<union> fst ` set (dirty_blocks h)"
      using fold_buffer_keys [OF span] eq by metis
  qed (rule hw.loop_view [OF assms(1,2)])+
qed

section \<open>A sequence of writes and the flush\<close>

fun handle_writes :: "(nat \<times> bytes) list \<Rightarrow> handle_buffer \<Rightarrow> handle_buffer option" where
  "handle_writes [] h = Some h"
| "handle_writes ((offset, data) # ws) h =
     (case handle_write offset data h of None \<Rightarrow> None | Some h' \<Rightarrow> handle_writes ws h')"

definition spec_writes :: "(nat \<times> bytes) list \<Rightarrow> bytes \<Rightarrow> bytes" where
  "spec_writes = fold (\<lambda>(offset, data). spec_write offset data)"

definition covered :: "(nat \<times> bytes) list \<Rightarrow> nat \<Rightarrow> bool" where
  "covered ws x \<longleftrightarrow> (\<exists>(offset, data) \<in> set ws. offset \<le> x \<and> x < offset + length data)"

definition touched :: "(nat \<times> bytes) list \<Rightarrow> int set" where
  "touched ws = (\<Union>(offset, data) \<in> set ws. set (block_range offset (offset + length data)))"

definition writes_ok :: "(nat \<times> bytes) list \<Rightarrow> bool" where
  "writes_ok ws \<longleftrightarrow> list_all (\<lambda>(offset, data). data \<noteq> [] \<and> offset + length data \<le> MAX_BYTES) ws"

lemma spec_writes_simps [simp]:
  "spec_writes [] bs = bs"
  "spec_writes ((offset, data) # ws) bs = spec_writes ws (spec_write offset data bs)"
  by (simp_all add: spec_writes_def)

lemma covered_simps [simp]:
  "\<not> covered [] x"
  "covered ((offset, data) # ws) x \<longleftrightarrow> offset \<le> x \<and> x < offset + length data \<or> covered ws x"
  by (auto simp: covered_def)

lemma touched_simps [simp]:
  "touched [] = {}"
  "touched ((offset, data) # ws) = set (block_range offset (offset + length data)) \<union> touched ws"
  by (simp_all add: touched_def)

lemma writes_ok_simps [simp]:
  "writes_ok []"
  "writes_ok ((offset, data) # ws) \<longleftrightarrow>
    data \<noteq> [] \<and> offset + length data \<le> MAX_BYTES \<and> writes_ok ws"
  by (simp_all add: writes_ok_def)

lemma byte0_spec_writes:
  "byte0 (spec_writes ws bs) x = (if covered ws x then byte0 (spec_writes ws []) x else byte0 bs x)"
proof (induction ws arbitrary: bs)
  case Nil
  then show ?case by simp
next
  case (Cons w ws)
  obtain offset data where w: "w = (offset, data)" by (cases w)
  show ?case
    using Cons.IH [of "spec_write offset data bs"] Cons.IH [of "spec_write offset data []"]
    by (simp add: w byte0_spec_write)
qed

lemma length_spec_writes:
  "length (spec_writes ws bs) = max (length bs) (length (spec_writes ws []))"
proof (induction ws arbitrary: bs)
  case Nil
  then show ?case by simp
next
  case (Cons w ws)
  obtain offset data where w: "w = (offset, data)" by (cases w)
  show ?case
    using Cons.IH [of "spec_write offset data bs"] Cons.IH [of "spec_write offset data []"]
    by (simp add: w)
qed

lemma covered_touched:
  assumes "writes_ok ws" and "covered ws x"
  shows "int (x div BLOCK_SIZE) \<in> touched ws"
  using assms
proof (induction ws)
  case Nil
  then show ?case by simp
next
  case (Cons w ws)
  obtain offset data where w: "w = (offset, data)" by (cases w)
  show ?case
  proof (cases "offset \<le> x \<and> x < offset + length data")
    case True
    then have "offset div BLOCK_SIZE \<le> x div BLOCK_SIZE"
      and "x div BLOCK_SIZE \<le> (offset + length data - 1) div BLOCK_SIZE"
      by (auto intro!: div_le_mono)
    moreover have "block_range offset (offset + length data) =
        map int [offset div BLOCK_SIZE..<Suc ((offset + length data - 1) div BLOCK_SIZE)]"
      using Cons.prems(1) w True by (intro block_range_nat) simp_all
    ultimately have "int (x div BLOCK_SIZE) \<in> set (block_range offset (offset + length data))"
      by (simp only: set_map set_upt) (intro imageI, simp add: less_Suc_eq_le)
    then show ?thesis by (simp add: w)
  next
    case False
    with Cons w show ?thesis by auto
  qed
qed

lemma handle_writes_ok:
  assumes "writes_ok ws" and "distinct (map fst (dirty_blocks h))"
  shows "\<exists>d. handle_writes ws h =
      Some (h\<lparr>max_size := max (max_size h) (length (spec_writes ws [])), dirty_blocks := d\<rparr>) \<and>
    distinct (map fst d) \<and> fst ` set d = touched ws \<union> fst ` set (dirty_blocks h) \<and>
    (\<forall>x. buffered d x =
      (if covered ws x then byte0 (spec_writes ws []) x else buffered (dirty_blocks h) x))"
  using assms
proof (induction ws arbitrary: h)
  case Nil
  then show ?case by (intro exI [of _ "dirty_blocks h"]) simp
next
  case (Cons w ws)
  obtain offset data where w: "w = (offset, data)" by (cases w)
  with Cons.prems have ok: "data \<noteq> []" "offset + length data \<le> MAX_BYTES" "writes_ok ws" by simp_all
  obtain d where d: "handle_write offset data h =
       Some (h\<lparr>max_size := max (max_size h) (offset + length data), dirty_blocks := d\<rparr>)"
    "distinct (map fst d)"
    "fst ` set d = set (block_range offset (offset + length data)) \<union> fst ` set (dirty_blocks h)"
    "\<And>x. buffered d x = (if offset \<le> x \<and> x < offset + length data then data ! (x - offset)
       else buffered (dirty_blocks h) x)"
    using handle_write_ok [OF Cons.prems(2) ok(1,2)] by blast
  let ?h = "h\<lparr>max_size := max (max_size h) (offset + length data), dirty_blocks := d\<rparr>"
  from Cons.IH [OF ok(3), of ?h] d(2) obtain d' where d': "handle_writes ws ?h =
      Some (?h\<lparr>max_size := max (max_size ?h) (length (spec_writes ws [])), dirty_blocks := d'\<rparr>)"
    "distinct (map fst d')" "fst ` set d' = touched ws \<union> fst ` set d"
    "\<And>x. buffered d' x = (if covered ws x then byte0 (spec_writes ws []) x else buffered d x)"
    by auto
  have size: "max (max_size ?h) (length (spec_writes ws [])) =
      max (max_size h) (length (spec_writes (w # ws) []))"
    using length_spec_writes [of ws "spec_write offset data []"] by (simp add: w)
  have bytes: "byte0 (spec_writes (w # ws) []) x =
      (if covered ws x then byte0 (spec_writes ws []) x
       else if offset \<le> x \<and> x < offset + length data then data ! (x - offset) else 0)" for x
    using byte0_spec_writes [of ws "spec_write offset data []"] by (simp add: w byte0_spec_write)
  show ?case
  proof (intro exI [of _ d'] conjI allI)
    show "handle_writes (w # ws) h =
      Some (h\<lparr>max_size := max (max_size h) (length (spec_writes (w # ws) [])), dirty_blocks := d'\<rparr>)"
      using d(1) d'(1) size by (simp add: w)
    show "fst ` set d' = touched (w # ws) \<union> fst ` set (dirty_blocks h)"
      using d(3) d'(3) by (auto simp: w)
    show "buffered d' x = (if covered (w # ws) x then byte0 (spec_writes (w # ws) []) x
        else buffered (dirty_blocks h) x)" for x
      unfolding bytes using d(4) d'(4) by (simp add: w)
  qed (rule d'(2))
qed

text \<open>When every byte of the touched blocks that no write covers is zero in the file, as in a
  new file, the flush stores what the writes would have written directly.\<close>

lemma flushed_bytes:
  assumes b: "batched k n d (length (spec_writes ws [])) t t'" and ok: "writes_ok ws"
    and d: "fst ` set d = touched ws"
      "\<And>x. buffered d x = (if covered ws x then byte0 (spec_writes ws []) x else 0)"
    and zero: "tail_zero t k n"
      "\<And>x. int (x div BLOCK_SIZE) \<in> touched ws \<Longrightarrow> \<not> covered ws x \<Longrightarrow> byte_at t k x = 0"
  shows "file_bytes t' k (max n (length (spec_writes ws []))) = spec_writes ws (file_bytes t k n)"
proof (rule bytes_eqI)
  show "length (file_bytes t' k (max n (length (spec_writes ws [])))) =
      length (spec_writes ws (file_bytes t k n))"
    using length_spec_writes [of ws "file_bytes t k n"] by simp
next
  fix x
  assume "x < length (spec_writes ws (file_bytes t k n))"
  then have x: "x < max n (length (spec_writes ws []))"
    using length_spec_writes [of ws "file_bytes t k n"] by simp
  have at: "byte_at t' k x = with_dirty d (byte_at t k) x" using b by (simp add: batched_def)
  have "with_dirty d (byte_at t k) x =
      (if covered ws x then byte0 (spec_writes ws []) x else byte_at t k x)"
  proof (cases "int (x div BLOCK_SIZE) \<in> touched ws")
    case True
    then obtain v where "map_of d (int (x div BLOCK_SIZE)) = Some v"
      using d(1) by (metis map_of_eq_None_iff not_None_eq)
    then have "with_dirty d (byte_at t k) x = buffered d x"
      by (simp add: with_dirty_def buffered_def)
    with d(2) zero(2) [OF True] show ?thesis by simp
  next
    case False
    then have "map_of d (int (x div BLOCK_SIZE)) = None"
      using d(1) by (simp add: map_of_eq_None_iff)
    with False covered_touched [OF ok, of x] show ?thesis by (auto simp: with_dirty_def)
  qed
  moreover have "byte0 (file_bytes t k n) x = byte_at t k x"
    using zero(1) by (simp add: byte0_file_bytes tail_zero_def)
  ultimately show "byte0 (file_bytes t' k (max n (length (spec_writes ws [])))) x =
      byte0 (spec_writes ws (file_bytes t k n)) x"
    using x at byte0_spec_writes [of ws "file_bytes t k n" x] by (simp add: byte0_file_bytes)
qed

lemma flush_handle_calm:
  assumes "fates d = []" and "keys_ok (tabs d)" and "map_of handles fh = Some h"
    and "is_file (tabs d) (hb_parent h, hb_name h) n" and "n < 2 ^ 63" and "max_size h < 2 ^ 63"
    and "distinct (map fst (dirty_blocks h))" and "dirty_blocks h \<noteq> [] \<or> 0 < max_size h"
  shows "\<exists>d'. flush_handle fh handles d =
      (Inr (), AList.update fh (h\<lparr>dirty_blocks := [], max_size := 0\<rparr>) (AList.delete fh handles), d') \<and>
    fates d' = [] \<and>
    batched (hb_parent h, hb_name h) n (dirty_blocks h) (max_size h) (tabs d) (tabs d')"
proof -
  obtain d' where "write_blocks_batch (hb_parent h) (hb_name h) (dirty_blocks h) (max_size h) d =
      (Inr (), d')" "fates d' = []"
    "batched (hb_parent h, hb_name h) n (dirty_blocks h) (max_size h) (tabs d) (tabs d')"
    using write_blocks_batch_calm [OF assms(1,2,4,5,6,7)] by blast
  with assms(3,8) show ?thesis by (simp add: flush_handle_def Let_def)
qed

end
