(* ===== verification/Db_Namespace.thy ===== *)
theory Db_Namespace
  imports Db_Reads
begin

text \<open>
  The half of \<open>struct Db\<close> that changes the directory tree: \<open>create\<close>, \<open>mkdir\<close>,
  \<open>unlink\<close>, \<open>rmdir\<close> and \<open>rename\<close>, and which of them are atomic under any fates.
\<close>

section \<open>The operations\<close>

definition create :: "string \<Rightarrow> string \<Rightarrow> unit dbm" where
  "create parent name =
     db_bind (pg_exec_now Create_file (insert_entry (parent, name) ''file''))
       (\<lambda>_. timed_return ())"

definition mkdir :: "string \<Rightarrow> string \<Rightarrow> unit dbm" where
  "mkdir parent name =
     db_bind (pg_exec_now Create_dir (insert_entry (parent, name) ''dir''))
       (\<lambda>_. timed_return ())"

text \<open>Two statements, each its own transaction.\<close>

definition unlink :: "string \<Rightarrow> string \<Rightarrow> unit dbm" where
  "unlink parent name =
     db_bind (pg_exec Remove_entry (delete_entry (parent, name))) (\<lambda>_.
       db_bind (pg_exec Remove_blocks (delete_blocks (parent, name))) (\<lambda>_.
         timed_return ()))"

definition rmdir :: "string \<Rightarrow> string \<Rightarrow> bool dbm" where
  "rmdir parent name =
     db_bind (pg_exec Check_empty (sql_opt (select_one_child (join parent name)))) (\<lambda>has_children.
       if has_children \<noteq> None then timed_return False
       else
         db_bind (pg_exec Remove_entry (delete_entry (parent, name))) (\<lambda>deleted.
           timed_return (0 < deleted)))"

text \<open>The part of the rename transaction that replaces an existing target.\<close>

definition rename_target :: "string \<Rightarrow> string \<Rightarrow> unit dbm" where
  "rename_target new_parent new_name =
     (let new_path = join new_parent new_name in
      db_bind (pg_exec Check_target (sql_opt (select_entry (new_parent, new_name)))) (\<lambda>target.
        case target of
          None \<Rightarrow> db_return ()
        | Some target_row \<Rightarrow>
            db_bind
              (if e_kind target_row = ''dir'' then
                 db_bind (pg_exec Check_empty (sql_opt (select_one_child new_path)))
                   (\<lambda>has_children.
                     if has_children \<noteq> None then db_fail (Target_not_empty new_path)
                     else db_return ())
               else db_return ())
              (\<lambda>_.
                db_bind (pg_exec Remove_entry (delete_entry (new_parent, new_name))) (\<lambda>_.
                  db_bind (pg_exec Remove_blocks (delete_blocks (new_parent, new_name)))
                    (\<lambda>_. db_return ())))))"

text \<open>The part that rewrites the paths below a renamed directory.\<close>

definition rename_descendants :: "kind \<Rightarrow> string \<Rightarrow> string \<Rightarrow> unit dbm" where
  "rename_descendants k old_path new_path =
     (if k = Dir then
        let n = nat (as_i32 (length old_path)) in
        db_bind (pg_exec Rewrite_entries (rewrite_entries new_path n old_path)) (\<lambda>_.
          db_bind (pg_exec Rewrite_blocks (rewrite_blocks new_path n old_path))
            (\<lambda>_. db_return ()))
      else db_return ())"

definition rename_txn :: "string \<Rightarrow> string \<Rightarrow> string \<Rightarrow> string \<Rightarrow> file_meta \<Rightarrow> unit dbm" where
  "rename_txn old_parent old_name new_parent new_name meta =
     (let old_path = join old_parent old_name; new_path = join new_parent new_name in
      db_bind (rename_target new_parent new_name) (\<lambda>_.
        db_bind (rename_descendants (m_kind meta) old_path new_path) (\<lambda>_.
          db_bind
            (pg_exec_now Move_entry (move_entry (new_parent, new_name) (old_parent, old_name)))
            (\<lambda>moved.
              db_bind
                (pg_exec Move_blocks (move_blocks (new_parent, new_name) (old_parent, old_name)))
                (\<lambda>_. if moved = 0 then db_fail (Zero_rows old_path) else db_return ())))))"

definition rename :: "string \<Rightarrow> string \<Rightarrow> string \<Rightarrow> string \<Rightarrow> unit dbm" where
  "rename old_parent old_name new_parent new_name =
     (if old_parent = new_parent \<and> old_name = new_name then db_return ()
      else
        db_bind (getattr_primary old_parent old_name) (\<lambda>found.
          case found of
            None \<Rightarrow> db_fail (No_source (join old_parent old_name))
          | Some meta \<Rightarrow>
              db_bind (pg_transaction (rename_txn old_parent old_name new_parent new_name meta))
                (\<lambda>_. timed_return ())))"

section \<open>Atomicity\<close>

lemma steady_create: "steady (create parent name)"
  and steady_mkdir: "steady (mkdir parent name)"
  and steady_unlink: "steady (unlink parent name)"
  and steady_rmdir: "steady (rmdir parent name)"
  unfolding create_def mkdir_def unlink_def rmdir_def
  by (intro steady_intros)+

lemma atomic_create: "atomic (create parent name)"
  and atomic_mkdir: "atomic (mkdir parent name)"
  unfolding create_def mkdir_def
  by (intro atomic_before_quiet steady_exec_now atomic_exec_now quiet_timed)+

lemma atomic_rmdir: "atomic (rmdir parent name)"
  unfolding rmdir_def
  by (rule atomic_after_read [OF steady_exec quiet_opt])
    (auto intro: atomic_quiet quiet_timed atomic_before_quiet steady_exec atomic_exec)

lemma steady_rename_target: "steady (rename_target new_parent new_name)"
  unfolding rename_target_def Let_def
  by (auto intro!: steady_intros split: option.split)

lemma steady_rename_descendants: "steady (rename_descendants k old_path new_path)"
  unfolding rename_descendants_def Let_def by (intro steady_intros)

lemma steady_rename_txn: "steady (rename_txn old_parent old_name new_parent new_name meta)"
  unfolding rename_txn_def Let_def
  by (intro steady_intros steady_rename_target steady_rename_descendants)

lemma steady_rename: "steady (rename old_parent old_name new_parent new_name)"
  unfolding rename_def
  by (auto intro!: steady_intros steady_getattr_primary steady_rename_txn split: option.split)

lemma atomic_rename: "atomic (rename old_parent old_name new_parent new_name)"
proof (cases "old_parent = new_parent \<and> old_name = new_name")
  case True
  then show ?thesis by (simp add: rename_def atomic_quiet quiet_return)
next
  case False
  have "atomic (db_bind (getattr_primary old_parent old_name) (\<lambda>found.
          case found of
            None \<Rightarrow> db_fail (No_source (join old_parent old_name))
          | Some meta \<Rightarrow>
              db_bind (pg_transaction (rename_txn old_parent old_name new_parent new_name meta))
                (\<lambda>_. timed_return ())))"
    by (rule atomic_after_read [OF steady_getattr_primary quiet_getattr_primary])
      (simp add: atomic_quiet quiet_fail atomic_txn_then steady_rename_txn quiet_timed
        split: option.split)
  moreover have "\<not> (old_parent = new_parent \<and> old_name = new_name)" by fact
  ultimately show ?thesis by (simp only: rename_def if_False)
qed

interpretation cr: atomic_op "create parent name" for parent name
  by unfold_locales (rule steady_create atomic_create)+

interpretation mk: atomic_op "mkdir parent name" for parent name
  by unfold_locales (rule steady_mkdir atomic_mkdir)+

interpretation rd: atomic_op "rmdir parent name" for parent name
  by unfold_locales (rule steady_rmdir atomic_rmdir)+

interpretation rn: atomic_op "rename old_parent old_name new_parent new_name"
  for old_parent old_name new_parent new_name
  by unfold_locales (rule steady_rename atomic_rename)+

section \<open>What the small operations do\<close>

lemma exec_opt_calm:
  "fates s = [] \<Longrightarrow> pg_exec step (sql_opt g) s =
    (case sql_opt g (tabs s) of None \<Rightarrow> (Inl (Query_failed step), s) | Some (r, t) \<Rightarrow> (Inr r, s\<lparr>tabs := t\<rparr>))"
  by (simp add: pg_exec_calm run_stmt_def)

lemma sql_opt_one_child:
  "sql_opt (select_one_child p) t = Some (find (\<lambda>r. e_parent r = p) (entries t), t)"
proof -
  have "take 1 (filter P xs) = (case find P xs of None \<Rightarrow> [] | Some x \<Rightarrow> [x])"
    for P :: "entry \<Rightarrow> bool" and xs
    by (induction xs) (auto split: option.split)
  then show ?thesis by (simp add: sql_opt_def select_one_child_def split: option.split)
qed

definition childless :: "tables \<Rightarrow> string \<Rightarrow> bool" where
  "childless t p \<longleftrightarrow> (\<forall>r \<in> set (entries t). e_parent r \<noteq> p)"

lemma find_child_None: "find (\<lambda>r. e_parent r = p) (entries t) = None \<longleftrightarrow> childless t p"
  by (auto simp: find_None_iff childless_def)

lemma insert_calm:
  assumes "fates s = []" and "op = db_bind (pg_exec_now step (insert_entry k kind)) (\<lambda>_. timed_return ())"
  shows "op s = (Inr (), record_latency (s\<lparr>tabs :=
    (case ent (tabs s) k of
       None \<Rightarrow> (tabs s)\<lparr>entries := entries (tabs s) @ [new_entry k kind (pg_now s)]\<rparr>
     | Some _ \<Rightarrow> tabs s)\<rparr>))"
  using assms
  by (cases "ent (tabs s) k")
    (simp_all add: db_bind_def pg_exec_now_calm run_stmt_def insert_entry_new insert_entry_old
      timed_return_def)

lemmas create_calm = insert_calm [OF _ create_def]
lemmas mkdir_calm = insert_calm [OF _ mkdir_def]

lemma unlink_calm:
  "fates s = [] \<Longrightarrow> unlink parent name s = (Inr (), record_latency (s\<lparr>tabs :=
    (tabs s)\<lparr>entries := filter (\<lambda>r. entry_key r \<noteq> (parent, name)) (entries (tabs s)),
             blocks := filter (\<lambda>b. block_file b \<noteq> (parent, name)) (blocks (tabs s))\<rparr>\<rparr>))"
  by (simp add: unlink_def db_bind_def pg_exec_calm run_stmt_def delete_entry_def delete_blocks_def
      timed_return_def)

lemma rmdir_calm:
  assumes "fates s = []"
  shows "rmdir parent name s =
    (if childless (tabs s) (join parent name)
     then (Inr (select_entry (parent, name) (tabs s) \<noteq> []), record_latency (s\<lparr>tabs := (tabs s)\<lparr>entries :=
             filter (\<lambda>r. entry_key r \<noteq> (parent, name)) (entries (tabs s))\<rparr>\<rparr>))
     else (Inr False, record_latency s))"
  using assms find_child_None [of "join parent name" "tabs s"]
  by (auto simp: rmdir_def db_bind_def exec_opt_calm sql_opt_one_child pg_exec_calm run_stmt_def
      delete_entry_def timed_return_def)

text \<open>A fault between the two statements of \<open>unlink\<close> leaves the blocks behind.\<close>

lemma unlink_halfway:
  "fates s = [Served, Refused] \<Longrightarrow> unlink parent name s = (Inl (Query_failed Remove_blocks),
    s\<lparr>fates := [], tabs := (tabs s)\<lparr>entries :=
        filter (\<lambda>r. entry_key r \<noteq> (parent, name)) (entries (tabs s))\<rparr>\<rparr>)"
  by (simp add: unlink_def db_bind_def pg_exec_def run_stmt_def delete_entry_def)

end
