(* ===== verification/Dir_Tree.thy ===== *)
theory Dir_Tree
  imports Db_Namespace File_Contents
begin

text \<open>
  The rows of \<open>entries\<close> as a directory tree: every row's parent is the root or the path of
  a directory row, and every row of \<open>blocks\<close> belongs to a file row. The operations of
  \<open>Db\<close> keep both; the exception, \<open>unlink\<close> cut short, is stated as what it leaves.
\<close>

section \<open>The invariant\<close>

definition path_of :: "entry \<Rightarrow> string" where
  "path_of r = join (e_parent r) (e_name r)"

definition name_ok :: "string \<Rightarrow> bool" where
  "name_ok n \<longleftrightarrow> n \<noteq> [] \<and> plain_name n \<and> utf8_valid n"

definition dir_path :: "tables \<Rightarrow> string \<Rightarrow> bool" where
  "dir_path t p \<longleftrightarrow> p = [] \<or> (\<exists>d \<in> set (entries t). e_kind d = ''dir'' \<and> path_of d = p)"

definition entry_ok :: "tables \<Rightarrow> entry \<Rightarrow> bool" where
  "entry_ok t r \<longleftrightarrow> name_ok (e_name r) \<and> utf8_valid (e_parent r) \<and> dir_path t (e_parent r) \<and>
     (e_kind r = ''file'' \<or> e_kind r = ''dir'') \<and> 0 \<le> e_size r"

definition tree_ok :: "tables \<Rightarrow> bool" where
  "tree_ok t \<longleftrightarrow> keys_ok t \<and> (\<forall>r \<in> set (entries t). entry_ok t r)"

definition no_orphans :: "tables \<Rightarrow> bool" where
  "no_orphans t \<longleftrightarrow> (\<forall>b \<in> set (blocks t).
     \<exists>r \<in> set (entries t). entry_key r = block_file b \<and> e_kind r = ''file'')"

definition well_formed :: "tables \<Rightarrow> bool" where
  "well_formed t \<longleftrightarrow> tree_ok t \<and> no_orphans t"

lemma tree_rows_ok: "tree_ok t \<Longrightarrow> rows_ok t"
  by (auto simp: tree_ok_def rows_ok_def entry_ok_def)

lemma tree_keys_ok: "tree_ok t \<Longrightarrow> keys_ok t"
  by (simp add: tree_ok_def)

lemma entry_key_path:
  "name_ok (e_name r) \<Longrightarrow> name_ok (e_name q) \<Longrightarrow> path_of r = path_of q \<longleftrightarrow> entry_key r = entry_key q"
  using join_inject [of "e_name r" "e_name q" "e_parent r" "e_parent q"]
  by (auto simp: path_of_def entry_key_def name_ok_def)

lemma path_of_key: "entry_key r = (p, n) \<Longrightarrow> path_of r = join p n"
  by (simp add: path_of_def entry_key_def)

lemma tree_entry: "tree_ok t \<Longrightarrow> r \<in> set (entries t) \<Longrightarrow> entry_ok t r"
  by (simp add: tree_ok_def)

text \<open>A row with the path of another is that row.\<close>

lemma tree_path_unique:
  assumes "tree_ok t" and "r \<in> set (entries t)" and "q \<in> set (entries t)" and "path_of r = path_of q"
  shows "r = q"
proof -
  have "entry_key r = entry_key q"
    using assms tree_entry [OF assms(1)] entry_key_path by (auto simp: entry_ok_def)
  with assms show ?thesis by (auto simp: tree_ok_def keys_ok_def dest: distinct_key_unique)
qed

section \<open>Ancestors\<close>

text \<open>Every proper prefix of a row's parent that ends before a slash is a directory.\<close>

lemma ancestor_dir:
  assumes "tree_ok t" and "r \<in> set (entries t)" and "e_parent r = a @ slash # b" and "a \<noteq> []"
  shows "dir_path t a \<and> \<not> childless t a"
  using assms(2,3)
proof (induction "length b" arbitrary: r b rule: less_induct)
  case less
  from tree_entry [OF assms(1) less.prems(1)] less.prems(2) obtain d where
    d: "d \<in> set (entries t)" "e_kind d = ''dir''" "path_of d = a @ slash # b"
    by (auto simp: entry_ok_def dir_path_def)
  from tree_entry [OF assms(1) d(1)] have nm: "plain_name (e_name d)" "e_name d \<noteq> []"
    and dp: "dir_path t (e_parent d)" by (simp_all add: entry_ok_def name_ok_def)
  have sp: "split_path (a @ slash # b) = (e_parent d, e_name d)"
    using split_join [OF nm(1), of "e_parent d"] d(3) by (simp add: path_of_def)
  show ?case
  proof (cases "slash \<in> set b")
    case False
    then have "split_path (a @ slash # b) = (a, b)"
      using rfind_slash_append [OF False, of a] by (simp add: split_path_def)
    with sp d(1) dp show ?thesis by (auto simp: childless_def)
  next
    case True
    then obtain i where i: "rfind_slash b = Some i" by (metis not_None_eq rfind_slash_None)
    have "rfind_slash (xs @ slash # b) = Some (length xs + Suc i)" for xs
      using i by (induction xs) simp_all
    then have "e_parent d = a @ slash # take i b"
      using sp by (simp add: split_path_def)
    moreover have "length (take i b) < length b"
      using rfind_slash_Some [OF i] by simp
    ultimately show ?thesis using less.hyps d(1) by blast
  qed
qed

text \<open>Nothing lies below a path that is no directory or has no children.\<close>

definition inside :: "string \<Rightarrow> string \<Rightarrow> bool" where
  "inside p parent \<longleftrightarrow> parent = p \<or> prefix (p @ [slash]) parent"

lemma nothing_inside:
  assumes "tree_ok t" and "p \<noteq> []" and "\<not> dir_path t p \<or> childless t p"
    and "r \<in> set (entries t)"
  shows "\<not> inside p (e_parent r)"
proof
  assume "inside p (e_parent r)"
  then consider "e_parent r = p" | b where "e_parent r = p @ slash # b"
    by (auto simp: inside_def elim!: prefixE)
  then show False
  proof cases
    case 1
    with assms tree_entry [OF assms(1,4)] show False by (auto simp: entry_ok_def childless_def)
  next
    case 2
    from ancestor_dir [OF assms(1,4) 2 assms(2)] assms(3) show False by simp
  qed
qed

section \<open>The small operations keep the tree\<close>

lemma dir_path_mono: "set (entries t) \<subseteq> set (entries t') \<Longrightarrow> dir_path t p \<Longrightarrow> dir_path t' p"
  by (auto simp: dir_path_def)

lemma tree_ok_insert:
  assumes "tree_ok t" and "dir_path t p" and "utf8_valid p" and "name_ok n" and "ent t (p, n) = None"
    and "kind = ''file'' \<or> kind = ''dir''"
  shows "tree_ok (t\<lparr>entries := entries t @ [new_entry (p, n) kind now]\<rparr>)" (is "tree_ok ?t")
proof -
  have "keys_ok ?t" using keys_ok_insert_entry [OF tree_keys_ok [OF assms(1)] insert_entry_new [OF assms(5)]] .
  moreover have mono: "dir_path t q \<Longrightarrow> dir_path ?t q" for q by (rule dir_path_mono) auto
  moreover have "entry_ok ?t (new_entry (p, n) kind now)"
    using assms mono by (auto simp: entry_ok_def new_entry_def)
  ultimately show ?thesis
    using assms(1) by (auto simp: tree_ok_def entry_ok_def)
qed

lemma no_orphans_insert: "no_orphans t \<Longrightarrow> no_orphans (t\<lparr>entries := entries t @ [r]\<rparr>)"
  by (auto simp: no_orphans_def)

lemma tree_ok_remove:
  assumes "tree_ok t" and "\<And>r. r \<in> set (entries t) \<Longrightarrow> entry_key r = k \<Longrightarrow>
      e_kind r \<noteq> ''dir'' \<or> childless t (path_of r)"
    and "set bs \<subseteq> set (blocks t)" and "distinct (map block_key bs)"
  shows "tree_ok (t\<lparr>entries := filter (\<lambda>r. entry_key r \<noteq> k) (entries t), blocks := bs\<rparr>)"
    (is "tree_ok ?t")
proof -
  have "keys_ok ?t" using assms(1,4) by (simp add: tree_ok_def keys_ok_def)
  moreover have "dir_path ?t (e_parent r)" if r: "r \<in> set (entries t)" for r
  proof (cases "e_parent r = []")
    case True
    then show ?thesis by (simp add: dir_path_def)
  next
    case False
    with tree_entry [OF assms(1) r] obtain d where
      d: "d \<in> set (entries t)" "e_kind d = ''dir''" "path_of d = e_parent r"
      by (auto simp: entry_ok_def dir_path_def)
    from assms(2) [OF d(1)] d r have "entry_key d \<noteq> k" by (auto simp: childless_def)
    with d show ?thesis by (auto simp: dir_path_def)
  qed
  ultimately show ?thesis using assms(1) by (auto simp: tree_ok_def entry_ok_def)
qed

lemma no_orphans_unlink:
  "no_orphans t \<Longrightarrow> no_orphans (t\<lparr>entries := filter (\<lambda>r. entry_key r \<noteq> k) (entries t),
     blocks := filter (\<lambda>b. block_file b \<noteq> k) (blocks t)\<rparr>)"
  by (fastforce simp: no_orphans_def)

lemma no_orphans_remove_dir:
  assumes "no_orphans t" and "keys_ok t" and "\<And>r. ent t k = Some r \<Longrightarrow> e_kind r = ''dir''"
  shows "no_orphans (t\<lparr>entries := filter (\<lambda>r. entry_key r \<noteq> k) (entries t)\<rparr>)"
  unfolding no_orphans_def
proof
  fix b
  assume "b \<in> set (blocks (t\<lparr>entries := filter (\<lambda>r. entry_key r \<noteq> k) (entries t)\<rparr>))"
  then obtain r where r: "r \<in> set (entries t)" "entry_key r = block_file b" "e_kind r = ''file''"
    using assms(1) by (auto simp: no_orphans_def)
  then have "entry_key r \<noteq> k" using assms(3) [of r] ent_iff [OF assms(2)] by auto
  with r show "\<exists>r \<in> set (entries (t\<lparr>entries := filter (\<lambda>r. entry_key r \<noteq> k) (entries t)\<rparr>)).
      entry_key r = block_file b \<and> e_kind r = ''file''" by auto
qed

section \<open>Changing one file keeps the tree\<close>

lemma others_sameD:
  assumes "others_same k t t'" and "k' \<noteq> k"
  shows "ent t' k' = ent t k'" and "blk t' k' = blk t k'"
  using assms unfolding others_same_def by blast+

lemma blk_in_set: "blk t k no = Some d \<Longrightarrow> \<exists>b \<in> set (blocks t). block_key b = (k, no)"
  by (auto simp: blk_def dest: find_Some_in)

lemma in_set_blk:
  "keys_ok t \<Longrightarrow> b \<in> set (blocks t) \<Longrightarrow> blk t (block_file b) (b_no b) = Some (b_data b)"
proof -
  assume k: "keys_ok t" and b: "b \<in> set (blocks t)"
  have "find (\<lambda>q. block_key q = block_key b) (blocks t) = Some b"
    using k b by (subst find_in_set) (auto simp: keys_ok_def)
  then show ?thesis by (simp add: blk_def block_key_def block_file_def)
qed

lemma no_orphans_iff:
  assumes "keys_ok t"
  shows "no_orphans t \<longleftrightarrow> (\<forall>k no. blk t k no \<noteq> None \<longrightarrow> (\<exists>r. ent t k = Some r \<and> e_kind r = ''file''))"
proof
  assume no: "no_orphans t"
  show "\<forall>k no. blk t k no \<noteq> None \<longrightarrow> (\<exists>r. ent t k = Some r \<and> e_kind r = ''file'')"
  proof (intro allI impI)
    fix k no
    assume "blk t k no \<noteq> None"
    then obtain b where "b \<in> set (blocks t)" "block_file b = k"
      using blk_in_set by (fastforce simp: block_file_def block_key_def)
    with no show "\<exists>r. ent t k = Some r \<and> e_kind r = ''file''"
      by (auto simp: no_orphans_def ent_iff [OF assms])
  qed
next
  assume "\<forall>k no. blk t k no \<noteq> None \<longrightarrow> (\<exists>r. ent t k = Some r \<and> e_kind r = ''file'')"
  then have "\<exists>r. ent t (block_file b) = Some r \<and> e_kind r = ''file''"
    if "b \<in> set (blocks t)" for b
    using in_set_blk [OF assms that] by (metis option.distinct(1))
  then show "no_orphans t" by (fastforce simp: no_orphans_def ent_iff [OF assms])
qed

text \<open>Every row has its counterpart in tables that agree on all other files.\<close>

lemma row_kept:
  assumes "keys_ok t" and "keys_ok t'" and "others_same k t t'" and "is_file t k n" and "is_file t' k m"
    and "r \<in> set (entries t)"
  obtains r' where "r' \<in> set (entries t')" and "e_parent r' = e_parent r" and "e_name r' = e_name r"
    and "e_kind r' = e_kind r"
proof (cases "entry_key r = k")
  case True
  with assms have "ent t k = Some r" by (simp add: ent_iff)
  with assms obtain r' where "ent t' k = Some r'" "e_kind r' = e_kind r"
    by (auto simp: is_file_def)
  with True assms(2) show ?thesis by (intro that [of r']) (auto simp: ent_iff entry_key_def)
next
  case False
  with assms have "ent t' (entry_key r) = Some r"
    using others_sameD(1) [OF assms(3) False] ent_iff [OF assms(1)] by simp
  with assms(2) show ?thesis by (intro that [of r]) (auto simp: ent_iff)
qed

lemma file_changed:
  assumes "tree_ok t" and "no_orphans t" and k': "keys_ok t'" and oth: "others_same k t t'"
    and "is_file t k n" and "is_file t' k m"
  shows "tree_ok t' \<and> no_orphans t'"
proof
  have k: "keys_ok t" using assms(1) by (rule tree_keys_ok)
  have sym: "others_same k t' t" using oth by (simp add: others_same_def)
  have dirs: "dir_path t' p" if "dir_path t p" for p
  proof (cases "p = []")
    case False
    with that obtain d where d: "d \<in> set (entries t)" "e_kind d = ''dir''" "path_of d = p"
      by (auto simp: dir_path_def)
    obtain d' where "d' \<in> set (entries t')" "e_parent d' = e_parent d" "e_name d' = e_name d"
      "e_kind d' = e_kind d" by (rule row_kept [OF k k' oth assms(5,6) d(1)])
    with d show ?thesis by (auto simp: dir_path_def path_of_def)
  qed (simp add: dir_path_def)
  have "entry_ok t' r'" if r': "r' \<in> set (entries t')" for r'
  proof -
    obtain r where r: "r \<in> set (entries t)"
      "e_parent r = e_parent r'" "e_name r = e_name r'" "e_kind r = e_kind r'" by (rule row_kept [OF k' k sym assms(6,5) r'])
    have "0 \<le> e_size r'"
    proof (cases "entry_key r' = k")
      case True
      with r' k' assms(6) show ?thesis by (auto simp: is_file_def ent_iff dest: distinct_key_unique simp: keys_ok_def)
    next
      case False
      with r' k' have "ent t' (entry_key r') = Some r'" by (simp add: ent_iff)
      with others_sameD(1) [OF oth False] have "ent t (entry_key r') = Some r'" by simp
      with assms(1) k show ?thesis by (auto simp: ent_iff dest: tree_entry simp: entry_ok_def)
    qed
    with tree_entry [OF assms(1) r(1)] r dirs show ?thesis by (simp add: entry_ok_def)
  qed
  with k' show "tree_ok t'" by (simp add: tree_ok_def)
  show "no_orphans t'"
    unfolding no_orphans_iff [OF k']
  proof (intro allI impI)
    fix q no
    assume b: "blk t' q no \<noteq> None"
    show "\<exists>r. ent t' q = Some r \<and> e_kind r = ''file''"
    proof (cases "q = k")
      case True
      with assms(6) show ?thesis by (auto simp: is_file_def)
    next
      case False
      from b have "blk t q no \<noteq> None" by (simp add: others_sameD(2) [OF oth False])
      with assms(2) have "\<exists>r. ent t q = Some r \<and> e_kind r = ''file''"
        unfolding no_orphans_iff [OF k] by blast
      then show ?thesis by (simp only: others_sameD(1) [OF oth False])
    qed
  qed
qed

end
