(* ===== verification/Contents_Correct.thy ===== *)
theory Contents_Correct
  imports Handle_Buffer Dir_Tree
begin

text \<open>
  The properties of file contents under any faults of the database: what an operation
  that returns has done, and that one that fails has done nothing or all of it.
\<close>

section \<open>A small database\<close>

definition db_with :: "tables \<Rightarrow> fate list \<Rightarrow> db" where
  "db_with t fs = \<lparr>tabs = t, fates = fs, pg_now = 0, replica = None, freshness_cached = False,
     freshness_checked_at = None, mono_now = 0, elapsed = [], stats = statics_init\<rparr>"

definition demo_entry :: "string \<Rightarrow> string \<Rightarrow> string \<Rightarrow> nat \<Rightarrow> entry" where
  "demo_entry parent name kind n = \<lparr>e_parent = parent, e_name = name, e_kind = kind, e_data = [],
     e_size = int n, e_mtime = 0\<rparr>"

definition demo_block :: "string \<Rightarrow> string \<Rightarrow> int \<Rightarrow> bytes \<Rightarrow> block" where
  "demo_block parent name no d = \<lparr>b_parent = parent, b_name = name, b_no = no, b_data = d\<rparr>"

definition demo :: tables where
  "demo = \<lparr>entries = [demo_entry '''' ''docs'' ''dir'' 0, demo_entry ''docs'' ''a'' ''file'' 3,
              demo_entry ''docs'' ''new'' ''file'' 0],
           blocks = [demo_block ''docs'' ''a'' 0 [1, 2, 3]]\<rparr>"

lemma db_with_simps [simp]:
  "tabs (db_with t fs) = t" "fates (db_with t fs) = fs" "calm (db_with t fs) = db_with t []"
  "pg_now (db_with t fs) = 0" "replica (db_with t fs) = None" "stats (db_with t fs) = statics_init"
  "mono_now (db_with t fs) = 0"
  by (simp_all add: db_with_def calm_def)

lemmas demo_defs = demo_def demo_entry_def demo_block_def

lemma demo_keys: "keys_ok demo"
  by (simp add: keys_ok_def demo_defs entry_key_def block_key_def)

lemma demo_a: "is_file demo (''docs'', ''a'') 3"
  by (simp add: is_file_def ent_def demo_defs entry_key_def)

lemma demo_new: "is_file demo (''docs'', ''new'') 0"
  by (simp add: is_file_def ent_def demo_defs entry_key_def)

lemma demo_new_zero: "byte_at demo (''docs'', ''new'') x = 0"
  by (simp add: byte_at_def stored_byte_def blk_def demo_defs block_key_def)

section \<open>Reading and writing a range\<close>

text \<open>What a successful change of one file has to establish.\<close>

definition stores :: "tables \<Rightarrow> key \<Rightarrow> bytes \<Rightarrow> tables \<Rightarrow> bool" where
  "stores t k bs t' \<longleftrightarrow> keys_ok t' \<and> is_file t' k (length bs) \<and> file_bytes t' k (length bs) = bs \<and>
     others_same k t t'"

lemma wrote_stores:
  "wrote k n offset data t t' \<Longrightarrow> offset \<le> n \<or> tail_zero t k n \<Longrightarrow>
    stores t k (spec_write offset data (file_bytes t k n)) t'"
  using wrote_bytes [of k n offset data t t'] by (simp add: stores_def) (simp add: wrote_def)

lemma truncated_stores:
  "truncated k n m t t' \<Longrightarrow> m \<le> n \<or> tail_zero t k n \<Longrightarrow>
    stores t k (spec_truncate m (file_bytes t k n)) t'"
  using truncated_bytes [of k n m t t'] by (simp add: stores_def) (simp add: truncated_def)

text \<open>C1. Whatever the network does, \<open>write_range\<close> on a file leaves the tables as they were
  or stores exactly the abstract write, with no other file or entry changed; and when it
  returns without an error it has stored it.\<close>

theorem write_range_correct:
  assumes "keys_ok (tabs s)" and "is_file (tabs s) (parent, name) n" and "n < 2 ^ 63"
    and "data \<noteq> []" and "offset + length data \<le> MAX_BYTES"
    and "offset \<le> n \<or> tail_zero (tabs s) (parent, name) n"
    and run: "write_range parent name offset data s = (r, s')"
  defines "goal \<equiv> stores (tabs s) (parent, name)
      (spec_write offset data (file_bytes (tabs s) (parent, name) n)) (tabs s')"
  shows "(tabs s' = tabs s \<or> goal) \<and> (r = Inr () \<longrightarrow> goal)"
proof -
  obtain u where u: "write_range parent name offset data (calm s) = (Inr (), u)"
    "wrote (parent, name) n offset data (tabs s) (tabs u)"
    using write_range_calm [of "calm s" parent name n data offset] assms by auto
  from wrote_stores [OF u(2) assms(6)] have "tabs s' = tabs u \<Longrightarrow> goal" by (simp add: goal_def)
  moreover have "tabs s' = tabs s \<or> tabs s' = tabs u"
    using wr.all_or_nothing [of parent name offset data s] by (simp add: run u(1))
  moreover have "r = Inr () \<Longrightarrow> tabs s' = tabs u"
    using wr.success_tabs [of parent name offset data s] by (simp add: run u(1))
  ultimately show ?thesis by blast
qed

theorem write_range_correct_witness:
  "tabs (snd (write_range ''docs'' ''a'' 2 [7, 8] (db_with demo [Served, Refused]))) = demo \<or>
   stores demo (''docs'', ''a'') (spec_write 2 [7, 8] (file_bytes demo (''docs'', ''a'') 3))
     (tabs (snd (write_range ''docs'' ''a'' 2 [7, 8] (db_with demo [Served, Refused]))))"
  using write_range_correct [of "db_with demo [Served, Refused]" "''docs''" "''a''" 3 "[7, 8]" 2
      "fst (write_range ''docs'' ''a'' 2 [7, 8] (db_with demo [Served, Refused]))"
      "snd (write_range ''docs'' ''a'' 2 [7, 8] (db_with demo [Served, Refused]))"]
    demo_keys demo_a by simp

text \<open>C2. The same for \<open>truncate\<close>: shrinking keeps the prefix, growing appends zeros where
  nothing is stored past the end.\<close>

theorem truncate_correct:
  assumes "keys_ok (tabs s)" and "is_file (tabs s) (parent, name) n" and "n \<le> MAX_BYTES"
    and "new_size < 2 ^ 63" and "new_size \<le> n \<or> tail_zero (tabs s) (parent, name) n"
    and run: "db_truncate parent name new_size s = (r, s')"
  defines "goal \<equiv> stores (tabs s) (parent, name)
      (spec_truncate new_size (file_bytes (tabs s) (parent, name) n)) (tabs s')"
  shows "(tabs s' = tabs s \<or> goal) \<and> (r = Inr () \<longrightarrow> goal)"
proof -
  obtain u where u: "db_truncate parent name new_size (calm s) = (Inr (), u)"
    "truncated (parent, name) n new_size (tabs s) (tabs u)"
    using truncate_calm [of "calm s" parent name n new_size] assms by auto
  from truncated_stores [OF u(2) assms(5)] have "tabs s' = tabs u \<Longrightarrow> goal" by (simp add: goal_def)
  moreover have "tabs s' = tabs s \<or> tabs s' = tabs u"
    using tr.all_or_nothing [of parent name new_size s] by (simp add: run u(1))
  moreover have "r = Inr () \<Longrightarrow> tabs s' = tabs u"
    using tr.success_tabs [of parent name new_size s] by (simp add: run u(1))
  ultimately show ?thesis by blast
qed

theorem truncate_correct_witness:
  "stores demo (''docs'', ''a'') (spec_truncate 2 (file_bytes demo (''docs'', ''a'') 3))
     (tabs (snd (db_truncate ''docs'' ''a'' 2 (db_with demo []))))"
proof -
  obtain u where u: "db_truncate ''docs'' ''a'' 2 (db_with demo []) = (Inr (), u)"
    using truncate_calm [of "db_with demo []" "''docs''" "''a''" 3 2] demo_keys demo_a by auto
  show ?thesis using truncate_correct [OF _ _ _ _ _ u, of 3] demo_keys demo_a by (simp add: u)
qed

text \<open>C6. When a write and a later read of a file both return, under any faults, the read
  returns the requested part of the file with the written bytes in place.\<close>

theorem write_then_read:
  assumes "keys_ok (tabs s)" and "is_file (tabs s) (parent, name) n" and "n \<le> MAX_BYTES"
    and "data \<noteq> []" and "offset + length data \<le> MAX_BYTES"
    and "offset \<le> n \<or> tail_zero (tabs s) (parent, name) n"
    and w: "write_range parent name offset data s = (Inr (), s1)"
    and r: "read_range_primary parent name pos len (s1\<lparr>fates := fs\<rparr>) = (Inr found, s2)"
  shows "found = Some (spec_read pos len
    (spec_write offset data (file_bytes (tabs s) (parent, name) n)))"
proof -
  let ?k = "(parent, name)" and ?bs = "spec_write offset data (file_bytes (tabs s) (parent, name) n)"
  let ?s1 = "s1\<lparr>fates := fs\<rparr>"
  obtain u where u: "write_range parent name offset data (calm s) = (Inr (), u)"
    "wrote ?k n offset data (tabs s) (tabs u)"
    using write_range_calm [of "calm s" parent name n data offset] assms by auto
  have "tabs s1 = tabs u" using wr.success_tabs [OF w] by (simp add: u(1))
  with wrote_stores [OF u(2) assms(6)] have st: "keys_ok (tabs ?s1)" "is_file (tabs ?s1) ?k (length ?bs)"
    "file_bytes (tabs ?s1) ?k (length ?bs) = ?bs" by (simp_all add: stores_def)
  have "length ?bs \<le> MAX_BYTES" using assms(3,5) by simp
  then have "fst (read_range_primary parent name pos len v) = Inr (Some (spec_read pos len ?bs))"
    if "fates v = []" "tabs v = tabs ?s1" for v
    using read_range_primary_calm [of v parent name "length ?bs" pos len] st that
    by (simp only: spec_read_def)
  from rr.result_of_calm [OF this r] show ?thesis by simp
qed

theorem write_then_read_witness:
  "fst (read_range_primary ''docs'' ''a'' 1 5
     (snd (write_range ''docs'' ''a'' 2 [7, 8] (db_with demo [])))) =
   Inr (Some (spec_read 1 5 (spec_write 2 [7, 8] (file_bytes demo (''docs'', ''a'') 3))))"
proof -
  obtain s1 where s1: "write_range ''docs'' ''a'' 2 [7, 8] (db_with demo []) = (Inr (), s1)"
    "fates s1 = []" "wrote (''docs'', ''a'') 3 2 [7, 8] demo (tabs s1)"
    using write_range_calm [of "db_with demo []" "''docs''" "''a''" 3 "[7, 8]" 2] demo_keys demo_a
    by auto
  then obtain found s2 where r: "read_range_primary ''docs'' ''a'' 1 5 s1 = (Inr found, s2)"
    using read_range_primary_calm [of s1 "''docs''" "''a''" 4 1 5]
    by (cases "read_range_primary ''docs'' ''a'' 1 5 s1") (auto simp: wrote_def)
  have "s1\<lparr>fates := []\<rparr> = s1" using s1(2) by simp
  with r write_then_read [of "db_with demo []" "''docs''" "''a''" 3 "[7, 8]" 2 s1 1 5 "[]" found s2]
    s1 demo_keys demo_a show ?thesis by simp
qed

lemma read_range_returns:
  assumes "keys_ok (tabs s)" and "is_file (tabs s) (parent, name) n" and "n \<le> MAX_BYTES"
    and r: "read_range_primary parent name offset len s = (Inr found, s')"
  shows "found = Some (spec_read offset len (file_bytes (tabs s) (parent, name) n)) \<and>
    tabs s' = tabs s"
proof
  have "fst (read_range_primary parent name offset len v) =
      Inr (Some (spec_read offset len (file_bytes (tabs s) (parent, name) n)))"
    if "fates v = []" "tabs v = tabs s" for v
    using read_range_primary_calm [of v parent name n offset len] assms(1-3) that
    by (simp only: spec_read_def)
  from rr.result_of_calm [OF this r]
  show "found = Some (spec_read offset len (file_bytes (tabs s) (parent, name) n))" by simp
  show "tabs s' = tabs s" using rr.tabs_same [of parent name offset len s] r by simp
qed

text \<open>C13. A read of a file that returns, under any faults, returns the requested slice of
  the file's bytes, cut at its end; and it changes no table.\<close>

theorem read_range_correct:
  assumes "keys_ok (tabs s)" and "is_file (tabs s) (parent, name) n" and "n \<le> MAX_BYTES"
    and r: "read_range_primary parent name offset len s = (Inr found, s')"
  shows "found = Some (spec_read offset len (file_bytes (tabs s) (parent, name) n)) \<and>
    tabs s' = tabs s"
  using read_range_returns [OF assms] .

theorem read_range_correct_witness:
  "fst (read_range_primary ''docs'' ''a'' 1 5 (db_with demo [])) =
     Inr (Some (spec_read 1 5 (file_bytes demo (''docs'', ''a'') 3)))"
proof -
  obtain found s' where r: "read_range_primary ''docs'' ''a'' 1 5 (db_with demo []) = (Inr found, s')"
    using read_range_primary_calm [of "db_with demo []" "''docs''" "''a''" 3 1 5] demo_keys demo_a
    by (cases "read_range_primary ''docs'' ''a'' 1 5 (db_with demo [])") auto
  from read_range_correct [OF _ _ _ r, of 3] demo_keys demo_a r show ?thesis by simp
qed

section \<open>Buffered writes\<close>

lemma length_spec_writes_le: "writes_ok ws \<Longrightarrow> length bs \<le> MAX_BYTES \<Longrightarrow> length (spec_writes ws bs) \<le> MAX_BYTES"
proof (induction ws arbitrary: bs)
  case Nil
  then show ?case by simp
next
  case (Cons w ws)
  then show ?case by (cases w) (auto simp: writes_ok_def)
qed

lemma length_spec_writes_MAX: "writes_ok ws \<Longrightarrow> length (spec_writes ws []) \<le> MAX_BYTES"
proof (induction ws)
  case Nil
  then show ?case by simp
next
  case (Cons w ws)
  obtain offset data where w: "w = (offset, data)" by (cases w)
  with Cons length_spec_writes [of ws "spec_write offset data []"] show ?case by simp
qed

lemma handle_new_simps [simp]:
  "hb_parent (handle_new p n) = p" "hb_name (handle_new p n) = n"
  "dirty_blocks (handle_new p n) = []" "max_size (handle_new p n) = 0"
  by (simp_all add: handle_new_def)

lemma flush_handle_batch:
  assumes "map_of handles fh = Some h" and "dirty_blocks h \<noteq> [] \<or> 0 < max_size h"
    and "flush_handle fh handles d = (r, handles', d')"
  shows "write_blocks_batch (hb_parent h) (hb_name h) (dirty_blocks h) (max_size h) d = (r, d')"
  using assms by (auto simp: flush_handle_def Let_def split: prod.splits sum.splits if_splits)

lemma handle_flush_stores:
  assumes "keys_ok (tabs d)" and "is_file (tabs d) (p, n) sz" and "sz \<le> MAX_BYTES"
    and "writes_ok ws" and "ws \<noteq> []" and "tail_zero (tabs d) (p, n) sz"
    and gaps: "\<And>x. int (x div BLOCK_SIZE) \<in> touched ws \<Longrightarrow> \<not> covered ws x \<Longrightarrow>
      byte_at (tabs d) (p, n) x = 0"
    and h: "handle_writes ws (handle_new p n) = Some h"
    and fl: "flush_handle fh (AList.update fh h handles) d = (r, hs, d')"
  defines "goal \<equiv> stores (tabs d) (p, n) (spec_writes ws (file_bytes (tabs d) (p, n) sz)) (tabs d')"
  shows "tabs d' = tabs d \<or> goal" and "r = Inr () \<Longrightarrow> goal"
proof -
  let ?m = "length (spec_writes ws [])"
  obtain ds where w: "handle_writes ws (handle_new p n) =
      Some ((handle_new p n)\<lparr>max_size := ?m, dirty_blocks := ds\<rparr>)"
    and ds: "distinct (map fst ds)" "fst ` set ds = touched ws"
    "\<And>x. buffered ds x = (if covered ws x then byte0 (spec_writes ws []) x else 0)"
    using handle_writes_ok [OF assms(4), of "handle_new p n"] by auto
  have h': "h = (handle_new p n)\<lparr>max_size := ?m, dirty_blocks := ds\<rparr>" using h w by simp
  have m: "?m \<le> MAX_BYTES" using assms(4) by (rule length_spec_writes_MAX)
  have "0 < ?m"
    using assms(4,5) length_spec_writes [of "tl ws" "spec_write (fst (hd ws)) (snd (hd ws)) []"]
    by (cases ws) auto
  then have wb: "write_blocks_batch p n ds ?m d = (r, d')"
    using flush_handle_batch [OF _ _ fl, of h] by (simp add: h' update_conv')
  obtain u where u: "write_blocks_batch p n ds ?m (calm d) = (Inr (), u)"
    "batched (p, n) sz ds ?m (tabs d) (tabs u)"
    using write_blocks_batch_calm [of "calm d" p n sz ?m ds] assms(1-3) m ds(1) by auto
  have at_u: "tabs d' = tabs u \<Longrightarrow> goal"
    using flushed_bytes [OF u(2) assms(4) ds(2,3) assms(6) gaps] u(2)
      length_spec_writes [of ws "file_bytes (tabs d) (p, n) sz"]
    by (simp add: goal_def stores_def) (simp add: batched_def)
  then show "tabs d' = tabs d \<or> goal"
    using wb.all_or_nothing [of p n ds ?m d] by (auto simp: wb u(1))
  assume "r = Inr ()"
  with wb have "tabs d' = tabs (snd (write_blocks_batch p n ds ?m (calm d)))"
    by (intro wb.success_tabs) simp
  with at_u u(1) show goal by simp
qed

text \<open>C7. Writes collected by a handle and then flushed, under any faults, leave the tables
  as they were or store what the writes one after the other would have stored, provided the
  untouched bytes of the touched blocks are zero in the file; no write in range panics.\<close>

theorem buffered_writes_correct:
  assumes "keys_ok (tabs d)" and "is_file (tabs d) (p, n) sz" and "sz \<le> MAX_BYTES"
    and "writes_ok ws" and "ws \<noteq> []" and "tail_zero (tabs d) (p, n) sz"
    and gaps: "\<And>x. int (x div BLOCK_SIZE) \<in> touched ws \<Longrightarrow> \<not> covered ws x \<Longrightarrow>
      byte_at (tabs d) (p, n) x = 0"
  shows "\<exists>h. handle_writes ws (handle_new p n) = Some h \<and>
    (case flush_handle fh (AList.update fh h handles) d of (r, handles', d') \<Rightarrow>
      let goal = stores (tabs d) (p, n) (spec_writes ws (file_bytes (tabs d) (p, n) sz)) (tabs d')
      in (tabs d' = tabs d \<or> goal) \<and> (r = Inr () \<longrightarrow> goal))"
proof -
  obtain h where h: "handle_writes ws (handle_new p n) = Some h"
    using handle_writes_ok [OF assms(4), of "handle_new p n"] by auto
  obtain r hs d' where fl: "flush_handle fh (AList.update fh h handles) d = (r, hs, d')"
    by (cases "flush_handle fh (AList.update fh h handles) d") auto
  from handle_flush_stores [OF assms h fl] h fl show ?thesis by (auto simp: Let_def)
qed

theorem buffered_writes_correct_witness:
  "\<exists>h. handle_writes [(1, [7, 8]), (0, [9])] (handle_new ''docs'' ''new'') = Some h \<and>
    (case flush_handle 1 (AList.update 1 h []) (db_with demo [Served, Reply_lost]) of
      (r, handles', d') \<Rightarrow>
      let goal = stores demo (''docs'', ''new'')
            (spec_writes [(1, [7, 8]), (0, [9])] (file_bytes demo (''docs'', ''new'') 0)) (tabs d')
      in (tabs d' = demo \<or> goal) \<and> (r = Inr () \<longrightarrow> goal))"
  using buffered_writes_correct [of "db_with demo [Served, Reply_lost]" "''docs''" "''new''" 0
      "[(1, [7, 8]), (0, [9])]" 1 "[]"] demo_keys demo_new
  by (simp add: demo_new_zero tail_zero_def)

section \<open>The files around it\<close>

text \<open>Whatever happens in between, an operation on the contents of a file keeps the
  directory tree and leaves no block without its file.\<close>

theorem contents_keep_tree:
  assumes "well_formed (tabs s)" and "is_file (tabs s) (p, n) sz"
    and "sz \<le> MAX_BYTES" and "new_size < 2 ^ 63" and "data \<noteq> []"
    and "offset + length data \<le> MAX_BYTES" and "distinct (map fst dirty)"
  shows "well_formed (tabs (snd (write_range p n offset data s))) \<and>
    well_formed (tabs (snd (db_truncate p n new_size s))) \<and>
    well_formed (tabs (snd (write_blocks_batch p n dirty new_size s)))"
proof (intro conjI)
  have tree: "tree_ok (tabs s)" "no_orphans (tabs s)" using assms(1) by (simp_all add: well_formed_def)
  have k: "keys_ok (tabs (calm s))" using tree by (simp add: tree_keys_ok)
  have changed: "well_formed t'"
    if "keys_ok t'" "is_file t' (p, n) m" "others_same (p, n) (tabs s) t'" for t' m
    using file_changed [OF tree that(1,3) assms(2) that(2)] by (simp add: well_formed_def)
  have pick: "well_formed t'" if "t' = tabs s \<or> t' = tabs u" "well_formed (tabs u)" for t' u
    using that assms(1) by auto
  obtain u where u: "write_range p n offset data (calm s) = (Inr (), u)"
    "wrote (p, n) sz offset data (tabs s) (tabs u)"
    using write_range_calm [of "calm s" p n sz data offset] assms(2-6) k by auto
  then have "well_formed (tabs u)" using changed by (auto simp: wrote_def)
  then show "well_formed (tabs (snd (write_range p n offset data s)))"
    using wr.all_or_nothing [of p n offset data s] pick u(1) by simp
  obtain v where v: "db_truncate p n new_size (calm s) = (Inr (), v)"
    "truncated (p, n) sz new_size (tabs s) (tabs v)"
    using truncate_calm [of "calm s" p n sz new_size] assms(2-4) k by auto
  then have "well_formed (tabs v)" using changed by (auto simp: truncated_def)
  then show "well_formed (tabs (snd (db_truncate p n new_size s)))"
    using tr.all_or_nothing [of p n new_size s] pick v(1) by simp
  obtain w where w: "write_blocks_batch p n dirty new_size (calm s) = (Inr (), w)"
    "batched (p, n) sz dirty new_size (tabs s) (tabs w)"
    using write_blocks_batch_calm [of "calm s" p n sz new_size dirty] assms(2-7) k by auto
  then have "well_formed (tabs w)" using changed by (auto simp: batched_def)
  then show "well_formed (tabs (snd (write_blocks_batch p n dirty new_size s)))"
    using wb.all_or_nothing [of p n dirty new_size s] pick w(1) by simp
qed

lemma demo_well_formed: "well_formed demo"
proof -
  have "tree_ok demo"
    unfolding tree_ok_def
    by (simp add: demo_keys) (simp add: entry_ok_def dir_path_def path_of_def demo_defs name_ok_def
        plain_name_def join_def byte_in_def)
  moreover have "no_orphans demo"
    by (simp add: no_orphans_def demo_defs entry_key_def block_file_def)
  ultimately show ?thesis by (simp add: well_formed_def)
qed

theorem contents_keep_tree_witness:
  "well_formed (tabs (snd (write_range ''docs'' ''a'' 2 [7, 8] (db_with demo [Served, Refused]))))"
  using contents_keep_tree [of "db_with demo [Served, Refused]" "''docs''" "''a''" 3 0 "[7, 8]" 2 "[]"]
    demo_well_formed demo_a by simp

end
