(* ===== verification/Db_Rename.thy ===== *)
theory Db_Rename
  imports Dir_Tree
begin

text \<open>
  \<open>Db::rename\<close> on a run without faults. The \<open>UPDATE\<close> statements that change key columns
  are shown to be maps over the rows that never meet a taken key, the \<open>LIKE\<close> and
  \<open>substring\<close> of the descendant rewrite to be the replacement of a path prefix, and the
  transaction as a whole to relocate the entry with everything below it and nothing else.
\<close>

section \<open>Updates of key columns\<close>

lemma update_keyed_map:
  assumes "distinct (map key (done @ rs))"
    and "\<And>r. r \<in> set rs \<Longrightarrow> P r \<Longrightarrow> key (f r) \<notin> key ` set (done @ rs)"
    and "distinct (map (\<lambda>r. key (f r)) (filter P rs))"
  shows "update_keyed key P f done rs = Some (done @ map (\<lambda>r. if P r then f r else r) rs)"
  using assms
proof (induction rs arbitrary: "done")
  case Nil
  then show ?case by simp
next
  case (Cons r rs)
  show ?case
  proof (cases "P r")
    case True
    have fresh: "key (f r) \<notin> key ` set (done @ rs)" using Cons.prems(2) [of r] True by auto
    then have "\<not> list_ex (\<lambda>q. key q = key (f r)) (done @ rs)" unfolding list_ex_iff by (metis imageI)
    moreover have "update_keyed key P f (done @ [f r]) rs =
        Some ((done @ [f r]) @ map (\<lambda>r. if P r then f r else r) rs)"
    proof (rule Cons.IH)
      show "distinct (map key ((done @ [f r]) @ rs))" using Cons.prems(1) fresh by auto
      show "key (f q) \<notin> key ` set ((done @ [f r]) @ rs)" if "q \<in> set rs" "P q" for q
        using Cons.prems(2) [of q] Cons.prems(3) that True by (auto simp: image_iff)
      show "distinct (map (\<lambda>r. key (f r)) (filter P rs))" using Cons.prems(3) True by simp
    qed
    ultimately show ?thesis using True by simp
  next
    case False
    with Cons show ?thesis by simp
  qed
qed

lemma update_keyed_Some:
  "update_keyed key P f done rs = Some xs \<Longrightarrow> xs = done @ map (\<lambda>r. if P r then f r else r) rs"
  by (induction rs arbitrary: "done") (fastforce split: if_splits)+

section \<open>The relocation\<close>

definition renamed_parent :: "string \<Rightarrow> string \<Rightarrow> string \<Rightarrow> string" where
  "renamed_parent old_path new_path parent =
     (if inside old_path parent then new_path @ drop (length old_path) parent else parent)"

definition renamed_key :: "key \<Rightarrow> key \<Rightarrow> key \<Rightarrow> key" where
  "renamed_key old new k =
     (if k = old then new
      else (renamed_parent (join (fst old) (snd old)) (join (fst new) (snd new)) (fst k), snd k))"

definition rename_entry :: "key \<Rightarrow> key \<Rightarrow> int \<Rightarrow> entry \<Rightarrow> entry" where
  "rename_entry old new now r =
     (let k = renamed_key old new (entry_key r)
      in r\<lparr>e_parent := fst k, e_name := snd k,
           e_mtime := (if entry_key r = old then now else e_mtime r)\<rparr>)"

definition rename_block :: "key \<Rightarrow> key \<Rightarrow> block \<Rightarrow> block" where
  "rename_block old new b =
     (let k = renamed_key old new (block_file b) in b\<lparr>b_parent := fst k, b_name := snd k\<rparr>)"

definition without :: "key \<Rightarrow> tables \<Rightarrow> tables" where
  "without k t = t\<lparr>entries := filter (\<lambda>r. entry_key r \<noteq> k) (entries t),
                   blocks := filter (\<lambda>b. block_file b \<noteq> k) (blocks t)\<rparr>"

definition renamed :: "key \<Rightarrow> key \<Rightarrow> int \<Rightarrow> tables \<Rightarrow> tables" where
  "renamed old new now t =
     t\<lparr>entries := map (rename_entry old new now) (entries (without new t)),
       blocks := map (rename_block old new) (blocks (without new t))\<rparr>"

text \<open>When the callers' checks have passed. For a directory the path must be ASCII and free
  of the wildcards of \<open>LIKE\<close>.\<close>

definition rename_ready :: "tables \<Rightarrow> key \<Rightarrow> key \<Rightarrow> bool" where
  "rename_ready t old new \<longleftrightarrow>
     (let old_path = join (fst old) (snd old); new_path = join (fst new) (snd new) in
      tree_ok t \<and> no_orphans t \<and> new \<noteq> old \<and> name_ok (snd new) \<and>
      dir_path t (fst new) \<and> utf8_valid (fst new) \<and> \<not> prefix (old_path @ [slash]) new_path \<and>
      (case ent t new of None \<Rightarrow> True | Some r \<Rightarrow> e_kind r = ''dir'' \<longrightarrow> childless t new_path) \<and>
      (case ent t old of None \<Rightarrow> False
       | Some r \<Rightarrow> e_kind r = ''dir'' \<longrightarrow>
           ascii old_path \<and> no_wildcard old_path \<and> length old_path < 2 ^ 31))"

lemma entry_key_rename [simp]: "entry_key (rename_entry old new now r) = renamed_key old new (entry_key r)"
  by (simp add: rename_entry_def entry_key_def Let_def)

lemma rename_entry_kind [simp]:
  "e_kind (rename_entry old new now r) = e_kind r" "e_size (rename_entry old new now r) = e_size r"
  by (simp_all add: rename_entry_def Let_def)

lemma block_key_rename [simp]:
  "block_key (rename_block old new b) = (renamed_key old new (block_file b), b_no b)"
  "block_file (rename_block old new b) = renamed_key old new (block_file b)"
  "b_data (rename_block old new b) = b_data b"
  by (simp_all add: rename_block_def block_key_def block_file_def Let_def)

lemma without_simps [simp]:
  "r \<in> set (entries (without k t)) \<longleftrightarrow> r \<in> set (entries t) \<and> entry_key r \<noteq> k"
  "b \<in> set (blocks (without k t)) \<longleftrightarrow> b \<in> set (blocks t) \<and> block_file b \<noteq> k"
  by (auto simp: without_def)

lemma inside_cases:
  assumes "inside p q"
  obtains s where "q = p @ s" "s = [] \<or> hd s = slash"
  using assms by (auto simp: inside_def elim!: prefixE)

lemma inside_append: "s = [] \<or> hd s = slash \<Longrightarrow> inside p (p @ s)"
  by (cases s) (auto simp: inside_def)

lemma inside_renamed: "inside old_path q \<Longrightarrow> inside new_path (renamed_parent old_path new_path q)"
  by (erule inside_cases) (auto simp: renamed_parent_def intro: inside_append)

lemma not_inside_self: "n \<noteq> [] \<Longrightarrow> \<not> inside (join p n) p"
proof
  assume "n \<noteq> []" and "inside (join p n) p"
  then obtain s where "p = join p n @ s" by (auto elim: inside_cases)
  then have "length p = length (join p n) + length s" by (metis length_append)
  with \<open>n \<noteq> []\<close> show False by (cases n) (auto simp: length_join split: if_splits)
qed

text \<open>The SQL is the replacement of the prefix.\<close>

lemma under_inside:
  "ascii p \<Longrightarrow> no_wildcard p \<Longrightarrow> utf8_valid q \<Longrightarrow> under p q \<longleftrightarrow> inside p q"
  by (auto simp: under_def inside_def sql_like_prefix)

lemma reparent_renamed:
  assumes "ascii p" and "inside p q"
  shows "reparent new_path (length p) q = renamed_parent p new_path q"
proof -
  from assms(2) obtain s where s: "q = p @ s" "s = [] \<or> hd s = slash" by (rule inside_cases)
  then have "s = [] \<or> \<not> cont (hd s)" by (auto simp: ascii_not_cont)
  from substring_after_ascii [OF assms(1) this] s assms(2) show ?thesis
    by (simp add: reparent_def renamed_parent_def)
qed

section \<open>The statements of the transaction\<close>

lemma rename_readyD:
  assumes "rename_ready t old new"
  shows "tree_ok t" "no_orphans t" "keys_ok t" "new \<noteq> old" "name_ok (snd new)"
    "dir_path t (fst new)" "utf8_valid (fst new)"
    "\<not> prefix (join (fst old) (snd old) @ [slash]) (join (fst new) (snd new))"
    "\<And>r. ent t new = Some r \<Longrightarrow> e_kind r = ''dir'' \<Longrightarrow> childless t (join (fst new) (snd new))"
    "\<exists>r. ent t old = Some r"
    "\<And>r. ent t old = Some r \<Longrightarrow> e_kind r = ''dir'' \<Longrightarrow>
      ascii (join (fst old) (snd old)) \<and> no_wildcard (join (fst old) (snd old)) \<and>
      length (join (fst old) (snd old)) < 2 ^ 31"
  using assms by (auto simp: rename_ready_def Let_def tree_ok_def split: option.splits)

lemma without_id: "keys_ok t \<Longrightarrow> no_orphans t \<Longrightarrow> ent t k = None \<Longrightarrow> without k t = t"
proof -
  assume k: "keys_ok t" and no: "no_orphans t" and none: "ent t k = None"
  have e: "entry_key r \<noteq> k" if "r \<in> set (entries t)" for r
    using that none by (auto simp: ent_def find_None_iff)
  moreover have "block_file b \<noteq> k" if "b \<in> set (blocks t)" for b
    using that no e by (fastforce simp: no_orphans_def)
  ultimately show ?thesis by (simp add: without_def)
qed

lemma rename_target_calm:
  assumes "fates s = []" and "rename_ready (tabs s) old (np, nn)"
  shows "rename_target np nn s = (Inr (), s\<lparr>tabs := without (np, nn) (tabs s)\<rparr>)"
proof (cases "ent (tabs s) (np, nn)")
  case None
  with assms rename_readyD [OF assms(2)] show ?thesis
    by (simp add: rename_target_def Let_def db_bind_def exec_opt_calm sql_opt_entry db_return_def
        without_id)
next
  case (Some r)
  have "e_kind r = ''dir'' \<Longrightarrow> find (\<lambda>q. e_parent q = join np nn) (entries (tabs s)) = None"
    using rename_readyD(9) [OF assms(2) Some] by (simp add: find_child_None)
  with Some assms(1) rename_readyD(3) [OF assms(2)] show ?thesis
    by (simp add: rename_target_def Let_def db_bind_def exec_opt_calm sql_opt_entry db_return_def
        sql_opt_one_child pg_exec_calm run_stmt_def delete_entry_def delete_blocks_def without_def)
qed

text \<open>Nothing is left at or below the target's path.\<close>

lemma nothing_inside_target:
  assumes "rename_ready t old new" and "r \<in> set (entries t)"
  shows "\<not> inside (join (fst new) (snd new)) (e_parent r)"
proof -
  let ?p = "join (fst new) (snd new)"
  note ok = rename_readyD [OF assms(1)]
  have "dir_path t ?p \<Longrightarrow> childless t ?p"
  proof -
    assume "dir_path t ?p"
    moreover have "?p \<noteq> []" using ok(5) by (simp add: name_ok_def)
    ultimately obtain d where d: "d \<in> set (entries t)" "e_kind d = ''dir''" "path_of d = ?p"
      by (auto simp: dir_path_def)
    have "e_parent d = fst new \<and> e_name d = snd new"
      using join_inject [of "e_name d" "snd new" "e_parent d" "fst new"] d(3) ok(5)
        tree_entry [OF ok(1) d(1)] by (simp add: path_of_def entry_ok_def name_ok_def)
    then have "ent t new = Some d" using d(1) by (auto simp: ent_iff [OF ok(3)] entry_key_def)
    with ok(9) d(2) show ?thesis by simp
  qed
  moreover have "?p \<noteq> []" using ok(5) by (simp add: name_ok_def)
  ultimately show ?thesis using nothing_inside [OF ok(1) _ _ assms(2)] by blast
qed

lemma nothing_inside_target_blocks:
  assumes "rename_ready t old new" and "b \<in> set (blocks t)"
  shows "\<not> inside (join (fst new) (snd new)) (b_parent b)"
proof -
  obtain r where "r \<in> set (entries t)" "entry_key r = block_file b"
    using rename_readyD(2) [OF assms(1)] assms(2) by (auto simp: no_orphans_def)
  with nothing_inside_target [OF assms(1), of r] show ?thesis
    by (simp add: entry_key_def block_file_def)
qed

lemma inside_drop_inject:
  "inside p q \<Longrightarrow> inside p q' \<Longrightarrow> drop (length p) q = drop (length p) q' \<Longrightarrow> q = q'"
  by (elim inside_cases) simp

text \<open>The descendants' rewrite, with the parents as the SQL computes them.\<close>

definition moved_below :: "key \<Rightarrow> key \<Rightarrow> tables \<Rightarrow> tables" where
  "moved_below old new t =
     (let mv = renamed_parent (join (fst old) (snd old)) (join (fst new) (snd new)) in
      t\<lparr>entries := map (\<lambda>r. r\<lparr>e_parent := mv (e_parent r)\<rparr>) (entries t),
        blocks := map (\<lambda>b. b\<lparr>b_parent := mv (b_parent b)\<rparr>) (blocks t)\<rparr>)"

lemma parents_utf8:
  assumes "tree_ok t" and "no_orphans t"
  shows "\<forall>r \<in> set (entries t). utf8_valid (e_parent r)"
    and "\<forall>b \<in> set (blocks t). utf8_valid (b_parent b)"
proof -
  show e: "\<forall>r \<in> set (entries t). utf8_valid (e_parent r)"
    using tree_entry [OF assms(1)] by (simp add: entry_ok_def)
  show "\<forall>b \<in> set (blocks t). utf8_valid (b_parent b)"
  proof
    fix b
    assume "b \<in> set (blocks t)"
    then obtain r where "r \<in> set (entries t)" "entry_key r = block_file b"
      using assms(2) by (auto simp: no_orphans_def)
    with e show "utf8_valid (b_parent b)" by (auto simp: entry_key_def block_file_def)
  qed
qed

text \<open>The rewrite on rows of either table: \<open>par\<close> and \<open>rest\<close> make up the key.\<close>

lemma rewrite_rows:
  fixes par :: "'r \<Rightarrow> string" and rest :: "'r \<Rightarrow> 'b" and upd :: "(string \<Rightarrow> string) \<Rightarrow> 'r \<Rightarrow> 'r"
  assumes p: "ascii old_path" "no_wildcard old_path"
    and key: "\<And>x y. key x = key y \<longleftrightarrow> par x = par y \<and> rest x = rest y"
    and upd: "\<And>f x. par (upd f x) = f (par x)" "\<And>f x. rest (upd f x) = rest x"
      "\<And>x. upd (\<lambda>q. q) x = x" "\<And>f g x. f (par x) = g (par x) \<Longrightarrow> upd f x = upd g x"
    and rows: "distinct (map key rs)" "\<And>x. x \<in> set rs \<Longrightarrow> utf8_valid (par x)"
      "\<And>x. x \<in> set rs \<Longrightarrow> \<not> inside new_path (par x)"
  shows "update_keyed key (\<lambda>r. under old_path (par r))
      (upd (reparent new_path (length old_path))) [] rs =
    Some (map (upd (renamed_parent old_path new_path)) rs)"
proof -
  let ?P = "\<lambda>r. under old_path (par r)"
  let ?f = "upd (reparent new_path (length old_path))"
  let ?g = "upd (renamed_parent old_path new_path)"
  have P: "?P r \<longleftrightarrow> inside old_path (par r)" if "r \<in> set rs" for r
    using under_inside [OF p rows(2)] that by blast
  have f: "?f r = ?g r" if "r \<in> set rs" "?P r" for r
    using reparent_renamed [OF p(1)] P that by (intro upd(4)) simp
  have "update_keyed key ?P ?f [] rs = Some ([] @ map (\<lambda>r. if ?P r then ?f r else r) rs)"
  proof (rule update_keyed_map)
    show "distinct (map key ([] @ rs))" using rows(1) by simp
  next
    fix r
    assume r: "r \<in> set rs" "?P r"
    then have "inside new_path (par (?g r))" using P inside_renamed by (simp add: upd(1))
    then have "inside new_path (par (?f r))" using f [OF r] by simp
    then show "key (?f r) \<notin> key ` set ([] @ rs)" using rows(3) by (auto simp: key)
  next
    have "inj_on (\<lambda>r. key (?f r)) (set (filter ?P rs))"
    proof (rule inj_onI)
      fix x y
      assume "x \<in> set (filter ?P rs)" and "y \<in> set (filter ?P rs)" and eq: "key (?f x) = key (?f y)"
      then have xy: "x \<in> set rs" "y \<in> set rs" "?P x" "?P y" by simp_all
      then have i: "inside old_path (par x)" "inside old_path (par y)" using P by auto
      from eq have "key (?g x) = key (?g y)" by (simp only: f xy)
      then have "drop (length old_path) (par x) = drop (length old_path) (par y)"
        and "rest x = rest y" using i by (simp_all add: key upd(1,2) renamed_parent_def)
      then have "key x = key y" using inside_drop_inject [OF i] by (simp add: key)
      then show "x = y" by (rule distinct_key_unique [OF rows(1) xy(1,2)])
    qed
    with rows(1) show "distinct (map (\<lambda>r. key (?f r)) (filter ?P rs))" by (simp add: distinct_map)
  qed
  also have "map (\<lambda>r. if ?P r then ?f r else r) rs = map ?g rs"
  proof (rule map_cong [OF refl])
    fix r
    assume r: "r \<in> set rs"
    have "?g r = upd (\<lambda>q. q) r" if "\<not> ?P r"
      using that P [OF r] by (intro upd(4)) (simp add: renamed_parent_def)
    then show "(if ?P r then ?f r else r) = ?g r" using f [OF r] by (simp add: upd(3))
  qed
  finally show ?thesis by simp
qed

text \<open>The path of a row is not empty, and only a directory is found under it.\<close>

lemma source_path:
  assumes "tree_ok t" and "ent t old = Some r"
  shows "join (fst old) (snd old) \<noteq> []"
    and "dir_path t (join (fst old) (snd old)) \<Longrightarrow> e_kind r = ''dir''"
proof -
  let ?op = "join (fst old) (snd old)"
  have r: "entry_key r = old" "r \<in> set (entries t)" using assms(2) by (auto dest: ent_key ent_in_set)
  have "name_ok (e_name r)" using tree_entry [OF assms(1) r(2)] by (simp add: entry_ok_def)
  then show op: "?op \<noteq> []" using r(1) by (auto simp: entry_key_def name_ok_def)
  assume "dir_path t ?op"
  with op obtain d where d: "d \<in> set (entries t)" "e_kind d = ''dir''" "path_of d = ?op"
    by (auto simp: dir_path_def)
  have "path_of r = ?op" using r(1) by (auto simp: path_of_def entry_key_def)
  with d have "r = d" using tree_path_unique [OF assms(1) r(2) d(1)] by simp
  with d(2) show "e_kind r = ''dir''" by simp
qed

text \<open>Nothing lies below a file, so nothing moves with it.\<close>

lemma moved_below_file:
  assumes ready: "rename_ready t old new" and r: "ent t old = Some r" "e_kind r \<noteq> ''dir''"
  shows "moved_below old new (without new t) = without new t"
proof -
  let ?op = "join (fst old) (snd old)" and ?np = "join (fst new) (snd new)"
  let ?u = "without new t"
  note ok = rename_readyD [OF ready]
  have e: "\<not> inside ?op (e_parent q)" if "q \<in> set (entries t)" for q
    using nothing_inside [OF ok(1) _ _ that] source_path [OF ok(1) r(1)] r(2) by blast
  have b: "\<not> inside ?op (b_parent b)" if b: "b \<in> set (blocks t)" for b
  proof -
    obtain q where "q \<in> set (entries t)" "entry_key q = block_file b"
      using ok(2) b by (auto simp: no_orphans_def)
    with e [of q] show ?thesis by (simp add: entry_key_def block_file_def)
  qed
  have "map (\<lambda>r. r\<lparr>e_parent := renamed_parent ?op ?np (e_parent r)\<rparr>) (entries ?u) = entries ?u"
    using e by (intro map_idI) (simp add: renamed_parent_def)
  moreover have "map (\<lambda>b. b\<lparr>b_parent := renamed_parent ?op ?np (b_parent b)\<rparr>) (blocks ?u) = blocks ?u"
    using b by (intro map_idI) (simp add: renamed_parent_def)
  ultimately show ?thesis by (simp add: moved_below_def Let_def)
qed

lemma rename_descendants_calm:
  assumes ready: "rename_ready t old new" and "ent t old = Some r"
    and s: "fates s = []" "tabs s = without new t"
    and k: "k = Dir \<longleftrightarrow> e_kind r = ''dir''"
  shows "rename_descendants k (join (fst old) (snd old)) (join (fst new) (snd new)) s =
    (Inr (), s\<lparr>tabs := moved_below old new (without new t)\<rparr>)"
proof -
  let ?op = "join (fst old) (snd old)" and ?np = "join (fst new) (snd new)"
  let ?u = "without new t"
  note ok = rename_readyD [OF ready]
  have keys: "distinct (map entry_key (entries ?u))" "distinct (map block_key (blocks ?u))"
    using ok(3) by (simp_all add: keys_ok_def without_def)
  show ?thesis
  proof (cases "e_kind r = ''dir''")
    case True
    then have p: "ascii ?op" "no_wildcard ?op" "length ?op < 2 ^ 31"
      using ok(11) assms(2) by blast+
    have "update_keyed entry_key (\<lambda>r. under ?op (e_parent r))
        (\<lambda>r. r\<lparr>e_parent := reparent ?np (length ?op) (e_parent r)\<rparr>) [] (entries ?u) =
      Some (map (\<lambda>r. r\<lparr>e_parent := renamed_parent ?op ?np (e_parent r)\<rparr>) (entries ?u))"
      by (rule rewrite_rows [where par = e_parent and rest = e_name and
            upd = "\<lambda>f r. r\<lparr>e_parent := f (e_parent r)\<rparr>", OF p(1,2)])
        (use keys(1) parents_utf8(1) [OF ok(1,2)] nothing_inside_target [OF ready] in
          \<open>simp_all add: entry_key_def\<close>)
    moreover have "update_keyed block_key (\<lambda>r. under ?op (b_parent r))
        (\<lambda>r. r\<lparr>b_parent := reparent ?np (length ?op) (b_parent r)\<rparr>) [] (blocks ?u) =
      Some (map (\<lambda>r. r\<lparr>b_parent := renamed_parent ?op ?np (b_parent r)\<rparr>) (blocks ?u))"
      by (rule rewrite_rows [where par = b_parent and rest = "\<lambda>b. (b_name b, b_no b)" and
            upd = "\<lambda>f r. r\<lparr>b_parent := f (b_parent r)\<rparr>", OF p(1,2)])
        (use keys(2) parents_utf8(2) [OF ok(1,2)] nothing_inside_target_blocks [OF ready] in
          \<open>auto simp: block_key_def\<close>)
    ultimately show ?thesis
      using k True s p(3)
      by (simp add: rename_descendants_def Let_def as_i32_small db_bind_def pg_exec_calm
          run_stmt_def rewrite_entries_def rewrite_blocks_def db_return_def moved_below_def)
  next
    case False
    with moved_below_file [OF ready assms(2)] k s show ?thesis
      by (simp add: rename_descendants_def db_return_def)
  qed
qed

text \<open>Where the rewritten keys lie.\<close>

abbreviation mv :: "key \<Rightarrow> key \<Rightarrow> string \<Rightarrow> string" where
  "mv old new \<equiv> renamed_parent (join (fst old) (snd old)) (join (fst new) (snd new))"

lemma renamed_parent_inject:
  assumes "renamed_parent p p' q = renamed_parent p p' q'" and "\<not> inside p' q" "\<not> inside p' q'"
  shows "q = q'"
proof (cases "inside p q \<or> inside p q'")
  case True
  then have "inside p' (renamed_parent p p' q)"
    using assms(1) inside_renamed by metis
  with assms have "inside p q" "inside p q'" by (auto simp: renamed_parent_def split: if_splits)
  with assms(1) inside_drop_inject show ?thesis by (auto simp: renamed_parent_def)
next
  case False
  with assms(1) show ?thesis by (simp add: renamed_parent_def)
qed

lemma mv_facts:
  assumes "rename_ready t old new" and "\<not> inside (join (fst new) (snd new)) q"
  shows "(mv old new q, n) = new \<longleftrightarrow> (q, n) = new"
    and "(mv old new q, n) = old \<longleftrightarrow> (q, n) = old"
proof -
  let ?op = "join (fst old) (snd old)" and ?np = "join (fst new) (snd new)"
  note ok = rename_readyD [OF assms(1)]
  obtain r where r: "ent t old = Some r" using ok(10) by blast
  then have "entry_key r = old" "r \<in> set (entries t)" by (auto dest: ent_key ent_in_set)
  then have old: "\<not> inside ?np (fst old)" "snd old \<noteq> []"
    using nothing_inside_target [OF assms(1)] tree_entry [OF ok(1)]
    by (auto simp: entry_key_def entry_ok_def name_ok_def)
  have self: "\<not> inside ?np (fst new)" "\<not> inside ?op (fst old)"
    using ok(5) old(2) by (simp_all add: not_inside_self name_ok_def)
  have "\<not> inside ?op (fst new)"
  proof
    assume "inside ?op (fst new)"
    then obtain s where "fst new = ?op @ s" "s = [] \<or> hd s = slash" by (rule inside_cases)
    moreover have "?op \<noteq> []" using old(2) by simp
    ultimately have "prefix (?op @ [slash]) ?np"
      by (cases s) (auto simp: join_def)
    with ok(8) show False by simp
  qed
  note no = self this old(1)
  have eq: "mv old new q = q \<or> inside ?np (mv old new q) \<and> inside ?op q"
    using inside_renamed [of ?op q ?np] by (auto simp: renamed_parent_def)
  show "(mv old new q, n) = new \<longleftrightarrow> (q, n) = new"
    using eq no by (cases new) auto
  show "(mv old new q, n) = old \<longleftrightarrow> (q, n) = old"
    using eq no by (cases old) auto
qed

lemma update_one_key:
  assumes "distinct (map key rs)" and "\<And>r. r \<in> set rs \<Longrightarrow> P r \<Longrightarrow> key (f r) \<notin> key ` set rs"
    and "\<And>r q. r \<in> set rs \<Longrightarrow> q \<in> set rs \<Longrightarrow> P r \<Longrightarrow> P q \<Longrightarrow> key (f r) = key (f q) \<Longrightarrow> key r = key q"
  shows "update_keyed key P f [] rs = Some (map (\<lambda>r. if P r then f r else r) rs)"
proof -
  have "distinct (filter P rs)" using assms(1) by (simp add: distinct_map)
  moreover have "inj_on (\<lambda>r. key (f r)) (set (filter P rs))"
    using assms(3) distinct_key_unique [OF assms(1)] by (auto simp: inj_on_def)
  ultimately have "distinct (map (\<lambda>r. key (f r)) (filter P rs))" by (simp add: distinct_map)
  then show ?thesis using update_keyed_map [of key "[]" rs P f] assms(1,2) by simp
qed

lemma distinct_moved:
  assumes "rename_ready t old new"
  shows "distinct (map entry_key (entries (moved_below old new (without new t))))"
    and "distinct (map block_key (blocks (moved_below old new (without new t))))"
proof -
  note ok = rename_readyD [OF assms]
  have "inj_on (\<lambda>k. (mv old new (fst k), snd k)) (entry_key ` set (entries (without new t)))"
    using renamed_parent_inject nothing_inside_target [OF assms]
    by (auto simp: inj_on_def entry_key_def)
  moreover have "map entry_key (entries (moved_below old new (without new t))) =
      map (\<lambda>k. (mv old new (fst k), snd k)) (map entry_key (entries (without new t)))"
    by (simp add: moved_below_def Let_def entry_key_def)
  moreover have "distinct (map entry_key (entries (without new t)))"
    using ok(3) by (simp add: keys_ok_def without_def)
  ultimately show "distinct (map entry_key (entries (moved_below old new (without new t))))"
    by (simp only: distinct_map set_map simp_thms)
  have "inj_on (\<lambda>k. ((mv old new (fst (fst k)), snd (fst k)), snd k))
      (block_key ` set (blocks (without new t)))"
    using renamed_parent_inject nothing_inside_target_blocks [OF assms]
    by (auto simp: inj_on_def block_key_def)
  moreover have "map block_key (blocks (moved_below old new (without new t))) =
      map (\<lambda>k. ((mv old new (fst (fst k)), snd (fst k)), snd k))
        (map block_key (blocks (without new t)))"
    by (simp add: moved_below_def Let_def block_key_def)
  moreover have "distinct (map block_key (blocks (without new t)))"
    using ok(3) by (simp add: keys_ok_def without_def)
  ultimately show "distinct (map block_key (blocks (moved_below old new (without new t))))"
    by (simp only: distinct_map set_map simp_thms)
qed

lemma moved_below_sets:
  assumes "rename_ready t old new"
  shows "q \<in> set (entries (moved_below old new (without new t))) \<Longrightarrow> entry_key q \<noteq> new"
    and "b \<in> set (blocks (moved_below old new (without new t))) \<Longrightarrow> block_file b \<noteq> new"
  using mv_facts(1) [OF assms] nothing_inside_target [OF assms] nothing_inside_target_blocks [OF assms]
  by (auto simp: moved_below_def Let_def entry_key_def block_file_def)

lemma move_entry_calm:
  assumes ready: "rename_ready t old new"
  shows "\<exists>c > 0. move_entry new old now (moved_below old new (without new t)) = Some (c,
    (moved_below old new (without new t))\<lparr>entries :=
      map (rename_entry old new now) (entries (without new t))\<rparr>)"
proof -
  let ?v = "moved_below old new (without new t)"
  let ?f = "\<lambda>r. r\<lparr>e_parent := fst new, e_name := snd new, e_mtime := now\<rparr>"
  let ?g = "\<lambda>r. r\<lparr>e_parent := mv old new (e_parent r)\<rparr>"
  note ok = rename_readyD [OF ready]
  have key: "entry_key (?g r) = old \<longleftrightarrow> entry_key r = old" if "r \<in> set (entries t)" for r
    using mv_facts(2) [OF ready nothing_inside_target [OF ready that]] by (simp add: entry_key_def)
  obtain r where "ent t old = Some r" using ok(10) by blast
  then have r: "r \<in> set (entries t)" "entry_key r = old" by (auto dest: ent_key ent_in_set)
  with ok(4) have "?g r \<in> set (entries ?v)" by (auto simp: moved_below_def Let_def)
  then have "select_entry old ?v \<noteq> []"
    using key [OF r(1)] r(2) by (auto simp: select_entry_def filter_empty_conv)
  moreover have "update_keyed entry_key (\<lambda>r. entry_key r = old) ?f [] (entries ?v) =
      Some (map (\<lambda>r. if entry_key r = old then ?f r else r) (entries ?v))"
  proof (rule update_one_key [OF distinct_moved(1) [OF ready]])
    fix q
    have "entry_key (?f q) = new" by (simp add: entry_key_def)
    then show "entry_key (?f q) \<notin> entry_key ` set (entries ?v)"
      using moved_below_sets(1) [OF ready] by auto
  qed simp
  moreover have "map (\<lambda>r. if entry_key r = old then ?f r else r) (entries ?v) =
      map (rename_entry old new now) (entries (without new t))"
    using key
    by (auto simp: moved_below_def Let_def rename_entry_def renamed_key_def entry_key_def)
  ultimately show ?thesis by (simp add: move_entry_def)
qed

lemma move_blocks_calm:
  assumes ready: "rename_ready t old new" and "blocks v = blocks (moved_below old new (without new t))"
  shows "\<exists>c. move_blocks new old v =
    Some (c, v\<lparr>blocks := map (rename_block old new) (blocks (without new t))\<rparr>)"
proof -
  let ?v = "moved_below old new (without new t)"
  let ?f = "\<lambda>b. b\<lparr>b_parent := fst new, b_name := snd new\<rparr>"
  let ?g = "\<lambda>b. b\<lparr>b_parent := mv old new (b_parent b)\<rparr>"
  have key: "block_file (?g b) = old \<longleftrightarrow> block_file b = old" if "b \<in> set (blocks t)" for b
    using mv_facts(2) [OF ready nothing_inside_target_blocks [OF ready that]]
    by (simp add: block_file_def)
  have "update_keyed block_key (\<lambda>b. block_file b = old) ?f [] (blocks ?v) =
      Some (map (\<lambda>b. if block_file b = old then ?f b else b) (blocks ?v))"
  proof (rule update_one_key [OF distinct_moved(2) [OF ready]])
    fix q
    have "fst (block_key (?f q)) = new" by (simp add: block_key_def)
    then show "block_key (?f q) \<notin> block_key ` set (blocks ?v)"
      using moved_below_sets(2) [OF ready] by (auto simp: block_file_key)
  next
    fix a b
    assume "block_file a = old" "block_file b = old" "block_key (?f a) = block_key (?f b)"
    then show "block_key a = block_key b" by (auto simp: block_key_def block_file_def)
  qed
  moreover have "map (\<lambda>b. if block_file b = old then ?f b else b) (blocks ?v) =
      map (rename_block old new) (blocks (without new t))"
    using key by (auto simp: moved_below_def Let_def rename_block_def renamed_key_def block_file_def)
  ultimately show ?thesis using assms(2) by (simp add: move_blocks_def)
qed

lemma rename_calm:
  assumes "fates s = []" and "rename_ready (tabs s) (op, on) (np, nn)"
  shows "\<exists>s'. rename op on np nn s = (Inr (), s') \<and> fates s' = [] \<and>
    tabs s' = renamed (op, on) (np, nn) (pg_now s) (tabs s)"
proof -
  let ?old = "(op, on)" and ?new = "(np, nn)" and ?s = "record_latency s"
  let ?v = "moved_below ?old ?new (without ?new (tabs s))"
  let ?w = "?v\<lparr>entries := map (rename_entry ?old ?new (pg_now s)) (entries (without ?new (tabs s)))\<rparr>"
  note ok = rename_readyD [OF assms(2)]
  have ne: "\<not> (op = np \<and> on = nn)" using ok(4) by auto
  obtain r where r: "ent (tabs s) ?old = Some r" using ok(10) by blast
  then have "entry_ok (tabs s) r" by (intro tree_entry [OF ok(1)] ent_in_set)
  then obtain m where m: "meta_opt (ent (tabs s) ?old) = Inr (Some m)"
    "m_kind m = Dir \<longleftrightarrow> e_kind r = ''dir''"
    by (auto simp: meta_opt_def r entry_ok_def row_to_meta_ok)
  have ready: "rename_ready (tabs ?s) ?old ?new" using assms(2) by simp
  obtain c where c: "0 < c" "move_entry ?new ?old (pg_now s) ?v = Some (c, ?w)"
    using move_entry_calm [OF assms(2)] by blast
  have "blocks ?w = blocks ?v" by simp
  then obtain d where d: "move_blocks ?new ?old ?w =
      Some (d, ?w\<lparr>blocks := map (rename_block ?old ?new) (blocks (without ?new (tabs s)))\<rparr>)"
    using move_blocks_calm [OF assms(2)] by blast
  have "?w\<lparr>blocks := map (rename_block ?old ?new) (blocks (without ?new (tabs s)))\<rparr> =
      renamed ?old ?new (pg_now s) (tabs s)"
    by (simp add: renamed_def moved_below_def without_def Let_def)
  with d have d: "move_blocks ?new ?old ?w = Some (d, renamed ?old ?new (pg_now s) (tabs s))" by simp
  have "rename_txn op on np nn m ?s =
      (Inr (), ?s\<lparr>tabs := renamed ?old ?new (pg_now s) (tabs s)\<rparr>)"
    using assms(1) rename_target_calm [OF _ ready]
      rename_descendants_calm [OF assms(2) r, of "?s\<lparr>tabs := without ?new (tabs s)\<rparr>" "m_kind m"] m(2) c(1)
    by (simp add: rename_txn_def Let_def db_bind_def pg_exec_now_calm pg_exec_calm run_stmt_def c(2) d
        db_return_def)
  then have "rename op on np nn s =
      (Inr (), record_latency (?s\<lparr>tabs := renamed ?old ?new (pg_now s) (tabs s)\<rparr>))"
    using assms(1) ok(3)
    by (simp only: rename_def ne if_False)
      (simp add: db_bind_def getattr_primary_calm m(1) pg_transaction_calm timed_return_def)
  then show ?thesis using assms(1) by simp
qed

section \<open>The tree after a rename\<close>

lemma renamed_key_inject:
  assumes ready: "rename_ready t old new"
    and k: "k \<noteq> new" "\<not> inside (join (fst new) (snd new)) (fst k)"
    and k': "k' \<noteq> new" "\<not> inside (join (fst new) (snd new)) (fst k')"
    and eq: "renamed_key old new k = renamed_key old new k'"
  shows "k = k'"
proof -
  have no: "(mv old new (fst q), snd q) \<noteq> new"
    if "q \<noteq> new" "\<not> inside (join (fst new) (snd new)) (fst q)" for q
    using mv_facts(1) [OF ready that(2), of "snd q"] that(1) by simp
  show ?thesis
  proof (cases "k = old \<or> k' = old")
    case True
    with eq no [OF k] no [OF k'] show ?thesis by (auto simp: renamed_key_def split: if_splits)
  next
    case False
    with eq have "mv old new (fst k) = mv old new (fst k')" "snd k = snd k'"
      by (simp_all add: renamed_key_def)
    with renamed_parent_inject k(2) k'(2) show ?thesis by (metis prod.collapse)
  qed
qed

lemma renamed_keys_ok:
  assumes ready: "rename_ready t old new"
  shows "keys_ok (renamed old new now t)"
proof -
  let ?u = "without new t"
  note ok = rename_readyD [OF ready]
  have d: "distinct (map entry_key (entries ?u))" "distinct (map block_key (blocks ?u))"
    using ok(3) by (simp_all add: keys_ok_def without_def)
  have "inj_on (renamed_key old new) (entry_key ` set (entries ?u))"
    using renamed_key_inject [OF ready] nothing_inside_target [OF ready]
    by (auto simp: inj_on_def entry_key_def)
  then have "distinct (map (renamed_key old new) (map entry_key (entries ?u)))"
    using d(1) by (simp only: distinct_map set_map simp_thms)
  moreover have "inj_on (\<lambda>k. (renamed_key old new (fst k), snd k)) (block_key ` set (blocks ?u))"
  proof (rule inj_onI)
    fix k k'
    assume "k \<in> block_key ` set (blocks ?u)" "k' \<in> block_key ` set (blocks ?u)"
      and eq: "(renamed_key old new (fst k), snd k) = (renamed_key old new (fst k'), snd k')"
    then have "fst k \<noteq> new \<and> \<not> inside (join (fst new) (snd new)) (fst (fst k))"
      and "fst k' \<noteq> new \<and> \<not> inside (join (fst new) (snd new)) (fst (fst k'))"
      using nothing_inside_target_blocks [OF ready]
      by (auto simp: block_key_def block_file_def)
    with renamed_key_inject [OF ready] eq show "k = k'" by (metis fst_conv prod.expand snd_conv)
  qed
  then have "distinct (map (\<lambda>k. (renamed_key old new (fst k), snd k)) (map block_key (blocks ?u)))"
    using d(2) by (simp only: distinct_map set_map simp_thms)
  ultimately show ?thesis
    by (simp add: keys_ok_def renamed_def o_def block_file_key b_no_key)
qed

text \<open>Every entry and every file but the replaced one is found under its renamed key.\<close>

lemma renamed_ent:
  assumes "rename_ready t old new" and "ent t k = Some r" and "k \<noteq> new"
  shows "ent (renamed old new now t) (renamed_key old new k) = Some (rename_entry old new now r)"
proof -
  have "r \<in> set (entries t)" "entry_key r = k" using assms(2) by (auto dest: ent_key ent_in_set)
  with assms(3) show ?thesis
    unfolding ent_iff [OF renamed_keys_ok [OF assms(1)]] by (auto simp: renamed_def)
qed

lemma renamed_blk:
  assumes ready: "rename_ready t old new" and k: "k \<noteq> new" "\<not> inside (join (fst new) (snd new)) (fst k)"
  shows "blk (renamed old new now t) (renamed_key old new k) no = blk t k no"
proof (cases "blk t k no")
  case (Some d)
  then obtain b where b: "b \<in> set (blocks t)" "block_key b = (k, no)" using blk_in_set by blast
  then have "blk t k no = Some (b_data b)"
    using in_set_blk [OF rename_readyD(3) [OF ready] b(1)] by (simp add: block_key_def block_file_def)
  moreover have "rename_block old new b \<in> set (blocks (renamed old new now t))"
    using b k(1) by (auto simp: renamed_def block_file_key)
  from in_set_blk [OF renamed_keys_ok [OF ready] this]
  have "blk (renamed old new now t) (renamed_key old new k) no = Some (b_data b)"
    using b(2) by (simp add: block_file_key b_no_key)
  ultimately show ?thesis by simp
next
  case None
  have "blk (renamed old new now t) (renamed_key old new k) no = None"
  proof (rule ccontr)
    assume "blk (renamed old new now t) (renamed_key old new k) no \<noteq> None"
    then obtain c where c: "c \<in> set (blocks (renamed old new now t))"
      "block_key c = (renamed_key old new k, no)" using blk_in_set by blast
    then obtain b where b: "b \<in> set (blocks t)" "block_file b \<noteq> new" "c = rename_block old new b"
      by (auto simp: renamed_def)
    then have "renamed_key old new (block_file b) = renamed_key old new k" "b_no b = no"
      using c(2) by auto
    then have "block_file b = k"
      using renamed_key_inject [OF ready b(2) _ k] nothing_inside_target_blocks [OF ready b(1)]
      by (simp add: block_file_def)
    with in_set_blk [OF rename_readyD(3) [OF ready] b(1)] \<open>b_no b = no\<close> None show False by simp
  qed
  with None show ?thesis by simp
qed

lemma renamed_file:
  assumes ready: "rename_ready t old new" and k: "is_file t k n" "k \<noteq> new"
  shows "is_file (renamed old new now t) (renamed_key old new k) n"
    and "byte_at (renamed old new now t) (renamed_key old new k) = byte_at t k"
proof -
  obtain r where r: "ent t k = Some r" "e_kind r = ''file''" "e_size r = int n"
    using k(1) by (auto simp: is_file_def)
  then show "is_file (renamed old new now t) (renamed_key old new k) n"
    using renamed_ent [OF ready r(1) k(2)] by (simp add: is_file_def)
  have "r \<in> set (entries t)" "entry_key r = k" using r(1) by (auto dest: ent_key ent_in_set)
  then have "\<not> inside (join (fst new) (snd new)) (fst k)"
    using nothing_inside_target [OF ready] by (auto simp: entry_key_def)
  with renamed_blk [OF ready k(2)]
  show "byte_at (renamed old new now t) (renamed_key old new k) = byte_at t k"
    by (simp add: byte_at_def stored_byte_def fun_eq_iff)
qed

lemma renamed_no_orphans:
  assumes "rename_ready t old new"
  shows "no_orphans (renamed old new now t)"
  unfolding no_orphans_def
proof
  fix c
  assume "c \<in> set (blocks (renamed old new now t))"
  then obtain b where b: "b \<in> set (blocks t)" "block_file b \<noteq> new" "c = rename_block old new b"
    by (auto simp: renamed_def)
  then obtain r where "r \<in> set (entries t)" "entry_key r = block_file b" "e_kind r = ''file''"
    using rename_readyD(2) [OF assms] by (auto simp: no_orphans_def)
  with b show "\<exists>r \<in> set (entries (renamed old new now t)).
      entry_key r = block_file c \<and> e_kind r = ''file''"
    by (force simp: renamed_def)
qed

lemma utf8_cases:
  assumes "utf8_valid (a # s)"
  obtains (one) "byte_in 0 127 a" "utf8_valid s"
  | (two) b s2 where "\<not> byte_in 0 127 a" "s = b # s2" "utf8_2 a b" "utf8_valid s2"
  | (three) b c s3 where "\<not> byte_in 0 127 a" "s = b # c # s3" "\<not> utf8_2 a b" "utf8_3 a b c"
      "utf8_valid s3"
  | (four) b c d s4 where "\<not> byte_in 0 127 a" "s = b # c # d # s4" "\<not> utf8_2 a b"
      "\<not> utf8_3 a b c" "utf8_4 a b c d" "utf8_valid s4"
proof (cases "byte_in 0 127 a")
  case True
  with assms one show ?thesis by simp
next
  case na: False
  with assms obtain b s2 where s: "s = b # s2" by (cases s) simp_all
  show ?thesis
  proof (cases "utf8_2 a b")
    case True
    with assms na s two show ?thesis by simp
  next
    case n2: False
    with assms na s obtain c s3 where s2: "s2 = c # s3" by (cases s2) simp_all
    show ?thesis
    proof (cases "utf8_3 a b c")
      case True
      with assms na s s2 n2 three show ?thesis by simp
    next
      case n3: False
      with assms na s s2 n2 obtain d s4 where "s3 = d # s4" by (cases s3) simp_all
      with assms na s s2 n2 n3 four show ?thesis by simp
    qed
  qed
qed

lemma utf8_append:
  assumes "utf8_valid a" and "utf8_valid b"
  shows "utf8_valid (a @ b)"
  using assms(1)
proof (induction "length a" arbitrary: a rule: less_induct)
  case less
  show ?case
  proof (cases a)
    case Nil
    with assms(2) show ?thesis by simp
  next
    case (Cons c s)
    with less.prems have "utf8_valid (c # s)" by simp
    then show ?thesis
    proof (cases rule: utf8_cases)
      case one
      with less.hyps [of s] Cons show ?thesis by simp
    next
      case (two x s2)
      with less.hyps [of s2] Cons show ?thesis by simp
    next
      case (three x y s3)
      with less.hyps [of s3] Cons show ?thesis by simp
    next
      case (four x y z s4)
      with less.hyps [of s4] Cons show ?thesis by simp
    qed
  qed
qed

lemma utf8_join: "utf8_valid p \<Longrightarrow> utf8_valid n \<Longrightarrow> utf8_valid (join p n)"
  by (simp add: join_def utf8_append)

text \<open>Renaming a path component by component.\<close>

lemma inside_join:
  assumes "plain_name n" and "p' \<noteq> []" and "join p n \<noteq> p'"
  shows "inside p' (join p n) \<longleftrightarrow> inside p' p"
proof
  assume "inside p' (join p n)"
  then obtain s where s: "join p n = p' @ s" "s = [] \<or> hd s = slash" by (rule inside_cases)
  with assms(3) obtain s' where s': "join p n = p' @ slash # s'" by (cases s) auto
  have p: "p \<noteq> []" using s' assms(1,2) by (auto simp: plain_name_def)
  then have eq: "p @ slash # n = p' @ slash # s'" using s' by (simp add: join_def)
  then show "inside p' p"
  proof (cases "slash \<in> set s'")
    case False
    then have "split_path (p' @ slash # s') = (p', s')"
      using rfind_slash_append [of s' p'] by (simp add: split_path_def)
    moreover have "split_path (p @ slash # n) = (p, n)"
      using split_join [OF assms(1), of p] p by (simp add: join_def)
    ultimately show ?thesis using eq by (simp add: inside_def)
  next
    case True
    then obtain i where i: "rfind_slash s' = Some i" by (metis not_None_eq rfind_slash_None)
    have "rfind_slash (xs @ slash # s') = Some (length xs + Suc i)" for xs
      using i by (induction xs) simp_all
    then have "split_path (p' @ slash # s') = (p' @ slash # take i s', drop (Suc i) s')"
      by (simp add: split_path_def)
    moreover have "split_path (p @ slash # n) = (p, n)"
      using split_join [OF assms(1), of p] p by (simp add: join_def)
    ultimately show ?thesis using eq by (auto simp: inside_def)
  qed
next
  assume "inside p' p"
  then obtain s where s: "p = p' @ s" "s = [] \<or> hd s = slash" by (rule inside_cases)
  with assms(2) have "join p n = p' @ (s @ slash # n)" by (simp add: join_def)
  moreover have "hd (s @ slash # n) = slash" using s(2) by (cases s) auto
  ultimately show "inside p' (join p n)" using inside_append [of "s @ slash # n" p'] by simp
qed

lemma renamed_parent_join:
  assumes "plain_name n" and "p' \<noteq> []" "q' \<noteq> []" and "join p n \<noteq> p'"
  shows "renamed_parent p' q' (join p n) = join (renamed_parent p' q' p) n"
  using inside_join [OF assms(1,2,4)] assms(2,3)
  by (auto simp: renamed_parent_def join_def elim!: inside_cases)

lemma renamed_dir_path:
  assumes ready: "rename_ready t old new" and "dir_path t q"
    and q: "\<not> inside (join (fst new) (snd new)) q"
  shows "dir_path (renamed old new now t) (mv old new q)"
proof -
  let ?op = "join (fst old) (snd old)" and ?np = "join (fst new) (snd new)"
  note ok = rename_readyD [OF ready]
  obtain r where r: "ent t old = Some r" using ok(10) by blast
  then have rk: "entry_key r = old" "r \<in> set (entries t)" by (auto dest: ent_key ent_in_set)
  then have nmo: "name_ok (snd old)" using tree_entry [OF ok(1)] by (auto simp: entry_ok_def entry_key_def)
  have ne: "?op \<noteq> []" "?np \<noteq> []" using nmo ok(5) by (simp_all add: name_ok_def)
  show ?thesis
  proof (cases "q = []")
    case True
    moreover have "\<not> inside ?op []" using ne(1) by (auto simp only: inside_def prefix_Nil append_is_Nil_conv)
    ultimately have "mv old new q = []" by (simp add: renamed_parent_def)
    then show ?thesis by (simp add: dir_path_def)
  next
    case False
    with assms(2) obtain d where d: "d \<in> set (entries t)" "e_kind d = ''dir''" "path_of d = q"
      by (auto simp: dir_path_def)
    have nm: "name_ok (e_name d)" using tree_entry [OF ok(1) d(1)] by (simp add: entry_ok_def)
    have "entry_key d \<noteq> new"
      using d(3) q by (auto simp: path_of_def entry_key_def inside_def)
    then have in': "rename_entry old new now d \<in> set (entries (renamed old new now t))"
      using d(1) by (simp add: renamed_def)
    moreover have "path_of (rename_entry old new now d) = mv old new q"
    proof (cases "entry_key d = old")
      case True
      then have "q = ?op" using d(3) by (auto simp: path_of_def entry_key_def)
      with True show ?thesis
        by (simp add: path_of_def rename_entry_def renamed_key_def Let_def renamed_parent_def inside_def)
    next
      case False
      have "join (e_parent d) (e_name d) \<noteq> ?op"
        using False nm nmo join_inject [of "e_name d" "snd old" "e_parent d" "fst old"]
        by (auto simp: entry_key_def name_ok_def)
      from renamed_parent_join [OF _ ne this] nm False d(3) show ?thesis
        by (simp add: path_of_def rename_entry_def renamed_key_def Let_def entry_key_def name_ok_def)
    qed
    ultimately show ?thesis using d(2) by (force simp: dir_path_def)
  qed
qed

text \<open>The target's directory is not moved itself, and the rewritten directories are UTF-8.\<close>

lemma mv_target:
  assumes ready: "rename_ready t old new" and "ent t old = Some r"
  shows "mv old new (fst new) = fst new"
proof -
  let ?op = "join (fst old) (snd old)" and ?np = "join (fst new) (snd new)"
  note ok = rename_readyD [OF ready]
  from assms(2) have "entry_key r = old" "r \<in> set (entries t)" by (auto dest: ent_key ent_in_set)
  then have nmo: "name_ok (snd old)" using tree_entry [OF ok(1)] by (auto simp: entry_ok_def entry_key_def)
  have "\<not> inside ?op (fst new)"
  proof
    assume "inside ?op (fst new)"
    then have "inside ?op ?np \<or> ?np = ?op"
      using inside_join [of "snd new" ?op "fst new"] ok(5) nmo by (auto simp: name_ok_def)
    moreover have "?np \<noteq> ?op"
      using join_inject [of "snd new" "snd old" "fst new" "fst old"] ok(4,5) nmo
      by (auto simp: name_ok_def prod_eq_iff)
    ultimately show False using ok(8) by (auto simp: inside_def)
  qed
  then show ?thesis by (simp add: renamed_parent_def)
qed

lemma mv_utf8:
  assumes ready: "rename_ready t old new" and r0: "ent t old = Some r0" and r: "r \<in> set (entries t)"
  shows "utf8_valid (mv old new (e_parent r))"
proof (cases "inside (join (fst old) (snd old)) (e_parent r)")
  case True
  let ?op = "join (fst old) (snd old)" and ?np = "join (fst new) (snd new)"
  note ok = rename_readyD [OF ready]
  have "ascii ?op"
    using nothing_inside [OF ok(1) _ _ r] source_path [OF ok(1) r0] True ok(11) [OF r0] by blast
  obtain s where s: "e_parent r = ?op @ s" using True by (rule inside_cases)
  with tree_entry [OF ok(1) r] utf8_drop_ascii [OF \<open>ascii ?op\<close>] have "utf8_valid s"
    by (simp add: entry_ok_def)
  moreover have "utf8_valid ?np" using ok(5,7) by (simp add: utf8_join name_ok_def)
  ultimately show ?thesis using True s by (simp add: renamed_parent_def utf8_append)
next
  case False
  with tree_entry [OF rename_readyD(1) [OF ready] r] show ?thesis
    by (simp add: renamed_parent_def entry_ok_def)
qed

lemma renamed_tree_ok:
  assumes ready: "rename_ready t old new"
  shows "tree_ok (renamed old new now t)"
proof -
  let ?np = "join (fst new) (snd new)"
  note ok = rename_readyD [OF ready]
  obtain r0 where r0: "ent t old = Some r0" using ok(10) by blast
  have self: "\<not> inside ?np (fst new)" using ok(5) by (simp add: not_inside_self name_ok_def)
  have "entry_ok (renamed old new now t) (rename_entry old new now r)"
    if r: "r \<in> set (entries t)" "entry_key r \<noteq> new" for r
  proof (cases "entry_key r = old")
    case True
    have "dir_path (renamed old new now t) (fst new)"
      using renamed_dir_path [OF ready ok(6) self, of now] mv_target [OF ready r0] by simp
    with True ok(5,7) tree_entry [OF ok(1) r(1)] show ?thesis
      by (simp add: entry_ok_def) (simp add: rename_entry_def renamed_key_def Let_def)
  next
    case False
    note e = tree_entry [OF ok(1) r(1)]
    have "dir_path (renamed old new now t) (mv old new (e_parent r))"
      using e nothing_inside_target [OF ready r(1)]
      by (intro renamed_dir_path [OF ready]) (simp_all add: entry_ok_def)
    with mv_utf8 [OF ready r0 r(1)] show ?thesis
      using e False
      by (simp add: entry_ok_def)
        (simp add: rename_entry_def renamed_key_def Let_def entry_key_def)
  qed
  then show ?thesis
    using renamed_keys_ok [OF ready] by (auto simp: tree_ok_def) (auto simp: renamed_def)
qed

end
