(* ===== verification/Tree_Correct.thy ===== *)
theory Tree_Correct
  imports Db_Rename Contents_Correct
begin

text \<open>
  The properties of the directory tree under any faults of the database: creating, removing
  and renaming entries.
\<close>

section \<open>Creating\<close>

definition inserted :: "tables \<Rightarrow> key \<Rightarrow> string \<Rightarrow> int \<Rightarrow> tables \<Rightarrow> bool" where
  "inserted t k kind now t' \<longleftrightarrow> blk t' = blk t \<and>
     ent t' = (case ent t k of None \<Rightarrow> (ent t)(k \<mapsto> new_entry k kind now) | Some _ \<Rightarrow> ent t)"

lemma insert_op_correct:
  assumes "well_formed (tabs s)" and "dir_path (tabs s) p" and "utf8_valid p" and "name_ok n"
    and kind: "kind = ''file'' \<or> kind = ''dir''"
    and op: "op = db_bind (pg_exec_now step (insert_entry (p, n) kind)) (\<lambda>_. timed_return ())"
    and at: "atomic_op op" and run: "op s = (r, s')"
  shows "well_formed (tabs s') \<and>
    (tabs s' = tabs s \<or> inserted (tabs s) (p, n) kind (pg_now s) (tabs s')) \<and>
    (r = Inr () \<longrightarrow> inserted (tabs s) (p, n) kind (pg_now s) (tabs s'))"
proof -
  let ?t = "case ent (tabs s) (p, n) of
       None \<Rightarrow> (tabs s)\<lparr>entries := entries (tabs s) @ [new_entry (p, n) kind (pg_now s)]\<rparr>
     | Some _ \<Rightarrow> tabs s"
  have "op (calm s) = (Inr (), record_latency ((calm s)\<lparr>tabs := ?t\<rparr>))"
    using insert_calm [OF _ op, of "calm s"] by (simp split: option.split)
  then have t: "tabs (snd (op (calm s))) = ?t" by simp
  have ins: "inserted (tabs s) (p, n) kind (pg_now s) ?t"
  proof (cases "ent (tabs s) (p, n)")
    case None
    from ent_insert_entry [OF insert_entry_new [OF None]] None show ?thesis
      by (simp add: inserted_def blk_def fun_eq_iff)
  qed (simp add: inserted_def)
  have wf: "well_formed ?t"
    using assms(1-4) kind
    by (auto simp: well_formed_def no_orphans_insert intro: tree_ok_insert split: option.split)
  have "tabs s' = tabs s \<or> tabs s' = ?t"
    using atomic_op.all_or_nothing [OF at, of s] by (simp add: run t)
  moreover have "r = Inr () \<Longrightarrow> tabs s' = ?t"
    using atomic_op.success_tabs [OF at, of s] by (simp add: run t)
  ultimately show ?thesis using ins wf assms(1) by auto
qed

text \<open>C14. \<open>create\<close> in an existing directory, under any faults, keeps the tables well formed and
  adds an empty file under a free key or nothing; on success it has added it, and an entry
  that was there is left as it was.\<close>

theorem create_correct:
  assumes "well_formed (tabs s)" and "dir_path (tabs s) p" and "utf8_valid p" and "name_ok n"
    and "create p n s = (r, s')"
  shows "well_formed (tabs s') \<and>
    (tabs s' = tabs s \<or> inserted (tabs s) (p, n) ''file'' (pg_now s) (tabs s')) \<and>
    (r = Inr () \<longrightarrow> inserted (tabs s) (p, n) ''file'' (pg_now s) (tabs s'))"
  by (rule insert_op_correct [OF assms(1-4) _ create_def _ assms(5)]) (simp, rule cr.atomic_op_axioms)

theorem create_correct_witness:
  "inserted demo (''docs'', ''b'') ''file'' 0
     (tabs (snd (create ''docs'' ''b'' (db_with demo []))))"
proof -
  have "dir_path demo ''docs''" "name_ok ''b''"
    by (simp_all add: dir_path_def path_of_def demo_defs name_ok_def plain_name_def byte_in_def)
  moreover obtain s' where "create ''docs'' ''b'' (db_with demo []) = (Inr (), s')"
    using create_calm [of "db_with demo []" "''docs''" "''b''"] by simp
  ultimately show ?thesis
    using create_correct [of "db_with demo []" "''docs''" "''b''" "Inr ()" s'] demo_well_formed
    by (simp add: byte_in_def)
qed

text \<open>\<open>mkdir\<close> likewise adds a directory row.\<close>

theorem mkdir_correct:
  assumes "well_formed (tabs s)" and "dir_path (tabs s) p" and "utf8_valid p" and "name_ok n"
    and "mkdir p n s = (r, s')"
  shows "well_formed (tabs s') \<and>
    (tabs s' = tabs s \<or> inserted (tabs s) (p, n) ''dir'' (pg_now s) (tabs s')) \<and>
    (r = Inr () \<longrightarrow> inserted (tabs s) (p, n) ''dir'' (pg_now s) (tabs s'))"
  by (rule insert_op_correct [OF assms(1-4) _ mkdir_def _ assms(5)]) (simp, rule mk.atomic_op_axioms)

theorem mkdir_correct_witness:
  "inserted demo ('''', ''tmp'') ''dir'' 0 (tabs (snd (mkdir '''' ''tmp'' (db_with demo []))))"
proof -
  have "dir_path demo ''''" "name_ok ''tmp''"
    by (simp_all add: dir_path_def name_ok_def plain_name_def byte_in_def)
  moreover obtain s' where "mkdir '''' ''tmp'' (db_with demo []) = (Inr (), s')"
    using mkdir_calm [of "db_with demo []" "''''" "''tmp''"] by simp
  ultimately show ?thesis
    using mkdir_correct [of "db_with demo []" "''''" "''tmp''" "Inr ()" s'] demo_well_formed by simp
qed

section \<open>Removing\<close>

lemma tree_ok_without:
  assumes "tree_ok t" and "\<And>r. ent t k = Some r \<Longrightarrow> e_kind r \<noteq> ''dir'' \<or> childless t (path_of r)"
  shows "tree_ok (without k t)"
    and "tree_ok (t\<lparr>entries := filter (\<lambda>r. entry_key r \<noteq> k) (entries t)\<rparr>)"
proof -
  note k = tree_keys_ok [OF assms(1)]
  have d: "distinct (map block_key (blocks t))" using k by (simp add: keys_ok_def)
  have r: "e_kind r \<noteq> ''dir'' \<or> childless t (path_of r)"
    if "r \<in> set (entries t)" "entry_key r = k" for r
    using that assms(2) ent_iff [OF k] by blast
  show "tree_ok (without k t)"
    unfolding without_def by (rule tree_ok_remove [OF assms(1) r]) (use d in auto)
  have "tree_ok (t\<lparr>entries := filter (\<lambda>r. entry_key r \<noteq> k) (entries t), blocks := blocks t\<rparr>)"
    by (rule tree_ok_remove [OF assms(1) r]) (use d in auto)
  then show "tree_ok (t\<lparr>entries := filter (\<lambda>r. entry_key r \<noteq> k) (entries t)\<rparr>)" by simp
qed

lemma exec_tabs:
  "tabs (snd (pg_exec step f s)) = tabs s \<or> tabs (snd (pg_exec step f s)) = after f (tabs s)"
  by (cases rule: pg_exec_cases [of s step f])
    (auto simp: run_stmt_def after_def dest!: calm_eq_tabs split: option.split)

lemma exec_Inr_tabs:
  assumes "pg_exec step f s = (Inr x, s')"
  shows "tabs s' = after f (tabs s)"
proof (cases rule: pg_exec_cases [of s step f])
  case (ran u)
  with assms show ?thesis by (auto simp: run_stmt_def after_def dest!: calm_eq_tabs split: option.splits)
qed (use assms in auto)

lemma unlink_outcome:
  assumes "well_formed (tabs s)" and "is_file (tabs s) (p, n) sz" and "unlink p n s = (r, s')"
  defines "t \<equiv> tabs s"
  shows "tree_ok (tabs s') \<and>
    tabs s' \<in> {t, t\<lparr>entries := filter (\<lambda>r. entry_key r \<noteq> (p, n)) (entries t)\<rparr>, without (p, n) t} \<and>
    (r = Inr () \<longrightarrow> tabs s' = without (p, n) t \<and> well_formed (tabs s'))"
proof -
  let ?k = "(p, n)"
  let ?e = "t\<lparr>entries := filter (\<lambda>r. entry_key r \<noteq> ?k) (entries t)\<rparr>"
  have t: "tree_ok t" "no_orphans t" using assms(1) by (simp_all add: well_formed_def t_def)
  have fil: "e_kind r \<noteq> ''dir'' \<or> childless t (path_of r)" if "ent t ?k = Some r" for r
    using assms(2) that by (auto simp: is_file_def t_def)
  have e: "after (delete_entry ?k) t = ?e" and w: "after (delete_blocks ?k) ?e = without ?k t"
    by (simp_all add: after_def delete_entry_def delete_blocks_def without_def)
  obtain r1 s1 where one: "pg_exec Remove_entry (delete_entry ?k) s = (r1, s1)"
    by (cases "pg_exec Remove_entry (delete_entry ?k) s")
  have s1: "tabs s1 = t \<or> tabs s1 = ?e"
    using exec_tabs [of Remove_entry "delete_entry ?k" s] by (simp add: one e flip: t_def)
  have main: "tabs s' \<in> {t, ?e, without ?k t} \<and> (r = Inr () \<longrightarrow> tabs s' = without ?k t)"
  proof (cases r1)
    case (Inl err)
    with assms(3) one s1 show ?thesis by (auto simp: unlink_def db_bind_def)
  next
    case (Inr x)
    with one exec_Inr_tabs have e1: "tabs s1 = ?e" by (metis e t_def)
    obtain r2 s2 where two: "pg_exec Remove_blocks (delete_blocks ?k) s1 = (r2, s2)"
      by (cases "pg_exec Remove_blocks (delete_blocks ?k) s1")
    have "tabs s2 = ?e \<or> tabs s2 = without ?k t"
      using exec_tabs [of Remove_blocks "delete_blocks ?k" s1] by (simp add: two e1 w)
    moreover have "tabs s2 = without ?k t" if "r2 = Inr y" for y
      using exec_Inr_tabs [OF two [unfolded that]] by (simp add: e1 w)
    ultimately show ?thesis
      using assms(3) one two Inr by (cases r2) (auto simp: unlink_def db_bind_def timed_return_def)
  qed
  have "no_orphans (without ?k t)" unfolding without_def by (rule no_orphans_unlink [OF t(2)])
  with main tree_ok_without [OF t(1) fil] t show ?thesis by (auto simp: well_formed_def)
qed

text \<open>C15. \<open>unlink\<close> of a file: on success exactly the entry and its blocks are gone and the
  tables are well formed. It is two transactions, so a fault may remove the entry and leave
  the blocks; the tree is well formed in every case.\<close>

theorem unlink_correct:
  assumes "well_formed (tabs s)" and "is_file (tabs s) (p, n) sz" and "unlink p n s = (r, s')"
  defines "t \<equiv> tabs s"
  shows "tree_ok (tabs s') \<and>
    tabs s' \<in> {t, t\<lparr>entries := filter (\<lambda>r. entry_key r \<noteq> (p, n)) (entries t)\<rparr>, without (p, n) t} \<and>
    (r = Inr () \<longrightarrow> tabs s' = without (p, n) t \<and> well_formed (tabs s'))"
  using unlink_outcome [OF assms(1-3)] unfolding t_def .

theorem unlink_correct_witness:
  "tabs (snd (unlink ''docs'' ''a'' (db_with demo []))) = without (''docs'', ''a'') demo"
proof -
  obtain s' where "unlink ''docs'' ''a'' (db_with demo []) = (Inr (), s')"
    using unlink_calm [of "db_with demo []"] by simp
  then show ?thesis
    using unlink_correct [of "db_with demo []" "''docs''" "''a''" 3 "Inr ()" s'] demo_well_formed demo_a
    by simp
qed

lemma rmdir_outcome:
  assumes "well_formed (tabs s)" and "is_dir (tabs s) (p, n)" and "rmdir p n s = (r, s')"
  defines "t \<equiv> tabs s"
  defines "gone \<equiv> t\<lparr>entries := filter (\<lambda>r. entry_key r \<noteq> (p, n)) (entries t)\<rparr>"
  shows "well_formed (tabs s') \<and> (tabs s' = t \<or> childless t (join p n) \<and> tabs s' = gone) \<and>
    (\<forall>b. r = Inr b \<longrightarrow> (b \<longleftrightarrow> childless t (join p n)) \<and> tabs s' = (if b then gone else t))"
proof -
  have tree: "tree_ok t" "no_orphans t" using assms(1) by (simp_all add: well_formed_def t_def)
  obtain q where q: "ent t (p, n) = Some q" "e_kind q = ''dir''"
    using assms(2) by (auto simp: is_dir_def t_def)
  have path: "path_of q = join p n" using ent_key [OF q(1)] by (rule path_of_key)
  have sel: "select_entry (p, n) t \<noteq> []"
    using select_entry_ent [OF tree_keys_ok [OF tree(1)], of "(p, n)"] q(1) by simp
  have run: "rmdir p n (calm s) =
    (if childless t (join p n) then (Inr True, record_latency ((calm s)\<lparr>tabs := gone\<rparr>))
     else (Inr False, record_latency (calm s)))"
    using rmdir_calm [of "calm s" p n] sel by (simp add: t_def gone_def)
  let ?b = "childless t (join p n)"
  have c: "fst (rmdir p n (calm s)) = Inr ?b"
    "tabs (snd (rmdir p n (calm s))) = (if ?b then gone else t)"
    using run by (simp_all add: t_def)
  have "well_formed gone" if ?b
    using tree_ok_without(2) [OF tree(1), of "(p, n)"] q path that
      no_orphans_remove_dir [OF tree(2) tree_keys_ok [OF tree(1)], of "(p, n)"]
    by (simp add: well_formed_def gone_def)
  moreover have "tabs s' = t \<or> tabs s' = (if ?b then gone else t)"
    using rd.all_or_nothing [of p n s] assms(3) c(2) by (simp add: t_def)
  moreover have "b = ?b \<and> tabs s' = (if ?b then gone else t)" if "r = Inr b" for b
    using rd.success_is_calm [of p n s b s'] assms(3) that c by auto
  ultimately show ?thesis using assms(1) by (cases ?b) (auto simp: t_def)
qed

text \<open>C16. \<open>rmdir\<close> of a directory, under any faults: its answer says whether the directory was
  there and had no children; then, and only then, exactly its row is gone.\<close>

theorem rmdir_correct:
  assumes "well_formed (tabs s)" and "is_dir (tabs s) (p, n)" and "rmdir p n s = (r, s')"
  defines "t \<equiv> tabs s"
  defines "gone \<equiv> t\<lparr>entries := filter (\<lambda>r. entry_key r \<noteq> (p, n)) (entries t)\<rparr>"
  shows "well_formed (tabs s') \<and> (tabs s' = t \<or> childless t (join p n) \<and> tabs s' = gone) \<and>
    (\<forall>b. r = Inr b \<longrightarrow> (b \<longleftrightarrow> childless t (join p n)) \<and> tabs s' = (if b then gone else t))"
  using rmdir_outcome [OF assms(1-3)] unfolding t_def gone_def .

theorem rmdir_correct_witness:
  "tabs (snd (rmdir '''' ''docs'' (db_with demo []))) = demo"
proof -
  have d: "is_dir demo ('''', ''docs'')" by (simp add: is_dir_def ent_def demo_defs entry_key_def)
  have "\<not> childless demo ''docs''" by (simp add: childless_def demo_defs)
  then show ?thesis
    using rmdir_correct [of "db_with demo []" "''''" "''docs''" "fst (rmdir '''' ''docs'' (db_with demo []))"
      "snd (rmdir '''' ''docs'' (db_with demo []))"] demo_well_formed d by simp
qed

section \<open>Renaming\<close>

lemma rename_runs:
  assumes "rename_ready (tabs s) (op, on) (np, nn)" and "rename op on np nn s = (r, s')"
  defines "t' \<equiv> renamed (op, on) (np, nn) (pg_now s) (tabs s)"
  shows "(tabs s' = tabs s \<or> tabs s' = t') \<and> (r = Inr () \<longrightarrow> tabs s' = t')"
proof -
  obtain u where u: "rename op on np nn (calm s) = (Inr (), u)" "tabs u = t'"
    using rename_calm [of "calm s" op on np nn] assms(1) by (simp add: t'_def) blast
  have "tabs s' = tabs s \<or> tabs s' = t'"
    using rn.all_or_nothing [of op on np nn s] by (simp only: assms(2) u snd_conv)
  moreover have "tabs s' = t'" if "r = Inr ()"
    using rn.success_tabs [OF assms(2) [unfolded that]] by (simp only: u snd_conv)
  ultimately show ?thesis by blast
qed

text \<open>C3. \<open>rename\<close>, under any faults, does nothing or relocates the entry and everything below
  it and replaces the target; on success it has done so; the tables stay well formed.\<close>

theorem rename_correct:
  assumes "rename_ready (tabs s) (op, on) (np, nn)" and "rename op on np nn s = (r, s')"
  defines "t' \<equiv> renamed (op, on) (np, nn) (pg_now s) (tabs s)"
  shows "well_formed (tabs s') \<and> (tabs s' = tabs s \<or> tabs s' = t') \<and> (r = Inr () \<longrightarrow> tabs s' = t')"
  using rename_runs [OF assms(1,2)] rename_readyD(1,2) [OF assms(1)]
    renamed_tree_ok [OF assms(1)] renamed_no_orphans [OF assms(1)]
  by (auto simp: well_formed_def t'_def)

lemma demo_ready: "rename_ready demo ('''', ''docs'') ('''', ''x'')"
  using demo_well_formed
  by (simp add: rename_ready_def Let_def well_formed_def name_ok_def plain_name_def dir_path_def
      join_def byte_in_def ent_def demo_defs entry_key_def no_wildcard_def)

theorem rename_correct_witness:
  "tabs (snd (rename '''' ''docs'' '''' ''x'' (db_with demo []))) =
     renamed ('''', ''docs'') ('''', ''x'') 0 demo"
proof -
  obtain s' where r: "rename '''' ''docs'' '''' ''x'' (db_with demo []) = (Inr (), s')"
    using rename_calm [of "db_with demo []" "''''" "''docs''" "''''" "''x''"] demo_ready by auto
  from rename_correct [OF _ r] demo_ready r show ?thesis by simp
qed

text \<open>C12. After a rename that returns, every file but the replaced target is found under its
  renamed key with the size and the bytes it had.\<close>

theorem rename_keeps_files:
  assumes "rename_ready (tabs s) (op, on) (np, nn)" and "rename op on np nn s = (Inr (), s')"
    and "is_file (tabs s) k n" and "k \<noteq> (np, nn)"
  shows "is_file (tabs s') (renamed_key (op, on) (np, nn) k) n \<and>
    file_bytes (tabs s') (renamed_key (op, on) (np, nn) k) n = file_bytes (tabs s) k n"
  using rename_runs [OF assms(1,2)] renamed_file [OF assms(1,3,4), of "pg_now s"]
  by (simp add: file_bytes_def)

theorem rename_keeps_files_witness:
  "is_file (tabs (snd (rename '''' ''docs'' '''' ''x'' (db_with demo [])))) (''x'', ''a'') 3"
proof -
  obtain s' where r: "rename '''' ''docs'' '''' ''x'' (db_with demo []) = (Inr (), s')"
    using rename_calm [of "db_with demo []" "''''" "''docs''" "''''" "''x''"] demo_ready by auto
  have "renamed_key ('''', ''docs'') ('''', ''x'') (''docs'', ''a'') = (''x'', ''a'')"
    by (simp add: renamed_key_def renamed_parent_def inside_def)
  with rename_keeps_files [OF _ r, of "(''docs'', ''a'')" 3] demo_ready demo_a r show ?thesis by simp
qed

lemma rename_unchanged:
  assumes "well_formed (tabs s)" and "(op, on) \<noteq> (np, nn)"
    and bad: "ent (tabs s) (op, on) = None \<or>
      is_dir (tabs s) (np, nn) \<and> \<not> childless (tabs s) (join np nn)"
    and run: "rename op on np nn s = (r, s')"
  shows "r \<noteq> Inr () \<and> tabs s' = tabs s"
proof -
  let ?s = "calm s"
  have tree: "tree_ok (tabs s)" using assms(1) by (simp add: well_formed_def)
  note k = tree_keys_ok [OF tree]
  have ne: "\<not> (op = np \<and> on = nn)" using assms(2) by simp
  have "\<exists>e. fst (rename op on np nn ?s) = Inl e \<and> tabs (snd (rename op on np nn ?s)) = tabs s"
  proof (cases "ent (tabs s) (op, on)")
    case None
    then show ?thesis
      using k by (simp only: rename_def ne if_False)
        (simp add: db_bind_def getattr_primary_calm meta_opt_def db_fail_def)
  next
    case (Some q)
    then have "entry_ok (tabs s) q" by (intro tree_entry [OF tree] ent_in_set)
    with Some obtain m where m: "meta_opt (ent (tabs s) (op, on)) = Inr (Some m)"
      by (auto simp: meta_opt_def entry_ok_def row_to_meta_ok)
    from bad Some obtain d where d: "ent (tabs s) (np, nn) = Some d" "e_kind d = ''dir''"
      and "\<not> childless (tabs s) (join np nn)" by (auto simp: is_dir_def)
    then have c: "find (\<lambda>r. e_parent r = join np nn) (entries (tabs s)) \<noteq> None"
      by (simp only: find_child_None not_False_eq_True)
    have "rename_target np nn (record_latency ?s) =
        (Inl (Target_not_empty (join np nn)), record_latency ?s)"
      using d c k by (simp add: rename_target_def Let_def db_bind_def exec_opt_calm sql_opt_entry
          sql_opt_one_child db_fail_def)
    then have "rename_txn op on np nn m (record_latency ?s) =
        (Inl (Target_not_empty (join np nn)), record_latency ?s)"
      by (simp add: rename_txn_def Let_def db_bind_def)
    then show ?thesis
      using k by (simp only: rename_def ne if_False)
        (simp add: db_bind_def getattr_primary_calm m pg_transaction_calm)
  qed
  then show ?thesis
    using rn.all_or_nothing [of op on np nn s] rn.success_is_calm [of op on np nn s] run by auto
qed

text \<open>A rename whose source is missing, or whose target is a directory with children,
  fails and changes nothing, under any faults.\<close>

theorem rename_refused:
  assumes "well_formed (tabs s)" and "(op, on) \<noteq> (np, nn)"
    and bad: "ent (tabs s) (op, on) = None \<or>
      is_dir (tabs s) (np, nn) \<and> \<not> childless (tabs s) (join np nn)"
    and run: "rename op on np nn s = (r, s')"
  shows "r \<noteq> Inr () \<and> tabs s' = tabs s"
  using rename_unchanged [OF assms] .

theorem rename_refused_witness:
  "tabs (snd (rename '''' ''gone'' '''' ''x'' (db_with demo [Served, Reply_lost]))) = demo"
proof -
  have "ent demo ('''', ''gone'') = None" by (simp add: ent_def demo_defs entry_key_def)
  then show ?thesis
    using rename_refused [of "db_with demo [Served, Reply_lost]" "''''" "''gone''" "''''" "''x''"
        "fst (rename '''' ''gone'' '''' ''x'' (db_with demo [Served, Reply_lost]))"
        "snd (rename '''' ''gone'' '''' ''x'' (db_with demo [Served, Reply_lost]))"]
      demo_well_formed by simp
qed

end
