(* ===== verification/Known_Limits.thy ===== *)
theory Known_Limits
  imports Tree_Correct
begin

text \<open>
  Where the code does something other than it means to: each statement is proved of the
  model as the code is, in general form where the effect has one, else on a small database.
\<close>

section \<open>Buffered writes over existing contents\<close>

text \<open>C34. A flush replaces the whole stored block: after buffered writes are flushed to a file,
  every byte of a touched block that no write covered is zero, whatever it was.\<close>

theorem flush_zeroes_gaps:
  assumes "keys_ok (tabs d)" and "is_file (tabs d) (p, n) sz" and "sz \<le> MAX_BYTES"
    and "writes_ok ws" and "ws \<noteq> []" and "handle_writes ws (handle_new p n) = Some h"
    and run: "flush_handle fh (AList.update fh h handles) d = (Inr (), handles', d')"
    and "int (x div BLOCK_SIZE) \<in> touched ws" and "\<not> covered ws x"
  shows "byte_at (tabs d') (p, n) x = 0"
proof -
  let ?m = "length (spec_writes ws [])"
  obtain ds where ds: "h = (handle_new p n)\<lparr>max_size := ?m, dirty_blocks := ds\<rparr>"
    "distinct (map fst ds)" "fst ` set ds = touched ws"
    "\<And>x. buffered ds x = (if covered ws x then byte0 (spec_writes ws []) x else 0)"
    using handle_writes_ok [OF assms(4), of "handle_new p n"] assms(6) by auto
  have m: "?m \<le> MAX_BYTES" using assms(4) by (rule length_spec_writes_MAX)
  have "0 < ?m"
    using assms(4,5) length_spec_writes [of "tl ws" "spec_write (fst (hd ws)) (snd (hd ws)) []"]
    by (cases ws) auto
  then have wb: "write_blocks_batch p n ds ?m d = (Inr (), d')"
    using flush_handle_batch [OF _ _ run, of h] ds(1) by (simp add: update_conv')
  obtain u where u: "write_blocks_batch p n ds ?m (calm d) = (Inr (), u)"
    "batched (p, n) sz ds ?m (tabs d) (tabs u)"
    using write_blocks_batch_calm [of "calm d" p n sz ?m ds] assms(1-3) m ds(2) by auto
  have "tabs d' = tabs u" using wb.success_tabs [OF wb] by (simp add: u(1))
  then have "byte_at (tabs d') (p, n) x = with_dirty ds (byte_at (tabs d) (p, n)) x"
    using u(2) by (simp add: batched_def)
  also have "\<dots> = buffered ds x"
  proof -
    obtain v where "map_of ds (int (x div BLOCK_SIZE)) = Some v"
      using ds(3) assms(8) by (metis map_of_eq_None_iff not_None_eq)
    then show ?thesis by (simp add: with_dirty_def buffered_def)
  qed
  finally show ?thesis using ds(4) assms(9) by simp
qed

theorem flush_zeroes_gaps_witness:
  "\<exists>h d'. handle_writes [(1, [9])] (handle_new ''docs'' ''a'') = Some h \<and>
     flush_handle 1 (AList.update 1 h []) (db_with demo []) =
       (Inr (), AList.update 1 (h\<lparr>dirty_blocks := [], max_size := 0\<rparr>) [], d') \<and>
     byte_at demo (''docs'', ''a'') 0 = 1 \<and> byte_at (tabs d') (''docs'', ''a'') 0 = 0"
proof -
  obtain h where h: "handle_writes [(1, [9])] (handle_new ''docs'' ''a'') = Some h"
    "hb_parent h = ''docs''" "hb_name h = ''a''" "max_size h = 2" "distinct (map fst (dirty_blocks h))"
    using handle_writes_ok [of "[(1, [9])]" "handle_new ''docs'' ''a''"] by auto
  then obtain d' where d': "flush_handle 1 (AList.update 1 h []) (db_with demo []) =
       (Inr (), AList.update 1 (h\<lparr>dirty_blocks := [], max_size := 0\<rparr>) [], d')"
    using flush_handle_calm [of "db_with demo []" "AList.update 1 h []" 1 h 3] demo_keys demo_a by auto
  have "0 \<in> touched [(1, [9])]" by (simp add: block_range_nat BLOCK_SIZE_def)
  then have "byte_at (tabs d') (''docs'', ''a'') 0 = 0"
    using flush_zeroes_gaps [OF _ _ _ _ _ h(1) d', of 3 0] demo_keys demo_a by simp
  moreover have "byte_at demo (''docs'', ''a'') 0 = 1"
    by (simp add: byte_at_def stored_byte_def blk_def demo_defs block_key_def byte0_def)
  ultimately show ?thesis using h(1) d' by blast
qed

text \<open>A flush that fails has already taken the handle out of the table: the buffered
  bytes are gone, and the next flush of the handle reports success without writing.\<close>

theorem failed_flush_drops_buffer:
  assumes "flush_handle fh handles d = (Inl e, handles', d')"
  shows "map_of handles' fh = None \<and> flush_handle fh handles' d'' = (Inr (), handles', d'')"
proof -
  have "map_of handles' fh = None"
    using assms
    by (auto simp: flush_handle_def Let_def delete_conv' split: option.splits prod.splits sum.splits if_splits)
  then show ?thesis by (simp add: flush_handle_def)
qed

theorem failed_flush_drops_buffer_witness:
  "\<exists>h handles' d'. handle_writes [(0, [9])] (handle_new ''docs'' ''new'') = Some h \<and>
     flush_handle 1 [(1, h)] (db_with demo [Refused]) = (Inl (Query_failed Get_attributes), handles', d') \<and>
     flush_handle 1 handles' d' = (Inr (), handles', d') \<and> tabs d' = demo"
proof -
  obtain h where h: "handle_writes [(0, [9])] (handle_new ''docs'' ''new'') = Some h" "max_size h = 1"
    using handle_writes_ok [of "[(0, [9])]" "handle_new ''docs'' ''new''"] by auto
  then obtain handles' d' where f: "flush_handle 1 [(1, h)] (db_with demo [Refused]) =
      (Inl (Query_failed Get_attributes), handles', d')" and t: "tabs d' = demo"
    by (simp add: flush_handle_def write_blocks_batch_def db_bind_def getattr_primary_def pg_exec_def
        Let_def db_with_def)
  from failed_flush_drops_buffer [OF f, of d'] have "flush_handle 1 handles' d' = (Inr (), handles', d')"
    by simp
  with h f t show ?thesis by blast
qed

section \<open>Truncation to a block boundary\<close>

text \<open>C36. Shrinking a file and growing it again: the bytes between are zero, except that when
  the smaller size is a multiple of the block size the whole block that starts there is
  still stored and shows again.\<close>

theorem shrink_then_grow:
  assumes "keys_ok (tabs s)" and "is_file (tabs s) (p, n) sz" and "sz \<le> MAX_BYTES"
    and "small < sz" and "small \<le> large" and "large < 2 ^ 63"
    and one: "db_truncate p n small s = (Inr (), s1)"
    and two: "db_truncate p n large (s1\<lparr>fates := fs\<rparr>) = (Inr (), s2)" and "x < large"
  shows "file_bytes (tabs s2) (p, n) large ! x =
    (if x < small \<or> small mod BLOCK_SIZE = 0 \<and> x div BLOCK_SIZE = small div BLOCK_SIZE
     then byte_at (tabs s) (p, n) x else 0)"
proof -
  obtain u where u: "db_truncate p n small (calm s) = (Inr (), u)"
    "truncated (p, n) sz small (tabs s) (tabs u)"
    using truncate_calm [of "calm s" p n sz small] assms(1-6) by auto
  have s1: "tabs s1 = tabs u" using tr.success_tabs [OF one] by (simp add: u(1))
  let ?s1 = "s1\<lparr>fates := fs\<rparr>"
  have "keys_ok (tabs (calm ?s1))" "is_file (tabs (calm ?s1)) (p, n) small"
    using u(2) by (simp_all add: s1 truncated_def)
  then obtain v where v: "db_truncate p n large (calm ?s1) = (Inr (), v)"
    "truncated (p, n) small large (tabs u) (tabs v)"
    using truncate_calm [of "calm ?s1" p n small large] assms(3-6) by (auto simp: s1)
  have "tabs s2 = tabs v" using tr.success_tabs [OF two] by (simp only: v(1) snd_conv)
  then show ?thesis
    using u(2) v(2) assms(4,5,9) by (simp add: truncated_def survives_def)
qed

theorem shrink_then_grow_witness:
  "\<exists>s1 s2. db_truncate ''docs'' ''a'' 0 (db_with demo []) = (Inr (), s1) \<and>
     db_truncate ''docs'' ''a'' 3 s1 = (Inr (), s2) \<and>
     file_bytes (tabs s2) (''docs'', ''a'') 3 ! 1 = 2"
proof -
  obtain s1 where s1: "db_truncate ''docs'' ''a'' 0 (db_with demo []) = (Inr (), s1)" "fates s1 = []"
    "truncated (''docs'', ''a'') 3 0 demo (tabs s1)"
    using truncate_calm [of "db_with demo []" "''docs''" "''a''" 3 0] demo_keys demo_a by auto
  then obtain s2 where s2: "db_truncate ''docs'' ''a'' 3 s1 = (Inr (), s2)"
    using truncate_calm [of s1 "''docs''" "''a''" 0 3] by (auto simp: truncated_def)
  have "s1\<lparr>fates := []\<rparr> = s1" using s1(2) by simp
  with shrink_then_grow [OF _ _ _ _ _ _ s1(1), of 3 3 "[]" s2 1] s2 demo_keys demo_a
  have "file_bytes (tabs s2) (''docs'', ''a'') 3 ! 1 = byte_at demo (''docs'', ''a'') 1"
    by (simp add: BLOCK_SIZE_def)
  moreover have "byte_at demo (''docs'', ''a'') 1 = 2"
    by (simp add: byte_at_def stored_byte_def blk_def demo_defs block_key_def byte0_def BLOCK_SIZE_def)
  ultimately show ?thesis using s1(1) s2 by auto
qed

section \<open>Renaming directories with unusual names\<close>

lemmas rename_run = rename_def rename_txn_def rename_target_def rename_descendants_def db_bind_def
  getattr_primary_def meta_opt_def row_to_meta_def pg_transaction_def pg_exec_def pg_exec_now_def
  run_stmt_def db_return_def timed_return_def sql_read_def sql_opt_def select_entry_def
  select_one_child_def rewrite_entries_def rewrite_blocks_def move_entry_def move_blocks_def
  under_def reparent_def entry_key_def block_key_def block_file_def as_i32_def join_def
  sql_like_def wildcard_defs cont_def substring_after_def Let_def

definition wild :: tables where
  "wild = \<lparr>entries = [demo_entry '''' ''a_b'' ''dir'' 0, demo_entry '''' ''axb'' ''dir'' 0,
              demo_entry ''axb'' ''sub'' ''dir'' 0, demo_entry ''axb/sub'' ''f'' ''file'' 1],
           blocks = [demo_block ''axb/sub'' ''f'' 0 [7]]\<rparr>"

lemma well_formed_by_rows:
  assumes "keys_ok t" and "\<forall>r \<in> set (entries t). entry_ok t r"
    and "\<forall>b \<in> set (blocks t). \<exists>r \<in> set (entries t). entry_key r = block_file b \<and> e_kind r = ''file''"
  shows "well_formed t"
  using assms by (simp add: well_formed_def tree_ok_def no_orphans_def)

lemmas rows_defs = keys_ok_def entry_ok_def dir_path_def path_of_def demo_defs name_ok_def
  plain_name_def join_def byte_in_def entry_key_def block_key_def block_file_def

text \<open>The pattern of the descendant rewrite takes an underscore in the directory's name as
  a wildcard: renaming \<open>a_b\<close> moves the file \<open>axb/sub/f\<close> to \<open>c/sub\<close>, which is no directory.\<close>

theorem rename_matches_siblings:
  "well_formed wild \<and>
   (case rename '''' ''a_b'' '''' ''c'' (db_with wild []) of (r, s') \<Rightarrow>
      r = Inr () \<and> ent (tabs s') (''axb/sub'', ''f'') = None \<and>
      ent (tabs s') (''c/sub'', ''f'') \<noteq> None \<and> \<not> dir_path (tabs s') ''c/sub'')"
proof
  show "well_formed wild"
    by (rule well_formed_by_rows) (simp_all add: wild_def rows_defs)
  show "case rename '''' ''a_b'' '''' ''c'' (db_with wild []) of (r, s') \<Rightarrow>
      r = Inr () \<and> ent (tabs s') (''axb/sub'', ''f'') = None \<and>
      ent (tabs s') (''c/sub'', ''f'') \<noteq> None \<and> \<not> dir_path (tabs s') ''c/sub''"
    by (simp add: rename_run wild_def demo_entry_def demo_block_def)
      (simp add: ent_def dir_path_def path_of_def entry_key_def join_def)
qed

text \<open>A directory named with one character of two bytes, and a file two levels down.\<close>

definition e_acute :: string where
  "e_acute = [CHR 0xC3, CHR 0xA9]"

definition accented :: tables where
  "accented = \<lparr>entries = [demo_entry '''' e_acute ''dir'' 0, demo_entry e_acute ''sub'' ''dir'' 0,
              demo_entry (e_acute @ ''/sub'') ''f'' ''file'' 1],
           blocks = [demo_block (e_acute @ ''/sub'') ''f'' 0 [7]]\<rparr>"

text \<open>The rewrite cuts the parents by the byte length of the path where SQL counts
  characters: renaming a directory with a non-ASCII name to \<open>e\<close> puts its grandchildren under
  \<open>esub\<close> instead of \<open>e/sub\<close>.\<close>

theorem rename_cuts_by_bytes:
  "well_formed accented \<and>
   (case rename '''' e_acute '''' ''e'' (db_with accented []) of (r, s') \<Rightarrow>
      r = Inr () \<and> ent (tabs s') (''e/sub'', ''f'') = None \<and>
      ent (tabs s') (''esub'', ''f'') \<noteq> None \<and> \<not> dir_path (tabs s') ''esub'')"
proof
  have "utf8_valid e_acute" "utf8_valid (e_acute @ ''/sub'')"
    by (simp_all add: e_acute_def byte_in_def utf8_2_def cont_def)
  then show "well_formed accented"
    by (intro well_formed_by_rows) (simp_all add: accented_def rows_defs, simp_all add: e_acute_def)
  show "case rename '''' e_acute '''' ''e'' (db_with accented []) of (r, s') \<Rightarrow>
      r = Inr () \<and> ent (tabs s') (''e/sub'', ''f'') = None \<and>
      ent (tabs s') (''esub'', ''f'') \<noteq> None \<and> \<not> dir_path (tabs s') ''esub''"
    by (simp add: rename_run accented_def demo_entry_def demo_block_def e_acute_def)
      (simp add: ent_def dir_path_def path_of_def entry_key_def join_def)
qed

section \<open>Removal in two steps\<close>

text \<open>C39. When the second statement of \<open>unlink\<close> fails, a file created later under the same
  name and extended shows the contents of the removed one.\<close>

theorem unlink_halfway_resurrects:
  assumes "well_formed (tabs s)" and "is_file (tabs s) (p, n) sz" and "fates s = [Served, Refused]"
    and "m < 2 ^ 63"
    and one: "unlink p n s = (r1, s1)" and two: "create p n s1 = (r2, s2)"
    and three: "db_truncate p n m s2 = (r3, s3)"
  shows "r1 = Inl (Query_failed Remove_blocks) \<and> r2 = Inr () \<and> r3 = Inr () \<and>
    file_bytes (tabs s3) (p, n) m = map (byte_at (tabs s) (p, n)) [0..<m]"
proof -
  let ?k = "(p, n)"
  let ?t = "(tabs s)\<lparr>entries := filter (\<lambda>r. entry_key r \<noteq> ?k) (entries (tabs s))\<rparr>"
  have k: "keys_ok (tabs s)" using assms(1) by (simp add: well_formed_def tree_keys_ok)
  have s1: "r1 = Inl (Query_failed Remove_blocks)" "fates s1 = []" "tabs s1 = ?t"
    using one unlink_halfway [OF assms(3)] by auto
  have del: "delete_entry ?k (tabs s) = Some (length (select_entry ?k (tabs s)), ?t)"
    by (simp add: delete_entry_def)
  have kt: "keys_ok ?t" by (rule keys_ok_delete_entry [OF k del])
  have none: "ent ?t ?k = None" using ent_delete_entry [OF del] by simp
  let ?u = "?t\<lparr>entries := entries ?t @ [new_entry ?k ''file'' (pg_now s1)]\<rparr>"
  have s2: "r2 = Inr ()" "fates s2 = []" "tabs s2 = ?u"
    using two create_calm [OF s1(2), of p n] s1(2,3) none by auto
  have ins: "insert_entry ?k ''file'' (pg_now s1) ?t = Some (1, ?u)"
    by (rule insert_entry_new [OF none])
  have "keys_ok ?u" by (rule keys_ok_insert_entry [OF kt ins])
  moreover have "is_file ?u ?k 0"
    using ent_insert_entry [OF ins] none by (simp add: is_file_def new_entry_def)
  ultimately obtain v where v: "db_truncate p n m s2 = (Inr (), v)" "truncated ?k 0 m ?u (tabs v)"
    using truncate_calm [of s2 p n 0 m] s2 assms(4) by auto
  have "byte_at ?u ?k = byte_at (tabs s) ?k" by (simp add: byte_at_def stored_byte_def blk_def fun_eq_iff)
  with v three s1 s2 show ?thesis by (auto simp: file_bytes_def truncated_def)
qed

theorem unlink_halfway_resurrects_witness:
  "\<exists>s1 s2 s3. unlink ''docs'' ''a'' (db_with demo [Served, Refused]) = (Inl (Query_failed Remove_blocks), s1) \<and>
     create ''docs'' ''a'' s1 = (Inr (), s2) \<and> db_truncate ''docs'' ''a'' 3 s2 = (Inr (), s3) \<and>
     file_bytes (tabs s3) (''docs'', ''a'') 3 = map (byte_at demo (''docs'', ''a'')) [0..<3]"
proof -
  obtain r1 s1 where one: "unlink ''docs'' ''a'' (db_with demo [Served, Refused]) = (r1, s1)" by force
  obtain r2 s2 where two: "create ''docs'' ''a'' s1 = (r2, s2)" by force
  obtain r3 s3 where three: "db_truncate ''docs'' ''a'' 3 s2 = (r3, s3)" by force
  from unlink_halfway_resurrects [OF _ _ _ _ one two three, of 3] demo_well_formed demo_a one two three
  show ?thesis by auto
qed

section \<open>Flushing to a key that is gone\<close>

lemma batch_missing_calm:
  assumes "fates s = []" and "keys_ok (tabs s)" and none: "ent (tabs s) (p, n) = None"
    and "new_size < 2 ^ 63"
  shows "\<exists>s'. write_blocks_batch p n dirty new_size s = (Inr (), s') \<and> fates s' = [] \<and>
    tabs s' = put_all (p, n) dirty (tabs s)"
proof -
  let ?t = "put_all (p, n) dirty (tabs s)"
  have ents: "entries ?t = entries (tabs s)"
    using on_file_put_all [of "(p, n)" "tabs s" "tabs s" dirty] assms(2) by (simp add: on_file_def)
  have "entry_key r \<noteq> (p, n)" if "r \<in> set (entries (tabs s))" for r
    using none that by (auto simp: ent_def find_None_iff)
  then have same: "set_size (p, n) sz now ?t = ?t" for sz now
    by (simp add: set_size_def after_def update_size_def ents map_idI)
  note run = write_blocks_batch_def batch_txn_def db_bind_def db_return_def getattr_primary_calm
    put_blocks_calm pg_transaction_calm exec_set_size_calm timed_return_def Let_def meta_opt_def none same
  show ?thesis
  proof (cases "new_size = 0")
    case True
    show ?thesis
    proof (cases "dirty = []")
      case True
      with \<open>new_size = 0\<close> assms(1) show ?thesis by (simp add: run put_all_simps)
    next
      case False
      with \<open>new_size = 0\<close> assms(1) show ?thesis by (simp add: run)
    qed
  next
    case False
    with assms(1,2) show ?thesis by (simp add: run)
  qed
qed

text \<open>C38. A handle keeps the key it was opened under. When that entry has since been renamed or
  removed, a flush that returns success has changed no entry: the bytes are in blocks that
  belong to no file.\<close>

theorem flush_after_move_is_lost:
  assumes "keys_ok (tabs d)" and "ent (tabs d) (hb_parent h, hb_name h) = None"
    and "map_of handles fh = Some h" and "dirty_blocks h \<noteq> []" and "max_size h < 2 ^ 63"
    and run: "flush_handle fh handles d = (Inr (), handles', d')"
  shows "ent (tabs d') = ent (tabs d) \<and> \<not> no_orphans (tabs d')"
proof -
  let ?k = "(hb_parent h, hb_name h)"
  have wb: "write_blocks_batch (hb_parent h) (hb_name h) (dirty_blocks h) (max_size h) d = (Inr (), d')"
    using flush_handle_batch [OF assms(3) _ run] assms(4) by simp
  obtain u where u: "write_blocks_batch (hb_parent h) (hb_name h) (dirty_blocks h) (max_size h) (calm d) =
      (Inr (), u)" "tabs u = put_all ?k (dirty_blocks h) (tabs d)"
    using batch_missing_calm [of "calm d" "hb_parent h" "hb_name h" "max_size h" "dirty_blocks h"]
      assms(1,2,5) by auto
  have t: "tabs d' = put_all ?k (dirty_blocks h) (tabs d)"
    using wb.success_tabs [OF wb] by (simp only: u snd_conv)
  have on: "on_file ?k (tabs d) (tabs d')"
    unfolding t using assms(1) by (intro on_file_put_all) (simp add: on_file_def)
  then have e: "ent (tabs d') = ent (tabs d)" by (simp add: on_file_def ent_def fun_eq_iff)
  obtain no b rest where dirty: "dirty_blocks h = (no, b) # rest"
    using assms(4) by (metis neq_Nil_conv surj_pair)
  have put_keeps: "blk (put_all ?k ds t0) ?k no \<noteq> None" if "blk t0 ?k no \<noteq> None" for ds t0
    using that by (induction ds arbitrary: t0) (auto simp: put_all_simps put_simps)
  have "blk (tabs d') ?k no \<noteq> None"
    unfolding t dirty put_all_simps by (rule put_keeps) (simp add: put_simps)
  moreover have "keys_ok (tabs d')" using on by (simp add: on_file_def)
  moreover have "ent (tabs d') ?k = None" using e assms(2) by simp
  ultimately have "\<not> no_orphans (tabs d')"
    using no_orphans_iff [of "tabs d'"] by (metis option.distinct(1))
  with e show ?thesis by simp
qed

theorem flush_after_move_is_lost_witness:
  "\<exists>h d'. handle_writes [(0, [9])] (handle_new ''docs'' ''old'') = Some h \<and>
     flush_handle 1 [(1, h)] (db_with demo []) = (Inr (), [(1, h\<lparr>dirty_blocks := [], max_size := 0\<rparr>)], d') \<and>
     ent (tabs d') = ent demo \<and> \<not> no_orphans (tabs d')"
proof -
  obtain h where h: "handle_writes [(0, [9])] (handle_new ''docs'' ''old'') = Some h"
    "hb_parent h = ''docs''" "hb_name h = ''old''" "max_size h = 1"
    "fst ` set (dirty_blocks h) = touched [(0, [9])]"
    using handle_writes_ok [of "[(0, [9])]" "handle_new ''docs'' ''old''"] by auto
  have "0 \<in> touched [(0, [9])]" by (simp add: block_range_nat BLOCK_SIZE_def)
  with h(5) have ne: "dirty_blocks h \<noteq> []" by auto
  have none: "ent demo (''docs'', ''old'') = None" by (simp add: ent_def demo_defs entry_key_def)
  obtain d' where d': "flush_handle 1 [(1, h)] (db_with demo []) =
      (Inr (), [(1, h\<lparr>dirty_blocks := [], max_size := 0\<rparr>)], d')"
    using batch_missing_calm [of "db_with demo []" "''docs''" "''old''" 1 "dirty_blocks h"] demo_keys none h ne
    by (auto simp: flush_handle_def Let_def)
  from flush_after_move_is_lost [OF _ _ _ ne _ d'] h demo_keys none d' show ?thesis by simp
qed

section \<open>Block numbers of 32 bits\<close>

lemma as_i32_high: "2 ^ 31 \<le> n \<Longrightarrow> n < 2 ^ 32 \<Longrightarrow> as_i32 n = int n - 2 ^ 32"
proof -
  assume n: "2 ^ 31 \<le> n" "n < 2 ^ 32"
  have "(int n + 2 ^ 31) mod 2 ^ 32 = (int n + 2 ^ 31 - 2 ^ 32) mod 2 ^ 32"
    by (metis mod_add_self2 diff_add_cancel)
  also have "\<dots> = int n + 2 ^ 31 - 2 ^ 32" using n by (intro mod_pos_pos_trivial) simp_all
  finally show ?thesis by (simp add: as_i32_def)
qed

lemma div_high: "MAX_BYTES \<le> x \<Longrightarrow> x < 2 ^ 48 \<Longrightarrow> 2 ^ 31 \<le> x div BLOCK_SIZE \<and> x div BLOCK_SIZE < 2 ^ 32"
  by (simp add: BLOCK_SIZE_def less_mult_imp_div_less)

lemma block_range_past:
  assumes "offset < stop" and "MAX_BYTES < stop" and "stop \<le> 2 ^ 48"
  shows "offset < MAX_BYTES \<Longrightarrow> block_range offset stop = []"
    and "MAX_BYTES \<le> offset \<Longrightarrow> \<exists>b bs. block_range offset stop = b # bs \<and> b < 0"
proof -
  let ?hi = "(stop - 1) div BLOCK_SIZE"
  have hi: "2 ^ 31 \<le> ?hi" "?hi < 2 ^ 32" using div_high [of "stop - 1"] assms by simp_all
  then have neg: "as_i32 ?hi = int ?hi - 2 ^ 32" by (rule as_i32_high)
  {
    assume "offset < MAX_BYTES"
    then have "as_i32 (offset div BLOCK_SIZE) = int (offset div BLOCK_SIZE)"
      by (intro as_i32_small div_MAX_BYTES)
    with neg hi show "block_range offset stop = []" by (simp add: block_range_def)
  next
    assume "MAX_BYTES \<le> offset"
    with assms have lo: "2 ^ 31 \<le> offset div BLOCK_SIZE" "offset div BLOCK_SIZE < 2 ^ 32"
      using div_high [of offset] by simp_all
    have "offset div BLOCK_SIZE \<le> ?hi" using assms(1) by (intro div_le_mono) simp
    with neg as_i32_high [OF lo] lo show "\<exists>b bs. block_range offset stop = b # bs \<and> b < 0"
      by (simp add: block_range_def upto.simps)
  }
qed

lemma write_past_calm:
  assumes "fates s = []" and "keys_ok (tabs s)" and "data \<noteq> []" and "offset + length data \<le> 2 ^ 48"
    and "MAX_BYTES < offset + length data"
  shows "blocks (tabs (snd (write_range p n offset data s))) = blocks (tabs s) \<and>
    (MAX_BYTES \<le> offset \<longrightarrow> (\<exists>e. fst (write_range p n offset data s) = Inl e) \<and>
      tabs (snd (write_range p n offset data s)) = tabs s)"
proof -
  let ?stop = "offset + length data" and ?s = "record_latency s"
  have stop: "u64_add offset (length data) = Some ?stop" using assms(4) by (simp add: u64_add_def)
  have "offset < ?stop" using assms(3) by simp
  note range = block_range_past [OF this assms(5,4)]
  have get: "getattr_primary p n s = (meta_opt (ent (tabs s) (p, n)), ?s)"
    by (rule getattr_primary_calm [OF assms(1,2)])
  show ?thesis
  proof (cases "meta_opt (ent (tabs s) (p, n))")
    case (Inl e)
    with assms(3) stop get show ?thesis by (simp add: write_range_def db_bind_def)
  next
    case (Inr m)
    let ?size = "max (case m of None \<Rightarrow> 0 | Some m \<Rightarrow> m_size m) ?stop"
    let ?txn = "write_range_txn p n offset data ?stop ?size"
    have run: "write_range p n offset data s = db_bind (pg_transaction ?txn) (\<lambda>_. timed_return ()) ?s"
      using assms(3) stop get Inr by (simp add: write_range_def db_bind_def)
    show ?thesis
    proof (cases "offset < MAX_BYTES")
      case True
      then have "?txn ?s = (Inr (length (select_entry (p, n) (tabs s))), ?s\<lparr>tabs :=
          snd (the (update_size (p, n) (as_i64 ?size) (pg_now s) (tabs s)))\<rparr>)"
        using range(1) assms(1)
        by (simp add: write_range_txn_def db_bind_def db_return_def pg_exec_now_calm run_stmt_def update_size_def)
      from pg_transaction_calm [of ?s ?txn, OF _ this] assms(1) True run show ?thesis
        by (simp add: db_bind_def timed_return_def update_size_def)
    next
      case False
      then obtain b bs where b: "block_range offset ?stop = b # bs" "b < 0" using range(2) by auto
      then have "?txn ?s = (Inl Panic, ?s)"
        by (simp add: write_range_txn_def db_bind_def db_fail_def write_block_def block_span_def)
      from pg_transaction_calm [of ?s ?txn, OF _ this] assms(1) run show ?thesis
        by (simp add: db_bind_def)
    qed
  qed
qed

text \<open>C37. A block number is an \<open>i32\<close>, cast without a check. A write that ends past 128 TiB
  stores no block: when it starts there it panics and changes nothing; when it starts before,
  the range of blocks is empty, and the write may succeed and only grow the size.\<close>

theorem write_past_block_limit:
  assumes "keys_ok (tabs s)" and "data \<noteq> []" and "offset + length data \<le> 2 ^ 48"
    and "MAX_BYTES < offset + length data" and run: "write_range p n offset data s = (r, s')"
  shows "blocks (tabs s') = blocks (tabs s) \<and>
    (MAX_BYTES \<le> offset \<longrightarrow> r \<noteq> Inr () \<and> tabs s' = tabs s)"
proof -
  note calm = write_past_calm [of "calm s" data offset p n, simplified, OF assms(1-4) [simplified]]
  have "tabs s' = tabs s \<or> tabs s' = tabs (snd (write_range p n offset data (calm s)))"
    using wr.all_or_nothing [of p n offset data s] run by simp
  moreover have "r \<noteq> Inr ()" if "MAX_BYTES \<le> offset"
    using wr.success_is_calm [of p n offset data s "()" s'] run calm that by auto
  ultimately show ?thesis using calm by auto
qed

theorem write_past_block_limit_witness:
  "\<exists>s'. write_range ''docs'' ''a'' (2 ^ 47 - 1) [7, 8] (db_with demo []) = (Inr (), s') \<and>
     blocks (tabs s') = blocks demo"
proof -
  have range: "block_range (2 ^ 47 - 1) (2 ^ 47 + 1) = []"
    using block_range_past(1) [of "2 ^ 47 - 1" "2 ^ 47 + 1"] by simp
  obtain m where "meta_opt (ent demo (''docs'', ''a'')) = Inr (Some m)"
    using meta_opt_file [OF demo_a] by blast
  then obtain s' where run: "write_range ''docs'' ''a'' (2 ^ 47 - 1) [7, 8] (db_with demo []) = (Inr (), s')"
    using range demo_keys
    by (simp add: write_range_def u64_add_def db_bind_def getattr_primary_calm write_range_txn_def
        db_return_def pg_transaction_def pg_exec_calm pg_exec_now_calm run_stmt_def sql_read_def
        update_size_def timed_return_def)
  from write_past_block_limit [OF _ _ _ _ run] run demo_keys show ?thesis by simp
qed

end
