(* ===== verification/Db_Frames.thy ===== *)
theory Db_Frames
  imports Db_Writes Db_Namespace Handle_Buffer
begin

text \<open>
  What the operations of \<open>Db\<close> leave alone. An operation is secluded when the standby, its
  freshness cache and the replica counters play no part in it, and it touches neither the
  clock nor the heartbeat's statics nor the error counter. The locale \<open>primary_op\<close> is this
  contract; every operation but the two that read from the standby meets it. The last
  section says on what a flush depends: tables, fates and the server's clock.
\<close>

section \<open>Seclusion\<close>

text \<open>The state without everything that concerns the standby.\<close>

definition no_standby_stats :: "statics \<Rightarrow> statics" where
  "no_standby_stats m =
     m\<lparr>replica_read_count := 0, replica_fallback_count := 0, replica_fallback_warned := False\<rparr>"

definition no_standby :: "db \<Rightarrow> db" where
  "no_standby s =
     s\<lparr>replica := None, freshness_cached := False, freshness_checked_at := None,
       stats := no_standby_stats (stats s)\<rparr>"

text \<open>The clock, the error counters that no code increments, the heartbeat, the counter of \<open>EIO\<close>.\<close>

definition idle_counts :: "statics \<Rightarrow> nat list" where
  "idle_counts m = [eexist_count m, enotempty_count m, eisdir_count m, enotdir_count m, einval_count m]"

definition vitals :: "db \<Rightarrow> (nat \<times> nat list) \<times> nat \<times> nat \<times> nat \<times> bool \<times> nat" where
  "vitals s =
     ((mono_now s, idle_counts (stats s)), liveness (stats s), last_beat_seen (stats s),
      beat_deadline_at (stats s), deadlock_detected (stats s), eio_count (stats s))"

definition unvital :: "'a dbm \<Rightarrow> bool" where
  "unvital m \<longleftrightarrow> (\<forall>s. vitals (snd (m s)) = vitals s)"

definition secluded :: "'a dbm \<Rightarrow> bool" where
  "secluded m \<longleftrightarrow> (\<forall>s. m (no_standby s) = (fst (m s), no_standby (snd (m s)))) \<and> unvital m"

lemma no_standby_simps [simp]:
  "tabs (no_standby s) = tabs s" "fates (no_standby s) = fates s" "pg_now (no_standby s) = pg_now s"
  "mono_now (no_standby s) = mono_now s" "elapsed (no_standby s) = elapsed s"
  "replica (no_standby s) = None"
  "no_standby (s\<lparr>tabs := t\<rparr>) = (no_standby s)\<lparr>tabs := t\<rparr>"
  "no_standby (s\<lparr>fates := fs\<rparr>) = (no_standby s)\<lparr>fates := fs\<rparr>"
  "no_standby (no_standby s) = no_standby s"
  by (simp_all add: no_standby_def no_standby_stats_def)

lemma no_standby_record_latency [simp]:
  "no_standby (record_latency s) = record_latency (no_standby s)"
  by (simp add: no_standby_def no_standby_stats_def record_latency_def)

lemma vitals_frame [simp]:
  "vitals (s\<lparr>tabs := t\<rparr>) = vitals s" "vitals (s\<lparr>fates := fs\<rparr>) = vitals s"
  "vitals (record_latency s) = vitals s" "vitals (s\<lparr>replica := rp\<rparr>) = vitals s"
  "vitals (s\<lparr>freshness_cached := b, freshness_checked_at := t'\<rparr>) = vitals s"
  by (simp_all add: vitals_def idle_counts_def record_latency_def)

lemma run_stmt_secluded:
  "run_stmt step f (no_standby s) = (fst (run_stmt step f s), no_standby (snd (run_stmt step f s)))"
  "vitals (snd (run_stmt step f s)) = vitals s"
  by (simp_all add: run_stmt_def split: option.split)

lemma secluded_exec: "secluded (pg_exec step f)"
proof -
  have "pg_exec step f (no_standby s) = (fst (pg_exec step f s), no_standby (snd (pg_exec step f s)))
      \<and> vitals (snd (pg_exec step f s)) = vitals s" for s
    using run_stmt_secluded [of step f s] run_stmt_secluded [of step f "s\<lparr>fates := tl (fates s)\<rparr>"]
    by (auto simp: pg_exec_def Let_def split: list.split fate.split)
  then show ?thesis by (simp add: secluded_def unvital_def)
qed

lemma secluded_exec_now: "secluded (pg_exec_now step f)"
  using secluded_exec unfolding secluded_def unvital_def pg_exec_now_def by fastforce

lemma secluded_return: "secluded (db_return x)" and secluded_fail: "secluded (db_fail e)"
  and secluded_timed: "secluded (timed_return x)"
  and secluded_result: "secluded (\<lambda>s. (r, record_latency s))"
  by (simp_all add: secluded_def unvital_def db_return_def db_fail_def timed_return_def)

lemma secludedD:
  "secluded m \<Longrightarrow> m s = (r, s') \<Longrightarrow> m (no_standby s) = (r, no_standby s')"
  "secluded m \<Longrightarrow> m s = (r, s') \<Longrightarrow> vitals s' = vitals s"
  by (metis secluded_def fst_conv snd_conv) (metis secluded_def unvital_def snd_conv)

lemma secludedI:
  "(\<And>s r s'. m s = (r, s') \<Longrightarrow> m (no_standby s) = (r, no_standby s') \<and> vitals s' = vitals s) \<Longrightarrow>
    secluded m"
  unfolding secluded_def unvital_def by (metis prod.collapse)

lemma unvitalD: "unvital m \<Longrightarrow> m s = (r, s') \<Longrightarrow> vitals s' = vitals s"
  by (metis unvital_def snd_conv)

lemma unvital_bind:
  assumes "unvital m" and "\<And>x. unvital (f x)"
  shows "unvital (db_bind m f)"
  unfolding unvital_def
proof
  fix s
  obtain r s' where m: "m s = (r, s')" by (cases "m s")
  show "vitals (snd (db_bind m f s)) = vitals s"
    using unvitalD [OF assms(1) m] assms(2) m
    by (cases r) (simp_all add: db_bind_def unvital_def)
qed

lemma secluded_bind:
  assumes "secluded m" and "\<And>x. secluded (f x)"
  shows "secluded (db_bind m f)"
proof (rule secludedI)
  fix s r s'
  assume run: "db_bind m f s = (r, s')"
  obtain x s1 where m: "m s = (x, s1)" by (cases "m s")
  note at_m = secludedD [OF assms(1) m]
  show "db_bind m f (no_standby s) = (r, no_standby s') \<and> vitals s' = vitals s"
  proof (cases x)
    case (Inl e)
    with run m at_m show ?thesis by (simp add: db_bind_def)
  next
    case (Inr y)
    with run m have "f y s1 = (r, s')" by (simp add: db_bind_def)
    with secludedD [OF assms(2) this] Inr at_m show ?thesis by (simp add: db_bind_def)
  qed
qed

lemma secluded_for: "(\<And>x. secluded (body x)) \<Longrightarrow> secluded (db_for body xs)"
  by (induction xs) (auto intro: secluded_bind secluded_return)

lemma secluded_if: "(b \<Longrightarrow> secluded m) \<Longrightarrow> (\<not> b \<Longrightarrow> secluded m') \<Longrightarrow> secluded (if b then m else m')"
  by simp

lemma secluded_transaction:
  assumes "secluded body"
  shows "secluded (pg_transaction body)"
proof (rule secludedI)
  fix s r s'
  assume run: "pg_transaction body s = (r, s')"
  obtain x s1 where b: "pg_exec Begin_txn (sql_read (\<lambda>_. ())) s = (x, s1)"
    by (cases "pg_exec Begin_txn (sql_read (\<lambda>_. ())) s")
  obtain y s2 where c: "body s1 = (y, s2)" by (cases "body s1")
  note at_b = secludedD [OF secluded_exec b] and at_c = secludedD [OF assms c]
  show "pg_transaction body (no_standby s) = (r, no_standby s') \<and> vitals s' = vitals s"
    using run b c at_b at_c
    by (cases x; cases y) (auto simp: pg_transaction_def Let_def split: list.splits fate.splits)
qed

lemmas secluded_intros = secluded_exec secluded_exec_now secluded_return secluded_fail secluded_timed
  secluded_result secluded_bind secluded_for secluded_if secluded_transaction

section \<open>The contract\<close>

locale primary_op =
  fixes op :: "'a dbm"
  assumes op_secluded: "secluded op"
begin

lemma commutes: "op s = (r, s') \<Longrightarrow> op (no_standby s) = (r, no_standby s')"
  using op_secluded by (rule secludedD)

lemma keeps_vitals: "op s = (r, s') \<Longrightarrow> vitals s' = vitals s"
  using op_secluded by (rule secludedD)

lemma same_result:
  assumes "no_standby s = no_standby u"
  shows "fst (op s) = fst (op u) \<and> no_standby (snd (op s)) = no_standby (snd (op u))"
  using assms op_secluded unfolding secluded_def by (metis prod.inject)

end

section \<open>Every operation on the primary\<close>

lemma secluded_getattr_primary: "secluded (getattr_primary parent name)"
  unfolding getattr_primary_def by (intro secluded_intros)

lemma secluded_list_primary: "secluded (list_primary parent)"
  unfolding list_primary_def by (intro secluded_intros)

lemma secluded_read_range_primary: "secluded (read_range_primary parent name offset len)"
  unfolding read_range_primary_def Let_def
  by (auto intro!: secluded_intros secluded_getattr_primary split: option.split)

lemma secluded_fallback:
  assumes "secluded m"
  shows "secluded (\<lambda>s. m (record_replica_fallback_if_configured s))"
proof (rule secludedI)
  fix s r s'
  assume run: "m (record_replica_fallback_if_configured s) = (r, s')"
  have "no_standby (record_replica_fallback_if_configured s) = no_standby s"
    "record_replica_fallback_if_configured (no_standby s) = no_standby s"
    "vitals (record_replica_fallback_if_configured s) = vitals s"
    by (simp_all add: record_replica_fallback_if_configured_def no_standby_def no_standby_stats_def
        vitals_def idle_counts_def)
  with secludedD [OF assms run]
  show "m (record_replica_fallback_if_configured (no_standby s)) = (r, no_standby s') \<and>
      vitals s' = vitals s"
    by simp
qed

lemma secluded_read_range: "secluded (read_range parent name offset len)"
  unfolding read_range_def by (intro secluded_fallback secluded_read_range_primary)

lemma secluded_write_range: "secluded (write_range parent name offset data)"
proof -
  have "secluded (write_block parent name offset data b)" for b
    unfolding write_block_def Let_def by (auto intro!: secluded_intros split: option.split)
  then show ?thesis
    unfolding write_range_def write_range_txn_def Let_def
    by (auto intro!: secluded_intros secluded_getattr_primary split: option.split)
qed

lemma secluded_truncate: "secluded (db_truncate parent name new_size)"
proof -
  have "secluded (truncate_blocks parent name n)" for n
    unfolding truncate_blocks_def Let_def by (auto intro!: secluded_intros split: list.split)
  then show ?thesis
    unfolding db_truncate_def truncate_txn_def Let_def
    by (auto intro!: secluded_intros secluded_getattr_primary split: option.split)
qed

lemma secluded_write_blocks_batch: "secluded (write_blocks_batch parent name dirty new_size)"
  unfolding write_blocks_batch_def batch_txn_def put_blocks_def Let_def
  by (auto intro!: secluded_intros secluded_getattr_primary split: prod.split)

lemma secluded_create: "secluded (create parent name)"
  and secluded_mkdir: "secluded (mkdir parent name)"
  and secluded_unlink: "secluded (unlink parent name)"
  and secluded_rmdir: "secluded (rmdir parent name)"
  unfolding create_def mkdir_def unlink_def rmdir_def by (intro secluded_intros)+

lemma secluded_rename: "secluded (rename old_parent old_name new_parent new_name)"
proof -
  have "secluded (rename_target p n)" and "secluded (rename_descendants k o' n')" for p n k o' n'
    unfolding rename_target_def rename_descendants_def Let_def
    by (auto intro!: secluded_intros split: option.split)
  then show ?thesis
    unfolding rename_def rename_txn_def Let_def
    by (auto intro!: secluded_intros secluded_getattr_primary split: option.split)
qed

interpretation pga: primary_op "getattr_primary parent name" for parent name
  by unfold_locales (rule secluded_getattr_primary)

interpretation plp: primary_op "list_primary parent" for parent
  by unfold_locales (rule secluded_list_primary)

interpretation prr: primary_op "read_range parent name offset len" for parent name offset len
  by unfold_locales (rule secluded_read_range)

interpretation pwr: primary_op "write_range parent name offset data" for parent name offset data
  by unfold_locales (rule secluded_write_range)

interpretation ptr: primary_op "db_truncate parent name new_size" for parent name new_size
  by unfold_locales (rule secluded_truncate)

interpretation pwb: primary_op "write_blocks_batch parent name dirty new_size"
  for parent name dirty new_size
  by unfold_locales (rule secluded_write_blocks_batch)

interpretation pcr: primary_op "create parent name" for parent name
  by unfold_locales (rule secluded_create)

interpretation pmk: primary_op "mkdir parent name" for parent name
  by unfold_locales (rule secluded_mkdir)

interpretation pul: primary_op "unlink parent name" for parent name
  by unfold_locales (rule secluded_unlink)

interpretation prd: primary_op "rmdir parent name" for parent name
  by unfold_locales (rule secluded_rmdir)

interpretation prn: primary_op "rename old_parent old_name new_parent new_name"
  for old_parent old_name new_parent new_name
  by unfold_locales (rule secluded_rename)

section \<open>The operations that read from the standby\<close>

lemma choose_standby_frame:
  "choose_standby s = (sb, s') \<Longrightarrow> vitals s' = vitals s \<and> tabs s' = tabs s \<and> fates s' = fates s \<and> no_standby s' = no_standby s"
  by (auto simp: choose_standby_def replica_fresh_cached_def Let_def no_standby_def split: option.splits prod.splits if_splits)

lemma replica_state_frame:
  "vitals (snd (replica_state s)) = vitals s" "tabs (snd (replica_state s)) = tabs s"
  "no_standby (snd (replica_state s)) = no_standby s" "replica (snd (replica_state s)) = replica s"
  "replica_state (no_standby s) = (''none'', no_standby s)"
  by (auto simp: replica_state_def replica_fresh_cached_def Let_def no_standby_def
      split: option.splits prod.splits if_splits bool.splits)

lemma unvital_standby_query: "unvital (standby_query step f sb)"
  by (simp add: unvital_def standby_query_def Let_def split: list.split)

lemma quiet_standby_query: "quiet (standby_query step f sb)"
  by (simp add: quiet_def standby_query_def Let_def split: list.split)

lemma unvital_result: "unvital (\<lambda>s. (r, record_latency s))"
  by (simp add: unvital_def)

lemma unvital_routed:
  assumes "unvital here" and "\<And>sb. unvital (there sb)"
  shows "unvital (\<lambda>s. case choose_standby s of
      (Some sb, s') \<Rightarrow> there sb (count_replica_read s')
    | (None, s') \<Rightarrow> here (record_replica_fallback_if_configured s'))"
  unfolding unvital_def
proof
  fix s
  obtain sb s' where c: "choose_standby s = (sb, s')" by (cases "choose_standby s")
  have "vitals (count_replica_read s') = vitals s'"
    "vitals (record_replica_fallback_if_configured s') = vitals s'"
    by (simp_all add: count_replica_read_def record_replica_fallback_if_configured_def vitals_def idle_counts_def)
  with choose_standby_frame [OF c] assms c
  show "vitals (snd (case choose_standby s of
      (Some sb, s') \<Rightarrow> there sb (count_replica_read s')
    | (None, s') \<Rightarrow> here (record_replica_fallback_if_configured s'))) = vitals s"
    by (cases sb) (simp_all add: unvital_def)
qed

lemma unvital_getattr: "unvital (getattr parent name)"
  unfolding getattr_def
  by (intro unvital_routed unvital_bind unvital_standby_query unvital_result)
    (use secluded_getattr_primary in \<open>simp add: secluded_def\<close>)

lemma unvital_list_dir: "unvital (list_dir parent)"
  unfolding list_dir_def
  by (intro unvital_routed unvital_bind unvital_standby_query unvital_result)
    (use secluded_list_primary in \<open>simp add: secluded_def\<close>)

lemma quiet_routed:
  assumes "quiet here" and "\<And>sb. quiet (there sb)"
  shows "quiet (\<lambda>s. case choose_standby s of
      (Some sb, s') \<Rightarrow> there sb (count_replica_read s')
    | (None, s') \<Rightarrow> here (record_replica_fallback_if_configured s'))"
  unfolding quiet_def
proof
  fix s
  obtain sb s' where c: "choose_standby s = (sb, s')" by (cases "choose_standby s")
  have "tabs (count_replica_read s') = tabs s'"
    "tabs (record_replica_fallback_if_configured s') = tabs s'"
    by (simp_all add: count_replica_read_def record_replica_fallback_if_configured_def)
  with choose_standby_frame [OF c] assms c
  show "tabs (snd (case choose_standby s of
      (Some sb, s') \<Rightarrow> there sb (count_replica_read s')
    | (None, s') \<Rightarrow> here (record_replica_fallback_if_configured s'))) = tabs s"
    by (cases sb) (simp_all add: quiet_def)
qed

lemma quiet_getattr: "quiet (getattr parent name)"
  unfolding getattr_def
  by (intro quiet_routed quiet_bind quiet_standby_query quiet_result quiet_getattr_primary)

lemma quiet_list_dir: "quiet (list_dir parent)"
  unfolding list_dir_def
  by (intro quiet_routed quiet_bind quiet_standby_query quiet_result quiet_list_primary)

lemma quiet_read_range: "quiet (read_range p n offset len)"
proof -
  have "tabs (record_replica_fallback_if_configured s) = tabs s" for s
    by (simp add: record_replica_fallback_if_configured_def)
  then show ?thesis using quiet_read_range_primary by (simp add: quiet_def read_range_def)
qed

section \<open>What a result depends on\<close>

text \<open>On the primary an operation's result and its effect depend on the tables, the fates of the
  round trips and the server's clock alone.\<close>

definition wire :: "db \<Rightarrow> tables \<times> fate list \<times> int" where
  "wire s = (tabs s, fates s, pg_now s)"

definition wired :: "'a dbm \<Rightarrow> bool" where
  "wired m \<longleftrightarrow> (\<forall>s u. wire s = wire u \<longrightarrow>
     fst (m s) = fst (m u) \<and> wire (snd (m s)) = wire (snd (m u)))"

lemma wiredI:
  "(\<And>s u. wire s = wire u \<Longrightarrow> fst (m s) = fst (m u) \<and> wire (snd (m s)) = wire (snd (m u))) \<Longrightarrow> wired m"
  unfolding wired_def by blast

lemma wiredD: "wired m \<Longrightarrow> wire s = wire u \<Longrightarrow> fst (m s) = fst (m u) \<and> wire (snd (m s)) = wire (snd (m u))"
  unfolding wired_def by blast

lemma wired_stmt: "wired (run_stmt step f)"
  by (rule wiredI) (auto simp: wire_def run_stmt_def split: option.split)

lemma wired_exec: "wired (pg_exec step f)"
proof (rule wiredI)
  fix s u
  assume w: "wire s = wire u"
  then have fates: "fates u = fates s" by (simp add: wire_def)
  show "fst (pg_exec step f s) = fst (pg_exec step f u) \<and>
      wire (snd (pg_exec step f s)) = wire (snd (pg_exec step f u))"
  proof (cases "fates s")
    case Nil
    with fates wiredD [OF wired_stmt w] show ?thesis by (simp add: pg_exec_def)
  next
    case (Cons x rest)
    have w': "wire (s\<lparr>fates := rest\<rparr>) = wire (u\<lparr>fates := rest\<rparr>)" using w by (simp add: wire_def)
    show ?thesis
      using wiredD [OF wired_stmt w', of step f] w' Cons fates
      by (cases x) (simp_all add: pg_exec_def Let_def)
  qed
qed

lemma wired_exec_now: "wired (pg_exec_now step f)"
proof (rule wiredI)
  fix s u
  assume w: "wire s = wire u"
  then have "pg_now u = pg_now s" by (simp add: wire_def)
  with wiredD [OF wired_exec w, of step "f (pg_now s)"]
  show "fst (pg_exec_now step f s) = fst (pg_exec_now step f u) \<and>
      wire (snd (pg_exec_now step f s)) = wire (snd (pg_exec_now step f u))"
    by (simp add: pg_exec_now_def)
qed

lemma wired_return: "wired (db_return x)" and wired_fail: "wired (db_fail e)"
  and wired_timed: "wired (timed_return x)" and wired_result: "wired (\<lambda>s. (r, record_latency s))"
  by (simp_all add: wired_def wire_def db_return_def db_fail_def timed_return_def record_latency_def)

lemma wired_bind:
  assumes "wired m" and "\<And>x. wired (f x)"
  shows "wired (db_bind m f)"
proof (rule wiredI)
  fix s u
  assume "wire s = wire u"
  note at_m = wiredD [OF assms(1) this]
  obtain x s1 y u1 where m: "m s = (x, s1)" "m u = (y, u1)" by (cases "m s", cases "m u")
  with at_m have "x = y" "wire s1 = wire u1" by simp_all
  with m wiredD [OF assms(2) this(2)]
  show "fst (db_bind m f s) = fst (db_bind m f u) \<and>
      wire (snd (db_bind m f s)) = wire (snd (db_bind m f u))"
    by (simp add: db_bind_def split: sum.split)
qed

lemma wired_for: "(\<And>x. wired (body x)) \<Longrightarrow> wired (db_for body xs)"
  by (induction xs) (auto intro: wired_bind wired_return)

lemma wired_if: "(b \<Longrightarrow> wired m) \<Longrightarrow> (\<not> b \<Longrightarrow> wired m') \<Longrightarrow> wired (if b then m else m')"
  by simp

lemma wired_transaction:
  assumes "wired body"
  shows "wired (pg_transaction body)"
proof (rule wiredI)
  fix s u
  assume "wire s = wire u"
  obtain x s1 y u1 where b: "pg_exec Begin_txn (sql_read (\<lambda>_. ())) s = (x, s1)"
    "pg_exec Begin_txn (sql_read (\<lambda>_. ())) u = (y, u1)"
    by (metis surj_pair)
  with wiredD [OF wired_exec \<open>wire s = wire u\<close>, of Begin_txn "sql_read (\<lambda>_. ())"]
  have at_b: "x = y" "wire s1 = wire u1" by simp_all
  obtain r s2 q u2 where c: "body s1 = (r, s2)" "body u1 = (q, u2)" by (cases "body s1", cases "body u1")
  with wiredD [OF assms at_b(2)] have "r = q" "wire s2 = wire u2" by simp_all
  with at_b b c show "fst (pg_transaction body s) = fst (pg_transaction body u) \<and>
      wire (snd (pg_transaction body s)) = wire (snd (pg_transaction body u))"
    by (simp add: pg_transaction_def wire_def Let_def split: sum.split list.split fate.split)
qed

lemma wired_write_blocks_batch: "wired (write_blocks_batch parent name dirty new_size)"
proof -
  have "wired (getattr_primary parent name)"
    unfolding getattr_primary_def by (intro wired_bind wired_exec wired_result)
  then show ?thesis
    unfolding write_blocks_batch_def batch_txn_def put_blocks_def Let_def
    by (auto intro!: wired_exec wired_exec_now wired_return wired_timed wired_bind wired_for wired_if
        wired_transaction split: prod.split)
qed

lemma flush_handle_wire:
  assumes "wire d = wire e"
  shows "wire (snd (snd (flush_handle fh hs d))) = wire (snd (snd (flush_handle fh hs e)))"
proof (cases "map_of hs fh")
  case (Some h)
  let ?op = "write_blocks_batch (hb_parent h) (hb_name h) (dirty_blocks h) (max_size h)"
  obtain x d' y e' where w: "?op d = (x, d')" "?op e = (y, e')" by (cases "?op d", cases "?op e")
  with wiredD [OF wired_write_blocks_batch assms, of "hb_parent h" "hb_name h" "dirty_blocks h" "max_size h"]
  have "x = y" "wire d' = wire e'" by simp_all
  with Some w assms show ?thesis by (simp add: flush_handle_def Let_def split: sum.split)
qed (simp add: flush_handle_def assms)

end
