(* ===== verification/Inode_Maps.thy ===== *)
theory Inode_Maps
  imports Text_Paths
begin

text \<open>
  The inode cache of \<open>PgFs\<close> in \<open>src/fs.rs\<close>: the two maps between paths and inodes, lazy
  allocation, forgetting after a removal and re-keying after a rename. A \<open>HashMap\<close> is an
  association list whose order is the iteration order. Inode numbers are naturals: the
  \<open>u64\<close> counter does not come near its end.
\<close>

declare map_of_eq_Some_iff [simp del] Some_eq_map_of_iff [simp del]

section \<open>The maps\<close>

record inodes =
  ino_by_path :: "(string \<times> nat) list"
  path_by_ino :: "(nat \<times> string) list"
  next_ino :: nat

definition ROOT_INO :: nat where "ROOT_INO = 1"
definition ROOT_PATH :: string where "ROOT_PATH = ''''"

definition inodes_init :: inodes where
  "inodes_init = \<lparr>ino_by_path = [(ROOT_PATH, ROOT_INO)], path_by_ino = [(ROOT_INO, ROOT_PATH)],
     next_ino = ROOT_INO + 1\<rparr>"

definition ino_for :: "string \<Rightarrow> inodes \<Rightarrow> nat \<times> inodes" where
  "ino_for path m =
     (case map_of (ino_by_path m) path of
        Some ino \<Rightarrow> (ino, m)
      | None \<Rightarrow>
          let ino = next_ino m in
          (ino, m\<lparr>next_ino := ino + 1, path_by_ino := AList.update ino path (path_by_ino m),
                  ino_by_path := AList.update path ino (ino_by_path m)\<rparr>))"

definition path_of_ino :: "inodes \<Rightarrow> nat \<Rightarrow> string option" where
  "path_of_ino m ino = (if ino = ROOT_INO then Some ROOT_PATH else map_of (path_by_ino m) ino)"

definition parent_ino :: "string \<Rightarrow> inodes \<Rightarrow> nat \<times> inodes" where
  "parent_ino path m = ino_for (fst (split_path path)) m"

text \<open>What \<open>unlink\<close> and \<open>rmdir\<close> do to the cache after the database has removed the row.\<close>

definition forget_path :: "string \<Rightarrow> inodes \<Rightarrow> inodes" where
  "forget_path path m =
     (case map_of (ino_by_path m) path of
        None \<Rightarrow> m
      | Some ino \<Rightarrow> m\<lparr>ino_by_path := AList.delete path (ino_by_path m),
                      path_by_ino := AList.delete ino (path_by_ino m)\<rparr>)"

text \<open>The body that \<open>rekey_maps\<close> has twice: move one path to a new one.\<close>

definition rekey_one :: "string \<Rightarrow> string \<Rightarrow> inodes \<Rightarrow> inodes" where
  "rekey_one old_p new_p m =
     (case map_of (ino_by_path m) old_p of
        None \<Rightarrow> m
      | Some ino \<Rightarrow> m\<lparr>ino_by_path := AList.update new_p ino (AList.delete old_p (ino_by_path m)),
                      path_by_ino := AList.update ino new_p (path_by_ino m)\<rparr>)"

definition rekey_maps :: "string \<Rightarrow> string \<Rightarrow> inodes \<Rightarrow> inodes" where
  "rekey_maps old_path new_path m =
     (let m1 = rekey_one old_path new_path m;
          prefix_old = old_path @ ''/'';
          prefix_new = new_path @ ''/'';
          updates = map (\<lambda>p. (p, prefix_new @ drop (length prefix_old) p))
                      (filter (prefix prefix_old) (map fst (ino_by_path m1)))
      in fold (\<lambda>(old_p, new_p). rekey_one old_p new_p) updates m1)"

section \<open>The invariant\<close>

text \<open>Every cached path has the inode that leads back to it, so no two paths share one; the
  counter is above all of them.\<close>

definition inodes_ok :: "inodes \<Rightarrow> bool" where
  "inodes_ok m \<longleftrightarrow>
     distinct (map fst (ino_by_path m)) \<and> distinct (map fst (path_by_ino m)) \<and>
     (\<forall>p i. map_of (ino_by_path m) p = Some i \<longrightarrow> map_of (path_by_ino m) i = Some p) \<and>
     (\<forall>i p. map_of (path_by_ino m) i = Some p \<longrightarrow> i < next_ino m)"

definition root_ok :: "inodes \<Rightarrow> bool" where
  "root_ok m \<longleftrightarrow> map_of (ino_by_path m) ROOT_PATH = Some ROOT_INO \<and> ROOT_INO < next_ino m"

lemma inodes_ok_init: "inodes_ok inodes_init" "root_ok inodes_init"
  by (auto simp: inodes_ok_def inodes_init_def root_ok_def ROOT_PATH_def ROOT_INO_def)

lemma inodes_okD:
  assumes "inodes_ok m"
  shows "distinct (map fst (ino_by_path m))" "distinct (map fst (path_by_ino m))"
    "\<And>p i. map_of (ino_by_path m) p = Some i \<Longrightarrow> map_of (path_by_ino m) i = Some p"
    "\<And>i p. map_of (path_by_ino m) i = Some p \<Longrightarrow> i < next_ino m"
  using assms by (simp_all add: inodes_ok_def)

lemma ino_unique:
  "inodes_ok m \<Longrightarrow> map_of (ino_by_path m) p = Some i \<Longrightarrow> map_of (ino_by_path m) q = Some i \<Longrightarrow> p = q"
  by (metis inodes_okD(3) option.inject)

lemma ino_for_ok:
  assumes "inodes_ok m"
  shows "inodes_ok (snd (ino_for path m))"
proof (cases "map_of (ino_by_path m) path")
  case None
  note ok = inodes_okD [OF assms]
  have "map_of (path_by_ino m) (next_ino m) = None"
    using ok(4) [of "next_ino m"] by fastforce
  with None ok show ?thesis
    by (auto simp: ino_for_def inodes_ok_def Let_def distinct_update update_conv'
        intro: less_SucI split: if_splits)
next
  case (Some i)
  with assms show ?thesis by (simp add: ino_for_def)
qed

lemma ino_for_ino:
  "map_of (ino_by_path (snd (ino_for path m))) path = Some (fst (ino_for path m))"
  by (simp add: ino_for_def Let_def update_conv' split: option.split)

lemma ino_for_root: "root_ok m \<Longrightarrow> root_ok (snd (ino_for path m))"
  by (auto simp: root_ok_def ino_for_def Let_def update_conv' split: option.split)

lemma path_of_ino_cached:
  "inodes_ok m \<Longrightarrow> root_ok m \<Longrightarrow> map_of (ino_by_path m) path = Some i \<Longrightarrow> path_of_ino m i = Some path"
  using ino_unique [of m ROOT_PATH ROOT_INO path]
  by (auto simp: path_of_ino_def root_ok_def dest: inodes_okD(3))

lemma path_of_ino_less: "inodes_ok m \<Longrightarrow> root_ok m \<Longrightarrow> path_of_ino m i = Some p \<Longrightarrow> i < next_ino m"
  by (auto simp: path_of_ino_def root_ok_def split: if_splits dest: inodes_okD(4))

lemma ino_for_stable:
  "inodes_ok m \<Longrightarrow> root_ok m \<Longrightarrow> path_of_ino m i = Some p \<Longrightarrow>
    path_of_ino (snd (ino_for path m)) i = Some p"
  using path_of_ino_less [of m i p]
  by (auto simp: ino_for_def Let_def path_of_ino_def update_conv' split: option.split if_splits)

section \<open>A table that hands out names for things\<close>

text \<open>
  The contract \<open>lookup\<close>, \<open>create\<close>, \<open>mkdir\<close> and \<open>readdir\<close> rely on: a number handed out
  leads back to its path, and handing out more does not disturb it.
\<close>

fun number_all :: "('p \<Rightarrow> 's \<Rightarrow> 'i \<times> 's) \<Rightarrow> 'p list \<Rightarrow> 's \<Rightarrow> 'i list \<times> 's" where
  "number_all alloc [] s = ([], s)"
| "number_all alloc (p # ps) s =
     (let (i, s1) = alloc p s; (is, s2) = number_all alloc ps s1 in (i # is, s2))"

locale name_table =
  fixes alloc :: "'p \<Rightarrow> 's \<Rightarrow> 'i \<times> 's"
    and resolve :: "'s \<Rightarrow> 'i \<Rightarrow> 'p option"
    and good :: "'s \<Rightarrow> bool"
  assumes alloc_good: "good s \<Longrightarrow> good (snd (alloc p s))"
    and alloc_resolve: "good s \<Longrightarrow> resolve (snd (alloc p s)) (fst (alloc p s)) = Some p"
    and alloc_stable: "good s \<Longrightarrow> resolve s i = Some q \<Longrightarrow> resolve (snd (alloc p s)) i = Some q"
begin

lemma number_all_good: "good s \<Longrightarrow> good (snd (number_all alloc ps s))"
  by (induction ps arbitrary: s) (auto simp: Let_def case_prod_unfold dest: alloc_good)

lemma number_all_stable:
  "good s \<Longrightarrow> resolve s i = Some q \<Longrightarrow> resolve (snd (number_all alloc ps s)) i = Some q"
  by (induction ps arbitrary: s) (auto simp: Let_def case_prod_unfold alloc_good alloc_stable)

lemma number_all_resolve:
  "good s \<Longrightarrow> map (resolve (snd (number_all alloc ps s))) (fst (number_all alloc ps s)) = map Some ps"
proof (induction ps arbitrary: s)
  case Nil
  then show ?case by simp
next
  case (Cons p ps)
  have "resolve (snd (number_all alloc ps (snd (alloc p s)))) (fst (alloc p s)) = Some p"
    using Cons.prems by (intro number_all_stable alloc_good alloc_resolve)
  with Cons.IH [OF alloc_good [OF Cons.prems]] show ?case
    by (simp add: Let_def case_prod_unfold)
qed

text \<open>Equal numbers are equal paths.\<close>

lemma alloc_inject:
  assumes "good s" and "fst (alloc p s) = fst (alloc q (snd (alloc p s)))"
  shows "p = q"
proof -
  let ?s = "snd (alloc p s)"
  have "resolve (snd (alloc q ?s)) (fst (alloc p s)) = Some p"
    by (intro alloc_stable alloc_good alloc_resolve assms(1))
  moreover have "resolve (snd (alloc q ?s)) (fst (alloc q ?s)) = Some q"
    by (intro alloc_good alloc_resolve assms(1))
  ultimately show ?thesis using assms(2) by simp
qed

end

interpretation it: name_table ino_for path_of_ino "\<lambda>m. inodes_ok m \<and> root_ok m"
proof unfold_locales
  fix m p
  assume "inodes_ok m \<and> root_ok m"
  then show "inodes_ok (snd (ino_for p m)) \<and> root_ok (snd (ino_for p m))"
    by (simp add: ino_for_ok ino_for_root)
  with ino_for_ino show "path_of_ino (snd (ino_for p m)) (fst (ino_for p m)) = Some p"
    by (simp add: path_of_ino_cached)
qed (simp add: ino_for_stable)

section \<open>Forgetting and re-keying\<close>

lemma forget_path_ok: "inodes_ok m \<Longrightarrow> inodes_ok (forget_path path m)"
  using ino_unique [of m]
  by (auto simp: forget_path_def inodes_ok_def distinct_delete delete_conv' split: option.split if_splits)

lemma forget_path_root:
  "inodes_ok m \<Longrightarrow> root_ok m \<Longrightarrow> path \<noteq> ROOT_PATH \<Longrightarrow> root_ok (forget_path path m)"
  by (auto simp: forget_path_def root_ok_def delete_conv' split: option.split)

lemma forget_path_gone:
  "inodes_ok m \<Longrightarrow> root_ok m \<Longrightarrow> path \<noteq> ROOT_PATH \<Longrightarrow> map_of (ino_by_path m) path = Some i \<Longrightarrow>
    path_of_ino (forget_path path m) i = None"
  using ino_unique [of m ROOT_PATH i path]
  by (auto simp: forget_path_def path_of_ino_def root_ok_def delete_conv')

lemma rekey_one_ok:
  assumes "inodes_ok m"
  shows "inodes_ok (rekey_one old_p new_p m)"
proof (cases "map_of (ino_by_path m) old_p")
  case None
  with assms show ?thesis by (simp add: rekey_one_def)
next
  case (Some i)
  note ok = inodes_okD [OF assms]
  let ?m = "rekey_one old_p new_p m"
  have ino': "map_of (ino_by_path ?m) = (map_of (ino_by_path m))(old_p := None, new_p \<mapsto> i)"
    and path': "map_of (path_by_ino ?m) = (map_of (path_by_ino m))(i \<mapsto> new_p)"
    and rest: "next_ino ?m = next_ino m" "distinct (map fst (ino_by_path ?m))"
      "distinct (map fst (path_by_ino ?m))"
    using Some ok(1,2)
    by (simp_all add: rekey_one_def update_conv' delete_conv' distinct_update distinct_delete)
  have "i < next_ino m" using ok(4) [OF ok(3) [OF Some]] .
  moreover have "map_of (path_by_ino ?m) j = Some q" if "map_of (ino_by_path ?m) q = Some j" for q j
  proof (cases "q = new_p")
    case True
    with that show ?thesis by (simp add: ino' path')
  next
    case False
    with that have q: "q \<noteq> old_p" "map_of (ino_by_path m) q = Some j"
      by (auto simp: ino' split: if_splits)
    then have "j \<noteq> i" using ino_unique [OF assms _ Some] by blast
    with ok(3) [OF q(2)] show ?thesis by (simp add: path')
  qed
  ultimately show ?thesis
    unfolding inodes_ok_def using rest ok(4) by (simp add: path') blast
qed

lemma rekey_one_lookup:
  "map_of (ino_by_path (rekey_one old_p new_p m)) q =
    (case map_of (ino_by_path m) old_p of
       None \<Rightarrow> map_of (ino_by_path m) q
     | Some i \<Rightarrow> if q = new_p then Some i else if q = old_p then None else map_of (ino_by_path m) q)"
  by (simp add: rekey_one_def update_conv' delete_conv' split: option.split)

lemma fold_rekey_ok:
  "inodes_ok m \<Longrightarrow> inodes_ok (fold (\<lambda>(old_p, new_p). rekey_one old_p new_p) us m)"
  by (induction us arbitrary: m) (auto simp: rekey_one_ok)

lemma rekey_maps_ok: "inodes_ok m \<Longrightarrow> inodes_ok (rekey_maps old_path new_path m)"
  by (simp add: rekey_maps_def Let_def fold_rekey_ok rekey_one_ok)

text \<open>A batch of moves whose old and new paths do not meet.\<close>

lemma fold_rekey_lookup:
  assumes "distinct (map fst us)" and "distinct (map snd us)"
    and "fst ` set us \<inter> snd ` set us = {}"
    and "\<And>p. p \<in> fst ` set us \<Longrightarrow> map_of (ino_by_path m) p \<noteq> None"
  shows "map_of (ino_by_path (fold (\<lambda>(old_p, new_p). rekey_one old_p new_p) us m)) q =
    (case map_of (map prod.swap us) q of
       Some p \<Rightarrow> map_of (ino_by_path m) p
     | None \<Rightarrow> if q \<in> fst ` set us then None else map_of (ino_by_path m) q)"
  using assms
proof (induction us arbitrary: m)
  case Nil
  then show ?case by simp
next
  case (Cons u us)
  obtain a b where u: "u = (a, b)" by (cases u)
  let ?m = "rekey_one a b m"
  obtain i where i: "map_of (ino_by_path m) a = Some i" using Cons.prems(4) [of a] u by auto
  have look: "map_of (ino_by_path ?m) p = (if p = b then Some i else if p = a then None
      else map_of (ino_by_path m) p)" for p
    by (simp add: rekey_one_lookup i)
  have new: "a \<notin> fst ` set us" "b \<notin> snd ` set us" "b \<notin> fst ` set us" "a \<notin> snd ` set us" "a \<noteq> b"
    using Cons.prems(1-3) by (auto simp: u)
  have IH: "map_of (ino_by_path (fold (\<lambda>(old_p, new_p). rekey_one old_p new_p) us ?m)) q =
    (case map_of (map prod.swap us) q of
       Some p \<Rightarrow> map_of (ino_by_path ?m) p
     | None \<Rightarrow> if q \<in> fst ` set us then None else map_of (ino_by_path ?m) q)"
  proof (rule Cons.IH)
    show "fst ` set us \<inter> snd ` set us = {}" using Cons.prems(3) by (auto simp: u)
    show "map_of (ino_by_path ?m) p \<noteq> None" if "p \<in> fst ` set us" for p
    proof -
      from that new have "p \<noteq> a" by auto
      moreover have "map_of (ino_by_path m) p \<noteq> None" using Cons.prems(4) [of p] that by auto
      ultimately show ?thesis by (simp add: look)
    qed
  qed (use Cons.prems in \<open>simp_all add: u\<close>)
  have bNone: "map_of (map prod.swap us) b = None"
    using new(2) by (simp add: map_of_eq_None_iff image_image)
  have inus: "p \<in> fst ` set us" if "map_of (map prod.swap us) q = Some p" for p
    using map_of_SomeD [OF that] by force
  show ?case
  proof (cases "map_of (map prod.swap us) q")
    case None
    with IH new i u show ?thesis by (auto simp: look)
  next
    case (Some p)
    with inus [OF Some] new(1,3) have "p \<noteq> a" "p \<noteq> b" by auto
    with Some IH new i u bNone show ?thesis by (auto simp: look)
  qed
qed

lemma prefix_slash_cases: "prefix (p @ [slash]) q \<Longrightarrow> \<exists>s. q = p @ slash # s"
  by (auto elim: prefixE)

text \<open>The children of two paths, neither of which lies below the other, do not meet.\<close>

lemma apart_children:
  assumes "\<not> prefix (p @ [slash]) q" and "\<not> prefix (q @ [slash]) p" and "p \<noteq> q"
  shows "\<not> prefix (p @ [slash]) (q @ slash # s)"
proof
  assume a: "prefix (p @ [slash]) (q @ slash # s)"
  have b: "prefix (q @ [slash]) (q @ slash # s)" by simp
  from prefix_same_cases [OF a b]
  show False using assms by (auto simp: prefix_snoc)
qed

abbreviation descendants :: "string \<Rightarrow> inodes \<Rightarrow> string list" where
  "descendants d m \<equiv> filter (prefix (d @ [slash])) (map fst (ino_by_path m))"

abbreviation re_rooted :: "string \<Rightarrow> string \<Rightarrow> string \<Rightarrow> string \<times> string" where
  "re_rooted d d' p \<equiv> (p, (d' @ [slash]) @ drop (length (d @ [slash])) p)"

text \<open>What a lookup finds after the loop over the descendants, in terms of the map before it.\<close>

lemma rekey_maps_find:
  assumes ok: "inodes_ok m" and apart: "\<not> prefix (old_path @ [slash]) new_path"
    "\<not> prefix (new_path @ [slash]) old_path" "old_path \<noteq> new_path"
  defines "m1 \<equiv> rekey_one old_path new_path m"
  defines "updates \<equiv> map (re_rooted old_path new_path) (descendants old_path m1)"
  shows "distinct (map snd updates)"
    and "map_of (ino_by_path (rekey_maps old_path new_path m)) q =
      (case map_of (map prod.swap updates) q of
         Some p \<Rightarrow> map_of (ino_by_path m1) p
       | None \<Rightarrow> if q \<in> fst ` set updates then None else map_of (ino_by_path m1) q)"
proof -
  have kd: "distinct (descendants old_path m1)"
    using inodes_okD(1) [OF rekey_one_ok [OF ok]] by (simp add: m1_def)
  then show ds: "distinct (map snd updates)"
    by (auto simp: updates_def distinct_map inj_on_def dest!: prefix_slash_cases)
  have "map_of (ino_by_path (fold (\<lambda>(old_p, new_p). rekey_one old_p new_p) updates m1)) q =
      (case map_of (map prod.swap updates) q of
         Some p \<Rightarrow> map_of (ino_by_path m1) p
       | None \<Rightarrow> if q \<in> fst ` set updates then None else map_of (ino_by_path m1) q)"
  proof (rule fold_rekey_lookup)
    show "distinct (map fst updates)" using kd by (simp add: updates_def o_def)
    show "distinct (map snd updates)" by (rule ds)
    show "fst ` set updates \<inter> snd ` set updates = {}"
      using apart_children [OF apart] by (auto simp: updates_def)
    fix q
    assume "q \<in> fst ` set updates"
    then have "q \<in> fst ` set (ino_by_path m1)" by (auto simp: updates_def intro: rev_image_eqI)
    then show "map_of (ino_by_path m1) q \<noteq> None" by (simp only: map_of_eq_None_iff not_not)
  qed
  then show "map_of (ino_by_path (rekey_maps old_path new_path m)) q =
      (case map_of (map prod.swap updates) q of
         Some p \<Rightarrow> map_of (ino_by_path m1) p
       | None \<Rightarrow> if q \<in> fst ` set updates then None else map_of (ino_by_path m1) q)"
    by (simp only: rekey_maps_def Let_def m1_def updates_def)
qed

lemma rekey_maps_lookup:
  assumes ok: "inodes_ok m" and apart: "\<not> prefix (old_path @ [slash]) new_path"
    "\<not> prefix (new_path @ [slash]) old_path" "old_path \<noteq> new_path"
    and cached: "map_of (ino_by_path m) p = Some i"
  shows "p = old_path \<Longrightarrow> map_of (ino_by_path (rekey_maps old_path new_path m)) new_path = Some i"
    and "p = old_path @ slash # s \<Longrightarrow>
      map_of (ino_by_path (rekey_maps old_path new_path m)) (new_path @ slash # s) = Some i"
    and "p \<noteq> old_path \<Longrightarrow> p \<noteq> new_path \<Longrightarrow> \<not> prefix (old_path @ [slash]) p \<Longrightarrow>
      \<not> prefix (new_path @ [slash]) p \<Longrightarrow>
      map_of (ino_by_path (rekey_maps old_path new_path m)) p = Some i"
proof -
  let ?m = "rekey_one old_path new_path m"
  let ?ks = "descendants old_path ?m" and ?f = "re_rooted old_path new_path"
  note found = rekey_maps_find [OF ok apart]
  have look1: "map_of (ino_by_path ?m) q = (case map_of (ino_by_path m) old_path of
       None \<Rightarrow> map_of (ino_by_path m) q
     | Some i \<Rightarrow> if q = new_path then Some i else if q = old_path then None
                 else map_of (ino_by_path m) q)" for q
    by (rule rekey_one_lookup)
  note look = found(2)
  have swap: "map_of (map prod.swap (map ?f ?ks)) q = None"
    if "\<not> prefix (new_path @ [slash]) q" for q
    using that by (auto simp: map_of_eq_None_iff)
  {
    assume "p = old_path"
    with cached have "map_of (ino_by_path ?m) new_path = Some i" by (simp add: look1)
    moreover have "new_path \<notin> fst ` set (map ?f ?ks)" using apart(1) by auto
    moreover have "\<not> prefix (new_path @ [slash]) new_path" by (simp add: prefix_def)
    ultimately show "map_of (ino_by_path (rekey_maps old_path new_path m)) new_path = Some i"
      using look swap by simp
  next
    assume p: "p = old_path @ slash # s"
    then have "map_of (ino_by_path ?m) p = Some i"
      using cached apart(1) by (auto simp: look1 split: option.split)
    moreover from this have "p \<in> set ?ks"
      using p by (force simp: image_iff dest: map_of_SomeD)
    then have "(new_path @ slash # s, p) \<in> set (map prod.swap (map ?f ?ks))"
      using p by (force simp: image_iff)
    moreover have "distinct (map fst (map prod.swap (map ?f ?ks)))"
      using found(1) by (simp add: o_def)
    ultimately show "map_of (ino_by_path (rekey_maps old_path new_path m)) (new_path @ slash # s) = Some i"
      using look map_of_is_SomeI by simp
  next
    assume p: "p \<noteq> old_path" "p \<noteq> new_path" "\<not> prefix (old_path @ [slash]) p"
      "\<not> prefix (new_path @ [slash]) p"
    then have "map_of (ino_by_path ?m) p = Some i"
      using cached by (auto simp: look1 split: option.split)
    moreover have "p \<notin> fst ` set (map ?f ?ks)" using p(3) by auto
    ultimately show "map_of (ino_by_path (rekey_maps old_path new_path m)) p = Some i"
      using look swap [OF p(4)] by simp
  }
qed

end
