(* ===== verification/Fuse_Fs.thy ===== *)
theory Fuse_Fs
  imports Db_Rename Handle_Buffer Inode_Maps
begin

text \<open>
  \<open>struct PgFs\<close> and its \<open>fuser::Filesystem\<close> callbacks in \<open>src/fs.rs\<close>, each a function from
  the request's arguments and the state to the reply and the new state, with the preamble
  that honours a state dump and checks the heartbeat and the guard that records latency.
\<close>

section \<open>Replies and state\<close>

datatype errno = ENOENT | EISDIR | EEXIST | EINVAL | ENOTDIR | ENOTEMPTY | EIO

datatype file_type = RegularFile | Directory

record file_attr =
  a_ino :: nat
  a_size :: nat
  a_blocks :: nat
  a_time :: int
  a_kind :: file_type
  a_perm :: nat
  a_nlink :: nat
  a_owner :: "nat \<times> nat"
  a_blksize :: nat

text \<open>What the kernel gets; the last is the unwinding of a failed check in the callback.\<close>

datatype reply =
    R_error errno
  | R_entry nat file_attr
  | R_attr nat file_attr
  | R_data bytes
  | R_written nat
  | R_opened nat
  | R_created nat file_attr nat
  | R_ok
  | R_directory "(nat \<times> nat \<times> file_type \<times> string) list"
  | R_panic

text \<open>\<open>owner\<close> is what \<open>getuid\<close> and \<open>getgid\<close> return, \<open>wall_clock\<close> what \<open>SystemTime::now\<close> does.\<close>

record pgfs =
  fs_db :: db
  inos :: inodes
  next_fh :: nat
  open_handles :: "(nat \<times> handle_buffer) list"
  open_handles_by_ino :: "(nat \<times> nat) list"
  dump_requested :: bool
  attr_ttl :: nat
  owner :: "nat \<times> nat"
  wall_clock :: int

type_synonym handler = "pgfs \<Rightarrow> reply \<times> pgfs"

definition with_attr_ttl :: "db \<Rightarrow> bool \<Rightarrow> nat \<Rightarrow> nat \<times> nat \<Rightarrow> int \<Rightarrow> pgfs" where
  "with_attr_ttl d dump ttl ids now =
     \<lparr>fs_db = d, inos = inodes_init, next_fh = 1, open_handles = [], open_handles_by_ino = [],
      dump_requested = dump, attr_ttl = ttl, owner = ids, wall_clock = now\<rparr>"

section \<open>Attributes\<close>

definition file_attr :: "nat \<Rightarrow> nat \<Rightarrow> int \<Rightarrow> nat \<times> nat \<Rightarrow> file_attr" where
  "file_attr ino len mtime ids =
     \<lparr>a_ino = ino, a_size = len, a_blocks = (len + 511) div 512, a_time = mtime,
      a_kind = RegularFile, a_perm = 420, a_nlink = 1, a_owner = ids, a_blksize = 4096\<rparr>"

definition dir_attr :: "nat \<Rightarrow> nat \<times> nat \<Rightarrow> file_attr" where
  "dir_attr ino ids =
     \<lparr>a_ino = ino, a_size = 0, a_blocks = 0, a_time = 0, a_kind = Directory, a_perm = 493,
      a_nlink = 2, a_owner = ids, a_blksize = 4096\<rparr>"

definition root_attr :: "nat \<times> nat \<Rightarrow> file_attr" where
  "root_attr ids = dir_attr ROOT_INO ids"

definition attr :: "nat \<Rightarrow> file_meta \<Rightarrow> nat \<times> nat \<Rightarrow> file_attr" where
  "attr ino meta ids =
     (case m_kind meta of
        Dir \<Rightarrow> dir_attr ino ids
      | File \<Rightarrow> file_attr ino (m_size meta) (m_mtime meta) ids)"

section \<open>Preamble, guard and errors\<close>

definition set_stats :: "statics \<Rightarrow> pgfs \<Rightarrow> pgfs" where
  "set_stats m s = s\<lparr>fs_db := (fs_db s)\<lparr>stats := m\<rparr>\<rparr>"

definition on_stats :: "(statics \<Rightarrow> statics) \<Rightarrow> pgfs \<Rightarrow> pgfs" where
  "on_stats f s = set_stats (f (stats (fs_db s))) s"

definition maybe_dump_state :: "pgfs \<Rightarrow> pgfs" where
  "maybe_dump_state s =
     (if \<not> dump_requested s then s
      else s\<lparr>dump_requested := False, fs_db := snd (replica_state (fs_db s))\<rparr>)"

definition callback_preamble :: "handler \<Rightarrow> handler" where
  "callback_preamble body s =
     (let s1 = maybe_dump_state s in
      case check_liveness (mono_now (fs_db s1)) (stats (fs_db s1)) of
        (True, m) \<Rightarrow> body (set_stats m s1)
      | (False, m) \<Rightarrow> (R_error EIO, set_stats (m\<lparr>deadlock_detected := True\<rparr>) s1))"

text \<open>\<open>FuseLatencyGuard\<close> records when the callback is left.\<close>

definition record_fuse_latency :: "pgfs \<Rightarrow> pgfs" where
  "record_fuse_latency s =
     (let d = fs_db s in
      s\<lparr>fs_db := d\<lparr>stats := (stats d)\<lparr>fuse_latency :=
            histogram_record (case elapsed d of [] \<Rightarrow> 0 | us # _ \<Rightarrow> us) (fuse_latency (stats d))\<rparr>,
          elapsed := tl (elapsed d)\<rparr>\<rparr>)"

definition latency_guard :: "handler \<Rightarrow> handler" where
  "latency_guard body s = (case body s of (r, s') \<Rightarrow> (r, record_fuse_latency s'))"

text \<open>The head of most callbacks: guard, preamble, then the operation counter.\<close>

definition callback :: "(statics \<Rightarrow> statics) \<Rightarrow> handler \<Rightarrow> handler" where
  "callback count body = latency_guard (callback_preamble (\<lambda>s. body (on_stats count s)))"

text \<open>\<open>log_and_reply!\<close>\<close>

definition log_and_reply :: "db_error \<Rightarrow> handler" where
  "log_and_reply e s =
     (if e = Panic then (R_panic, s)
      else (R_error EIO, on_stats (\<lambda>m. m\<lparr>eio_count := bump (eio_count m)\<rparr>) s))"

text \<open>A call of the database whose error goes to \<open>log_and_reply!\<close>.\<close>

definition on_db :: "'a dbm \<Rightarrow> ('a \<Rightarrow> handler) \<Rightarrow> handler" where
  "on_db op k s =
     (case op (fs_db s) of
        (Inl e, d) \<Rightarrow> log_and_reply e (s\<lparr>fs_db := d\<rparr>)
      | (Inr x, d) \<Rightarrow> k x (s\<lparr>fs_db := d\<rparr>))"

definition resolve :: "nat \<Rightarrow> string \<Rightarrow> pgfs \<Rightarrow> errno + key" where
  "resolve parent name s =
     (case path_of_ino (inos s) parent of
        None \<Rightarrow> Inl ENOENT
      | Some parent_path \<Rightarrow>
          (case to_str name of None \<Rightarrow> Inl ENOENT | Some n \<Rightarrow> Inr (parent_path, n)))"

definition with_key :: "nat \<Rightarrow> string \<Rightarrow> (string \<Rightarrow> string \<Rightarrow> handler) \<Rightarrow> handler" where
  "with_key parent name k s =
     (case resolve parent name s of Inl e \<Rightarrow> (R_error e, s) | Inr (p, n) \<Rightarrow> k p n s)"

definition with_path :: "nat \<Rightarrow> (string \<Rightarrow> handler) \<Rightarrow> handler" where
  "with_path ino k s =
     (case path_of_ino (inos s) ino of None \<Rightarrow> (R_error ENOENT, s) | Some path \<Rightarrow> k path s)"

definition number :: "string \<Rightarrow> pgfs \<Rightarrow> nat \<times> pgfs" where
  "number path s = (case ino_for path (inos s) of (i, m) \<Rightarrow> (i, s\<lparr>inos := m\<rparr>))"

section \<open>Callbacks that look\<close>

definition fuse_lookup :: "nat \<Rightarrow> string \<Rightarrow> handler" where
  "fuse_lookup parent name =
     callback (\<lambda>m. m\<lparr>lookup_count := bump (lookup_count m)\<rparr>) (\<lambda>s.
       case resolve parent name s of
         Inl e \<Rightarrow> (R_error e, on_stats (\<lambda>m. m\<lparr>enoent_count := bump (enoent_count m)\<rparr>) s)
       | Inr (p, n) \<Rightarrow>
           on_db (getattr p n) (\<lambda>found s.
             case found of
               None \<Rightarrow> (R_error ENOENT, s)
             | Some meta \<Rightarrow>
                 (case number (join p n) s of
                    (ino, s') \<Rightarrow> (R_entry (attr_ttl s') (attr ino meta (owner s')), s'))) s)"

definition fuse_getattr :: "nat \<Rightarrow> handler" where
  "fuse_getattr ino =
     callback (\<lambda>m. m\<lparr>getattr_count := bump (getattr_count m)\<rparr>) (\<lambda>s.
       if ino = ROOT_INO then (R_attr (attr_ttl s) (root_attr (owner s)), s)
       else with_path ino (\<lambda>path.
         case split_path path of (parent, name) \<Rightarrow>
           on_db (getattr parent name) (\<lambda>found s.
             case found of
               None \<Rightarrow> (R_error ENOENT, s)
             | Some meta \<Rightarrow> (R_attr (attr_ttl s) (attr ino meta (owner s)), s))) s)"

text \<open>\<open>room\<close> is the number of entries the reply buffer of the kernel takes.\<close>

definition fuse_readdir :: "nat \<Rightarrow> int \<Rightarrow> nat \<Rightarrow> handler" where
  "fuse_readdir ino offset room =
     callback (\<lambda>m. m\<lparr>readdir_count := bump (readdir_count m)\<rparr>)
       (with_path ino (\<lambda>path s.
         case parent_ino path (inos s) of (up, m) \<Rightarrow>
           on_db (list_dir path) (\<lambda>children s.
             case number_all ino_for (map (\<lambda>child. join path (m_name child)) children) (inos s) of
               (child_inos, m') \<Rightarrow>
                 let listed = (ino, Directory, ''.'') # (up, Directory, ''..'') #
                       map (\<lambda>(child, child_ino).
                         (child_ino,
                          case m_kind child of Dir \<Rightarrow> Directory | File \<Rightarrow> RegularFile,
                          m_name child)) (zip children child_inos)
                 in (R_directory (take room (drop (i64_as_u64 offset)
                       (map (\<lambda>(i, e). (case e of (child_ino, k, name) \<Rightarrow> (child_ino, i + 1, k, name)))
                         (enumerate 0 listed)))),
                     s\<lparr>inos := m'\<rparr>))
             (s\<lparr>inos := m\<rparr>)))"

section \<open>Callbacks on open files\<close>

definition handle_id :: "nat \<Rightarrow> nat \<Rightarrow> pgfs \<Rightarrow> nat option" where
  "handle_id ino fh s = (if fh \<noteq> 0 then Some fh else map_of (open_handles_by_ino s) ino)"

definition flush_at :: "nat \<Rightarrow> pgfs \<Rightarrow> (db_error + unit) \<times> pgfs" where
  "flush_at fh s =
     (case flush_handle fh (open_handles s) (fs_db s) of
        (r, hs, d) \<Rightarrow> (r, s\<lparr>open_handles := hs, fs_db := d\<rparr>))"

definition open_handle :: "string \<Rightarrow> string \<Rightarrow> pgfs \<Rightarrow> nat \<times> pgfs" where
  "open_handle parent name s =
     (next_fh s, s\<lparr>next_fh := next_fh s + 1,
        open_handles := AList.update (next_fh s) (handle_new parent name) (open_handles s)\<rparr>)"

definition fuse_read :: "nat \<Rightarrow> nat \<Rightarrow> int \<Rightarrow> nat \<Rightarrow> handler" where
  "fuse_read ino fh offset len =
     callback (\<lambda>m. m\<lparr>read_count := bump (read_count m)\<rparr>) (\<lambda>s.
       let s1 = (case handle_id ino fh s of None \<Rightarrow> s | Some h_id \<Rightarrow> snd (flush_at h_id s)) in
       with_path ino (\<lambda>path.
         case split_path path of (parent, name) \<Rightarrow>
           on_db (read_range parent name (i64_as_u64 offset) len) (\<lambda>found s.
             case found of None \<Rightarrow> (R_error ENOENT, s) | Some data \<Rightarrow> (R_data data, s))) s1)"

definition fuse_write :: "nat \<Rightarrow> nat \<Rightarrow> int \<Rightarrow> bytes \<Rightarrow> handler" where
  "fuse_write ino fh offset data =
     callback (\<lambda>m. m\<lparr>write_count := bump (write_count m)\<rparr>) (\<lambda>s.
       let direct = with_path ino (\<lambda>path.
             case split_path path of (parent, name) \<Rightarrow>
               on_db (write_range parent name (i64_as_u64 offset) data)
                 (\<lambda>_ s. (R_written (length data mod 2 ^ 32), s))) s
       in case handle_id ino fh s of
            None \<Rightarrow> direct
          | Some h_id \<Rightarrow>
              (case map_of (open_handles s) h_id of
                 None \<Rightarrow> direct
               | Some buf \<Rightarrow>
                   (case handle_write (i64_as_u64 offset) data buf of
                      None \<Rightarrow> (R_panic, s)
                    | Some buf' \<Rightarrow>
                        (R_written (length data mod 2 ^ 32),
                         s\<lparr>open_handles := AList.update h_id buf' (open_handles s)\<rparr>))))"

definition fuse_open :: "nat \<Rightarrow> handler" where
  "fuse_open ino =
     callback (\<lambda>m. m\<lparr>open_count := bump (open_count m)\<rparr>)
       (with_path ino (\<lambda>path s.
         case split_path path of (parent, name) \<Rightarrow>
           (case open_handle parent name s of
              (fh, s') \<Rightarrow>
                (R_opened fh,
                 s'\<lparr>open_handles_by_ino := AList.update ino fh (open_handles_by_ino s')\<rparr>))))"

definition flush_reply :: "nat \<Rightarrow> nat \<Rightarrow> handler" where
  "flush_reply ino fh s =
     (case handle_id ino fh s of
        None \<Rightarrow> (R_ok, s)
      | Some h_id \<Rightarrow>
          (case flush_at h_id s of
             (Inl e, s') \<Rightarrow> log_and_reply e s'
           | (Inr _, s') \<Rightarrow> (R_ok, s')))"

definition fuse_flush :: "nat \<Rightarrow> nat \<Rightarrow> handler" where
  "fuse_flush ino fh = callback_preamble (flush_reply ino fh)"

definition fuse_fsync :: "nat \<Rightarrow> nat \<Rightarrow> handler" where
  "fuse_fsync ino fh =
     callback (\<lambda>m. m\<lparr>fsync_count := bump (fsync_count m)\<rparr>) (flush_reply ino fh)"

definition fuse_release :: "nat \<Rightarrow> nat \<Rightarrow> handler" where
  "fuse_release ino fh s =
     (let h_id = (if fh \<noteq> 0 then fh
                  else case map_of (open_handles_by_ino s) ino of None \<Rightarrow> 0 | Some h \<Rightarrow> h);
          s1 = snd (flush_at h_id s)
      in (R_ok, s1\<lparr>open_handles := AList.delete h_id (open_handles s1),
                   open_handles_by_ino :=
                     filter (\<lambda>(k, v). k \<noteq> ino \<and> v \<noteq> h_id) (open_handles_by_ino s1)\<rparr>))"

section \<open>Callbacks that change the tree\<close>

definition reply_attr :: "nat \<Rightarrow> string \<Rightarrow> string \<Rightarrow> handler" where
  "reply_attr ino parent name =
     on_db (getattr_primary parent name) (\<lambda>found s.
       case found of
         None \<Rightarrow> (R_error ENOENT, s)
       | Some meta \<Rightarrow> (R_attr (attr_ttl s) (attr ino meta (owner s)), s))"

definition fuse_setattr :: "nat \<Rightarrow> nat option \<Rightarrow> handler" where
  "fuse_setattr ino new_size =
     callback (\<lambda>m. m\<lparr>setattr_count := bump (setattr_count m)\<rparr>) (\<lambda>s.
       if ino = ROOT_INO then (R_attr (attr_ttl s) (root_attr (owner s)), s)
       else with_path ino (\<lambda>path.
         case split_path path of (parent, name) \<Rightarrow>
           on_db (getattr_primary parent name) (\<lambda>found s.
             case found of
               None \<Rightarrow> (R_error ENOENT, s)
             | Some meta \<Rightarrow>
                 (case new_size of
                    None \<Rightarrow> reply_attr ino parent name s
                  | Some n \<Rightarrow>
                      if m_kind meta = Dir then (R_error EISDIR, s)
                      else on_db (db_truncate parent name n) (\<lambda>_. reply_attr ino parent name) s))) s)"

definition do_rename :: "key \<Rightarrow> key \<Rightarrow> handler" where
  "do_rename old new =
     on_db (rename (fst old) (snd old) (fst new) (snd new)) (\<lambda>_ s.
       (R_ok, s\<lparr>inos :=
          rekey_maps (join (fst old) (snd old)) (join (fst new) (snd new)) (inos s)\<rparr>))"

text \<open>An error of the target's \<open>getattr_primary\<close> is passed over (\<open>if let Ok(Some(..))\<close>).\<close>

definition rename_onto :: "kind \<Rightarrow> key \<Rightarrow> key \<Rightarrow> handler" where
  "rename_onto source_kind old new s =
     (case getattr_primary (fst new) (snd new) (fs_db s) of
        (found, d) \<Rightarrow>
          let s1 = s\<lparr>fs_db := d\<rparr> in
          case found of
            Inr (Some target_meta) \<Rightarrow>
              (case (source_kind, m_kind target_meta) of
                 (File, Dir) \<Rightarrow> (R_error EISDIR, s1)
               | (Dir, File) \<Rightarrow> (R_error ENOTDIR, s1)
               | (Dir, Dir) \<Rightarrow>
                   on_db (list_primary (join (fst new) (snd new))) (\<lambda>children.
                     if children \<noteq> [] then (\<lambda>s. (R_error ENOTEMPTY, s)) else do_rename old new) s1
               | (File, File) \<Rightarrow> do_rename old new s1)
          | _ \<Rightarrow> do_rename old new s1)"

definition fuse_rename :: "nat \<Rightarrow> string \<Rightarrow> nat \<Rightarrow> string \<Rightarrow> nat \<Rightarrow> handler" where
  "fuse_rename parent name newparent newname flags =
     callback (\<lambda>m. m\<lparr>rename_count := bump (rename_count m)\<rparr>) (\<lambda>s.
       if flags \<noteq> 0 then (R_error EINVAL, s)
       else
         with_key parent name (\<lambda>op on.
           with_key newparent newname (\<lambda>np nn s.
             let old_path = join op on; new_path = join np nn in
             if new_path = old_path then (R_ok, s)
             else if prefix (old_path @ ''/'') new_path then (R_error EINVAL, s)
             else
               on_db (getattr_primary op on) (\<lambda>found s.
                 case found of
                   None \<Rightarrow> (R_error ENOENT, s)
                 | Some source_meta \<Rightarrow> rename_onto (m_kind source_meta) (op, on) (np, nn) s) s)) s)"

definition fuse_create :: "nat \<Rightarrow> string \<Rightarrow> handler" where
  "fuse_create parent name =
     callback (\<lambda>m. m\<lparr>create_count := bump (create_count m)\<rparr>)
       (with_key parent name (\<lambda>p n.
         on_db (getattr_primary p n) (\<lambda>found s.
           case found of
             Some _ \<Rightarrow> (R_error EEXIST, s)
           | None \<Rightarrow>
               on_db (create p n) (\<lambda>_ s.
                 case open_handle p n s of
                   (fh, s1) \<Rightarrow>
                     (case number (join p n) s1 of
                        (ino, s2) \<Rightarrow>
                          (R_created (attr_ttl s2) (file_attr ino 0 (wall_clock s2) (owner s2)) fh, s2)))
                 s)))"

definition fuse_mkdir :: "nat \<Rightarrow> string \<Rightarrow> handler" where
  "fuse_mkdir parent name =
     callback (\<lambda>m. m\<lparr>mkdir_count := bump (mkdir_count m)\<rparr>)
       (with_key parent name (\<lambda>p n.
         on_db (getattr_primary p n) (\<lambda>found s.
           case found of
             Some _ \<Rightarrow> (R_error EEXIST, s)
           | None \<Rightarrow>
               on_db (mkdir p n) (\<lambda>_ s.
                 case number (join p n) s of
                   (ino, s1) \<Rightarrow> (R_entry (attr_ttl s1) (dir_attr ino (owner s1)), s1)) s)))"

definition forget :: "string \<Rightarrow> pgfs \<Rightarrow> pgfs" where
  "forget path s = s\<lparr>inos := forget_path path (inos s)\<rparr>"

definition fuse_unlink :: "nat \<Rightarrow> string \<Rightarrow> handler" where
  "fuse_unlink parent name =
     callback (\<lambda>m. m\<lparr>unlink_count := bump (unlink_count m)\<rparr>)
       (with_key parent name (\<lambda>p n.
         on_db (unlink p n) (\<lambda>_ s. (R_ok, forget (join p n) s))))"

definition fuse_rmdir :: "nat \<Rightarrow> string \<Rightarrow> handler" where
  "fuse_rmdir parent name =
     callback (\<lambda>m. m\<lparr>rmdir_count := bump (rmdir_count m)\<rparr>)
       (with_key parent name (\<lambda>p n.
         on_db (getattr_primary p n) (\<lambda>found s.
           case found of
             None \<Rightarrow> (R_error ENOENT, s)
           | Some _ \<Rightarrow>
               on_db (rmdir p n) (\<lambda>deleted s.
                 if deleted then (R_ok, forget (join p n) s) else (R_error ENOTEMPTY, s)) s)))"

section \<open>Requests\<close>

datatype request =
    Lookup nat string
  | Getattr nat
  | Setattr nat "nat option"
  | Read nat nat int nat
  | Write nat nat int bytes
  | Open nat
  | Flush nat nat
  | Fsync nat nat
  | Release nat nat
  | Rename nat string nat string nat
  | Create nat string
  | Mkdir nat string
  | Unlink nat string
  | Rmdir nat string
  | Readdir nat int nat

fun handle :: "request \<Rightarrow> handler" where
  "handle (Lookup parent name) = fuse_lookup parent name"
| "handle (Getattr ino) = fuse_getattr ino"
| "handle (Setattr ino new_size) = fuse_setattr ino new_size"
| "handle (Read ino fh offset len) = fuse_read ino fh offset len"
| "handle (Write ino fh offset data) = fuse_write ino fh offset data"
| "handle (Open ino) = fuse_open ino"
| "handle (Flush ino fh) = fuse_flush ino fh"
| "handle (Fsync ino fh) = fuse_fsync ino fh"
| "handle (Release ino fh) = fuse_release ino fh"
| "handle (Rename parent name newparent newname flags) = fuse_rename parent name newparent newname flags"
| "handle (Create parent name) = fuse_create parent name"
| "handle (Mkdir parent name) = fuse_mkdir parent name"
| "handle (Unlink parent name) = fuse_unlink parent name"
| "handle (Rmdir parent name) = fuse_rmdir parent name"
| "handle (Readdir ino offset room) = fuse_readdir ino offset room"

end
