(* ===== verification/Fuse_Rules.thy ===== *)
theory Fuse_Rules
  imports Fuse_Fs
begin

text \<open>
  Rules for reasoning about the callbacks of \<open>Fuse_Fs\<close>: a triple over the part of the
  state that is not the database, with a rule for each of the building blocks, and the
  invariant of that part.
\<close>

section \<open>Triples\<close>

definition hoare :: "(pgfs \<Rightarrow> bool) \<Rightarrow> handler \<Rightarrow> (reply \<Rightarrow> pgfs \<Rightarrow> bool) \<Rightarrow> bool" where
  "hoare P h Q \<longleftrightarrow> (\<forall>s. P s \<longrightarrow> (case h s of (r, s') \<Rightarrow> Q r s'))"

text \<open>Predicates that do not look at the database or the dump flag.\<close>

definition core :: "pgfs \<Rightarrow> inodes \<times> nat \<times> (nat \<times> handle_buffer) list \<times> (nat \<times> nat) list" where
  "core s = (inos s, next_fh s, open_handles s, open_handles_by_ino s)"

definition stable :: "(pgfs \<Rightarrow> bool) \<Rightarrow> bool" where
  "stable P \<longleftrightarrow> (\<forall>s s'. core s = core s' \<longrightarrow> P s = P s')"

lemma core_simps [simp]:
  "core (s\<lparr>fs_db := d\<rparr>) = core s" "core (set_stats m s) = core s" "core (on_stats f s) = core s"
  "core (maybe_dump_state s) = core s" "core (record_fuse_latency s) = core s"
  by (simp_all add: core_def set_stats_def on_stats_def maybe_dump_state_def record_fuse_latency_def
      Let_def)

lemma stableD: "stable P \<Longrightarrow> core s = core s' \<Longrightarrow> P s = P s'"
  unfolding stable_def by blast

lemma stableI: "(\<And>s s'. core s = core s' \<Longrightarrow> P s = P s') \<Longrightarrow> stable P"
  unfolding stable_def by blast

lemma stable_inos: "stable (\<lambda>s. F (inos s))"
  by (rule stableI) (simp add: core_def)

lemma stable_conj: "stable P \<Longrightarrow> stable P' \<Longrightarrow> stable (\<lambda>s. P s \<and> P' s)"
  by (rule stableI) (metis stableD)

lemma stable_const: "stable (\<lambda>s. b)"
  by (rule stableI) simp

lemmas stable_intros = stable_inos stable_conj stable_const

lemma hoareI: "(\<And>s r s'. P s \<Longrightarrow> h s = (r, s') \<Longrightarrow> Q r s') \<Longrightarrow> hoare P h Q"
  by (auto simp: hoare_def)

lemma hoareD: "hoare P h Q \<Longrightarrow> P s \<Longrightarrow> h s = (r, s') \<Longrightarrow> Q r s'"
  by (auto simp: hoare_def)

lemma hoare_pre: "hoare P h Q \<Longrightarrow> (\<And>s. P' s \<Longrightarrow> P s) \<Longrightarrow> hoare P' h Q"
  by (auto simp: hoare_def)

lemma hoare_reply: "(\<And>s. P s \<Longrightarrow> Q (r s) (f s)) \<Longrightarrow> hoare P (\<lambda>s. (r s, f s)) Q"
  by (simp add: hoare_def)

lemma hoare_if: "(b \<Longrightarrow> hoare P h Q) \<Longrightarrow> (\<not> b \<Longrightarrow> hoare P h' Q) \<Longrightarrow> hoare P (if b then h else h') Q"
  by simp

lemma hoare_log_and_reply:
  assumes "stable P" and "\<And>s. P s \<Longrightarrow> Q (R_error EIO) s \<and> Q R_panic s"
  shows "hoare P (log_and_reply e) Q"
proof (rule hoareI)
  fix s r s'
  assume P: "P s" and "log_and_reply e s = (r, s')"
  then have "core s' = core s" and r: "r = R_panic \<or> r = R_error EIO"
    by (auto simp: log_and_reply_def split: if_splits)
  with P stableD [OF assms(1)] have "P s'" by blast
  with assms(2) r show "Q r s'" by auto
qed

lemma hoare_on_db:
  assumes "stable P" and "\<And>x. hoare P (k x) Q" and "\<And>s. P s \<Longrightarrow> Q (R_error EIO) s \<and> Q R_panic s"
  shows "hoare P (on_db op k) Q"
proof (rule hoareI)
  fix s r s'
  assume P: "P s" and run: "on_db op k s = (r, s')"
  obtain res d where op: "op (fs_db s) = (res, d)" by (cases "op (fs_db s)")
  have P': "P (s\<lparr>fs_db := d\<rparr>)" using P stableD [OF assms(1), of s "s\<lparr>fs_db := d\<rparr>"] by simp
  show "Q r s'"
  proof (cases res)
    case (Inl e)
    have "hoare P (log_and_reply e) Q" by (rule hoare_log_and_reply [OF assms(1)]) (rule assms(3))
    from hoareD [OF this P'] Inl run op show ?thesis by (simp add: on_db_def)
  next
    case (Inr x)
    with run op hoareD [OF assms(2) P'] show ?thesis by (simp add: on_db_def)
  qed
qed

lemma hoare_with_key:
  assumes "\<And>p. hoare (\<lambda>s. P s \<and> path_of_ino (inos s) parent = Some p) (k p name) Q"
    and "\<And>s. P s \<Longrightarrow> Q (R_error ENOENT) s"
  shows "hoare P (with_key parent name k) Q"
proof (rule hoareI)
  fix s r s'
  assume P: "P s" and run: "with_key parent name k s = (r, s')"
  show "Q r s'"
  proof (cases "resolve parent name s")
    case (Inl e)
    then have "e = ENOENT" by (auto simp: resolve_def split: option.splits)
    with Inl run assms(2) [OF P] show ?thesis by (simp add: with_key_def)
  next
    case (Inr k)
    obtain p n where k: "k = (p, n)" by (cases k)
    with Inr have "path_of_ino (inos s) parent = Some p" "n = name"
      by (auto simp: resolve_def to_str_def split: option.splits if_splits)
    with P hoareD [OF assms(1), of s p r s'] Inr k run show ?thesis by (simp add: with_key_def)
  qed
qed

lemma hoare_with_path:
  assumes "\<And>p. hoare (\<lambda>s. P s \<and> path_of_ino (inos s) ino = Some p) (k p) Q"
    and "\<And>s. P s \<Longrightarrow> Q (R_error ENOENT) s"
  shows "hoare P (with_path ino k) Q"
proof (rule hoareI)
  fix s r s'
  assume P: "P s" and run: "with_path ino k s = (r, s')"
  show "Q r s'"
  proof (cases "path_of_ino (inos s) ino")
    case None
    with run assms(2) [OF P] show ?thesis by (simp add: with_path_def)
  next
    case (Some p)
    with P hoareD [OF assms(1), of s p r s'] run show ?thesis by (simp add: with_path_def)
  qed
qed

lemma hoare_preamble:
  assumes "stable P" and "hoare P body Q" and "\<And>s. P s \<Longrightarrow> Q (R_error EIO) s"
  shows "hoare P (callback_preamble body) Q"
proof (rule hoareI)
  fix s r s'
  assume P: "P s" and run: "callback_preamble body s = (r, s')"
  let ?s = "maybe_dump_state s"
  obtain ok m where c: "check_liveness (mono_now (fs_db ?s)) (stats (fs_db ?s)) = (ok, m)"
    by (cases "check_liveness (mono_now (fs_db ?s)) (stats (fs_db ?s))")
  have P': "P (set_stats m' ?s)" for m'
    using P stableD [OF assms(1), of s "set_stats m' ?s"] by simp
  show "Q r s'"
  proof (cases ok)
    case True
    with run c have "body (set_stats m ?s) = (r, s')" by (simp add: callback_preamble_def)
    then show ?thesis by (rule hoareD [OF assms(2) P'])
  next
    case False
    with run c have "r = R_error EIO" "s' = set_stats (m\<lparr>deadlock_detected := True\<rparr>) ?s"
      by (simp_all add: callback_preamble_def)
    then show ?thesis using assms(3) [OF P'] by simp
  qed
qed

lemma hoare_callback:
  assumes "stable P" and "\<And>r. stable (Q r)" and "hoare P body Q" and "\<And>s. P s \<Longrightarrow> Q (R_error EIO) s"
  shows "hoare P (callback count body) Q"
proof -
  have "hoare P (\<lambda>s. body (on_stats count s)) Q"
  proof (rule hoareI)
    fix s r s'
    assume "P s" and run: "body (on_stats count s) = (r, s')"
    then have "P (on_stats count s)" using stableD [OF assms(1), of s "on_stats count s"] by simp
    then show "Q r s'" using run by (rule hoareD [OF assms(3)])
  qed
  then have pre: "hoare P (callback_preamble (\<lambda>s. body (on_stats count s))) Q"
    using assms(1,4) by (intro hoare_preamble)
  show ?thesis
  proof (rule hoareI)
    fix s r s'
    assume P: "P s" and run: "callback count body s = (r, s')"
    obtain u where u: "callback_preamble (\<lambda>s. body (on_stats count s)) s = (r, u)"
      "s' = record_fuse_latency u"
      using run by (auto simp: callback_def latency_guard_def split: prod.splits)
    have "Q r u" by (rule hoareD [OF pre P u(1)])
    then show "Q r s'" using stableD [OF assms(2), of u s'] u(2) by simp
  qed
qed

section \<open>The invariant\<close>

definition handles_ok :: "pgfs \<Rightarrow> bool" where
  "handles_ok s \<longleftrightarrow> 0 < next_fh s \<and> distinct (map fst (open_handles s)) \<and>
     (\<forall>fh h. map_of (open_handles s) fh = Some h \<longrightarrow>
        0 < fh \<and> fh < next_fh s \<and> distinct (map fst (dirty_blocks h))) \<and>
     (\<forall>ino fh. (ino, fh) \<in> set (open_handles_by_ino s) \<longrightarrow> 0 < fh \<and> fh < next_fh s)"

definition fs_inv :: "pgfs \<Rightarrow> bool" where
  "fs_inv s \<longleftrightarrow> inodes_ok (inos s) \<and> root_ok (inos s) \<and> handles_ok s"

lemma stable_handles: "stable handles_ok"
  by (rule stableI) (simp add: core_def handles_ok_def)

lemma stable_inv: "stable fs_inv"
  unfolding fs_inv_def by (intro stable_intros stable_handles)

lemma inv_inos: "fs_inv s \<Longrightarrow> inodes_ok m \<Longrightarrow> root_ok m \<Longrightarrow> fs_inv (s\<lparr>inos := m\<rparr>)"
  by (simp add: fs_inv_def handles_ok_def)

lemma inv_number: "fs_inv s \<Longrightarrow> fs_inv (snd (number path s))"
  unfolding number_def case_prod_unfold
  by (simp add: inv_inos ino_for_ok ino_for_root fs_inv_def handles_ok_def)

lemma number_resolves:
  "fs_inv s \<Longrightarrow> path_of_ino (inos (snd (number path s))) (fst (number path s)) = Some path"
  using it.alloc_resolve [of "inos s" path]
  by (simp add: number_def fs_inv_def case_prod_unfold)

lemma handle_write_distinct:
  assumes "distinct (map fst (dirty_blocks h))" and "handle_write offset data h = Some h'"
  shows "distinct (map fst (dirty_blocks h'))"
proof -
  have "distinct (map fst ds')" if "buffer_blocks offset data bs ds = Some ds'" "distinct (map fst ds)"
    for bs ds ds'
    using that
    by (induction bs arbitrary: ds)
      (auto simp: buffer_block_def Let_def distinct_update split: option.splits)
  with assms show ?thesis
    by (auto simp: handle_write_def split: if_splits option.splits)
qed

lemma handles_update:
  assumes "handles_ok s" and "0 < fh" "fh < next_fh s" and "distinct (map fst (dirty_blocks h))"
  shows "handles_ok (s\<lparr>open_handles := AList.update fh h (open_handles s)\<rparr>)"
  using assms
  by (auto simp: handles_ok_def distinct_update update_conv' simp del: map_of_eq_Some_iff
      Some_eq_map_of_iff split: if_splits)

lemma handles_delete:
  "handles_ok s \<Longrightarrow> handles_ok (s\<lparr>open_handles := AList.delete fh (open_handles s)\<rparr>)"
  by (auto simp: handles_ok_def distinct_delete delete_conv' simp del: map_of_eq_Some_iff
      Some_eq_map_of_iff split: if_splits)

lemma handles_flush:
  assumes "handles_ok s" and "flush_handle fh (open_handles s) d = (r, hs, d')"
  shows "handles_ok (s\<lparr>open_handles := hs\<rparr>)"
proof (cases "map_of (open_handles s) fh")
  case None
  with assms show ?thesis by (auto simp: flush_handle_def)
next
  case (Some h)
  let ?d = "s\<lparr>open_handles := AList.delete fh (open_handles s)\<rparr>"
  have h: "0 < fh" "fh < next_fh s" "distinct (map fst (dirty_blocks h))"
    using assms(1) Some by (auto simp: handles_ok_def)
  have d: "handles_ok ?d" using assms(1) by (rule handles_delete)
  have "handles_ok (?d\<lparr>open_handles := AList.update fh h' (open_handles ?d)\<rparr>)"
    if "distinct (map fst (dirty_blocks h'))" for h'
    using d h that by (intro handles_update) simp_all
  with d h(3) assms(2) Some show ?thesis
    by (auto simp: flush_handle_def Let_def split: prod.splits sum.splits if_splits)
qed

lemma inv_flush_at: "fs_inv s \<Longrightarrow> fs_inv (snd (flush_at fh s))"
  using handles_flush [of s fh "fs_db s"]
  by (auto simp: flush_at_def fs_inv_def split: prod.split) (simp add: handles_ok_def)

lemma inv_open_handle:
  assumes "fs_inv s"
  shows "fs_inv (snd (open_handle p n s))" and "0 < fst (open_handle p n s)"
    and "fst (open_handle p n s) < next_fh (snd (open_handle p n s))"
proof -
  let ?s = "s\<lparr>next_fh := next_fh s + 1\<rparr>"
  have "handles_ok ?s" using assms by (fastforce simp: fs_inv_def handles_ok_def)
  then have "handles_ok (?s\<lparr>open_handles := AList.update (next_fh s) (handle_new p n) (open_handles ?s)\<rparr>)"
    using assms by (intro handles_update) (auto simp: fs_inv_def handles_ok_def handle_new_def)
  with assms show "fs_inv (snd (open_handle p n s))" by (simp add: fs_inv_def open_handle_def)
  show "0 < fst (open_handle p n s)" "fst (open_handle p n s) < next_fh (snd (open_handle p n s))"
    using assms by (auto simp: open_handle_def fs_inv_def handles_ok_def)
qed

end
