(* ===== verification/Fuse_Frames.thy ===== *)
theory Fuse_Frames
  imports Db_Frames Fuse_Rules
begin

text \<open>
  What the callbacks leave alone, by rules for their building blocks: callbacks for which the
  standby plays no part, callbacks whose errors are counted, and callbacks that change no
  table when they reply with an error.
\<close>

section \<open>Without the standby\<close>

definition alone :: "pgfs \<Rightarrow> pgfs" where
  "alone s = s\<lparr>fs_db := no_standby (fs_db s)\<rparr>"

definition aside :: "(pgfs \<Rightarrow> 'a \<times> pgfs) \<Rightarrow> bool" where
  "aside h \<longleftrightarrow> (\<forall>s. h (alone s) = (fst (h s), alone (snd (h s))))"

lemma alone_simps [simp]:
  "fs_db (alone s) = no_standby (fs_db s)" "inos (alone s) = inos s" "next_fh (alone s) = next_fh s"
  "open_handles (alone s) = open_handles s" "open_handles_by_ino (alone s) = open_handles_by_ino s"
  "dump_requested (alone s) = dump_requested s" "attr_ttl (alone s) = attr_ttl s"
  "owner (alone s) = owner s" "wall_clock (alone s) = wall_clock s"
  "alone (s\<lparr>inos := m\<rparr>) = (alone s)\<lparr>inos := m\<rparr>"
  "alone (s\<lparr>open_handles := hs\<rparr>) = (alone s)\<lparr>open_handles := hs\<rparr>"
  "alone (s\<lparr>open_handles_by_ino := his\<rparr>) = (alone s)\<lparr>open_handles_by_ino := his\<rparr>"
  "alone (s\<lparr>next_fh := i\<rparr>) = (alone s)\<lparr>next_fh := i\<rparr>"
  "alone (s\<lparr>dump_requested := b\<rparr>) = (alone s)\<lparr>dump_requested := b\<rparr>"
  by (simp_all add: alone_def)

lemma alone_db: "alone (s\<lparr>fs_db := d\<rparr>) = (alone s)\<lparr>fs_db := no_standby d\<rparr>"
  by (simp add: alone_def)

lemma asideI: "(\<And>s r s'. h s = (r, s') \<Longrightarrow> h (alone s) = (r, alone s')) \<Longrightarrow> aside h"
  unfolding aside_def by (metis prod.collapse)

lemma asideD: "aside h \<Longrightarrow> h s = (r, s') \<Longrightarrow> h (alone s) = (r, alone s')"
  by (metis aside_def fst_conv snd_conv)

lemma aside_reply: "(\<And>s. r (alone s) = r s \<and> f (alone s) = alone (f s)) \<Longrightarrow> aside (\<lambda>s. (r s, f s))"
  by (simp add: aside_def)

lemma aside_stats:
  assumes "\<And>m. f (no_standby_stats m) = no_standby_stats (f m)"
  shows "alone (on_stats f s) = on_stats f (alone s)"
  using assms
  by (simp add: alone_def on_stats_def set_stats_def no_standby_def)

lemma aside_log: "aside (log_and_reply e)"
proof -
  have "alone (on_stats (\<lambda>m. m\<lparr>eio_count := bump (eio_count m)\<rparr>) s) =
      on_stats (\<lambda>m. m\<lparr>eio_count := bump (eio_count m)\<rparr>) (alone s)" for s
    by (rule aside_stats) (simp add: no_standby_stats_def)
  then show ?thesis by (simp add: aside_def log_and_reply_def)
qed

lemma aside_on_db:
  assumes "secluded op" and "\<And>x. aside (k x)"
  shows "aside (on_db op k)"
proof (rule asideI)
  fix s r s'
  assume run: "on_db op k s = (r, s')"
  obtain x d where op: "op (fs_db s) = (x, d)" by (cases "op (fs_db s)")
  note op' = secludedD(1) [OF assms(1) op]
  show "on_db op k (alone s) = (r, alone s')"
  proof (cases x)
    case (Inl e)
    with run op have "log_and_reply e (s\<lparr>fs_db := d\<rparr>) = (r, s')" by (simp add: on_db_def)
    from asideD [OF aside_log this] Inl op' show ?thesis by (simp add: on_db_def alone_db)
  next
    case (Inr y)
    with run op have "k y (s\<lparr>fs_db := d\<rparr>) = (r, s')" by (simp add: on_db_def)
    from asideD [OF assms(2) this] Inr op' show ?thesis by (simp add: on_db_def alone_db)
  qed
qed

lemma aside_with_key: "(\<And>p n. aside (k p n)) \<Longrightarrow> aside (with_key parent name k)"
  by (simp add: aside_def with_key_def resolve_def split: option.split)

lemma aside_with_path: "(\<And>p. aside (k p)) \<Longrightarrow> aside (with_path ino k)"
  by (simp add: aside_def with_path_def split: option.split)

lemma aside_number:
  "aside (\<lambda>s. case number path s of (ino, s') \<Rightarrow> (r ino (attr_ttl s') (owner s'), s'))"
  by (rule asideI) (auto simp: number_def split: prod.splits)

lemma aside_option: "aside h \<Longrightarrow> (\<And>x. aside (k x)) \<Longrightarrow> aside (case z of None \<Rightarrow> h | Some x \<Rightarrow> k x)"
  by (cases z) auto

lemma aside_option_state:
  "aside h \<Longrightarrow> (\<And>x. aside (k x)) \<Longrightarrow> aside (\<lambda>s. case z of None \<Rightarrow> h s | Some x \<Rightarrow> k x s)"
  by (cases z) auto

lemma aside_if: "aside h \<Longrightarrow> aside h' \<Longrightarrow> aside (if b then h else h')"
  by simp

lemma aside_if_state: "aside h \<Longrightarrow> aside h' \<Longrightarrow> aside (\<lambda>s. if b then h s else h' s)"
  by (cases b) simp_all

lemma aside_split: "(\<And>a b. aside (h a b)) \<Longrightarrow> aside (case z of (a, b) \<Rightarrow> h a b)"
  by (cases z) simp

lemma aside_split_state: "(\<And>a b. aside (h a b)) \<Longrightarrow> aside (\<lambda>s. case z of (a, b) \<Rightarrow> h a b s)"
  by (cases z) simp

lemma check_liveness_alone:
  "check_liveness t (no_standby_stats m) =
    (fst (check_liveness t m), no_standby_stats (snd (check_liveness t m)))"
  by (simp add: check_liveness_def no_standby_stats_def Let_def)

lemma aside_dump: "maybe_dump_state (alone s) = alone (maybe_dump_state s)"
  by (simp add: maybe_dump_state_def replica_state_frame alone_def)

lemma stats_no_standby [simp]: "stats (no_standby d) = no_standby_stats (stats d)"
  by (simp add: no_standby_def)

lemma alone_set_stats: "alone (set_stats m s) = set_stats (no_standby_stats m) (alone s)"
  by (simp add: alone_def set_stats_def no_standby_def)

lemma aside_preamble:
  assumes "aside body"
  shows "aside (callback_preamble body)"
proof (rule asideI)
  fix s r s'
  assume run: "callback_preamble body s = (r, s')"
  let ?s = "maybe_dump_state s"
  obtain ok m where c: "check_liveness (mono_now (fs_db ?s)) (stats (fs_db ?s)) = (ok, m)"
    by (cases "check_liveness (mono_now (fs_db ?s)) (stats (fs_db ?s))")
  show "callback_preamble body (alone s) = (r, alone s')"
  proof (cases ok)
    case True
    with run c have "body (set_stats m ?s) = (r, s')" by (simp add: callback_preamble_def)
    from asideD [OF assms this] True c show ?thesis
      by (simp add: callback_preamble_def aside_dump check_liveness_alone alone_set_stats)
  next
    case False
    have "no_standby_stats (m\<lparr>deadlock_detected := True\<rparr>) =
        (no_standby_stats m)\<lparr>deadlock_detected := True\<rparr>"
      by (cases m) (simp add: no_standby_stats_def)
    with False run c show ?thesis
      by (auto simp: callback_preamble_def aside_dump check_liveness_alone alone_set_stats)
  qed
qed

lemma aside_latency: "aside body \<Longrightarrow> aside (latency_guard body)"
  by (rule asideI)
    (auto simp: latency_guard_def record_fuse_latency_def Let_def alone_def no_standby_def
      no_standby_stats_def aside_def split: prod.splits)

lemma aside_callback:
  assumes "\<And>m. count (no_standby_stats m) = no_standby_stats (count m)" and "aside body"
  shows "aside (callback count body)"
proof -
  have "aside (\<lambda>s. body (on_stats count s))"
  proof (rule asideI)
    fix s r s'
    assume "body (on_stats count s) = (r, s')"
    from asideD [OF assms(2) this] show "body (on_stats count (alone s)) = (r, alone s')"
      by (simp add: aside_stats assms(1))
  qed
  then show ?thesis unfolding callback_def by (intro aside_latency aside_preamble)
qed

lemmas aside_intros = aside_on_db aside_with_key aside_with_path aside_number aside_option
  aside_option_state aside_if aside_if_state aside_split aside_split_state aside_reply
  secluded_getattr_primary secluded_list_primary secluded_read_range secluded_write_range
  secluded_truncate secluded_write_blocks_batch secluded_create secluded_mkdir secluded_unlink
  secluded_rmdir secluded_rename

lemma aside_flush_at: "aside (flush_at fh)"
proof (rule asideI)
  fix s r s'
  assume run: "flush_at fh s = (r, s')"
  show "flush_at fh (alone s) = (r, alone s')"
  proof (cases "map_of (open_handles s) fh")
    case None
    with run show ?thesis by (auto simp: flush_at_def flush_handle_def alone_def)
  next
    case (Some h)
    obtain x d where w: "write_blocks_batch (hb_parent h) (hb_name h) (dirty_blocks h) (max_size h)
        (fs_db s) = (x, d)" by force
    from pwb.commutes [OF w] w run Some show ?thesis
      by (cases x) (auto simp: flush_at_def flush_handle_def alone_db Let_def split: if_splits)
  qed
qed

lemma aside_mkdir: "aside (fuse_mkdir parent name)"
  unfolding fuse_mkdir_def
  by (rule aside_callback) (auto simp: no_standby_stats_def intro!: aside_intros)

lemma aside_create: "aside (fuse_create parent name)"
proof -
  have "aside (\<lambda>s. case open_handle p n s of (fh, s1) \<Rightarrow> (case number path s1 of (ino, s2) \<Rightarrow>
      (R_created (attr_ttl s2) (file_attr ino 0 (wall_clock s2) (owner s2)) fh, s2)))" for p n path
    by (rule asideI) (auto simp: number_def open_handle_def split: prod.splits)
  then show ?thesis
    unfolding fuse_create_def
    by (intro aside_callback) (auto simp: no_standby_stats_def intro!: aside_intros)
qed

lemma aside_unlink: "aside (fuse_unlink parent name)"
  unfolding fuse_unlink_def
  by (rule aside_callback) (auto simp: no_standby_stats_def forget_def intro!: aside_intros)

lemma aside_rmdir: "aside (fuse_rmdir parent name)"
  unfolding fuse_rmdir_def
  by (rule aside_callback) (auto simp: no_standby_stats_def forget_def intro!: aside_intros)

lemma aside_do_rename: "aside (do_rename old new)"
  unfolding do_rename_def by (auto intro!: aside_intros)

lemma aside_rename_onto: "aside (rename_onto k old new)"
proof (rule asideI)
  fix s r s'
  assume run: "rename_onto k old new s = (r, s')"
  obtain x d where g: "getattr_primary (fst new) (snd new) (fs_db s) = (x, d)" by force
  have "aside (on_db (list_primary (join (fst new) (snd new))) (\<lambda>children.
      if children \<noteq> [] then (\<lambda>s. (R_error ENOTEMPTY, s)) else do_rename old new))"
    by (auto intro!: aside_intros aside_do_rename)
  note steps = asideD [OF this, of "s\<lparr>fs_db := d\<rparr>" r s'] asideD [OF aside_do_rename, of old new "s\<lparr>fs_db := d\<rparr>" r s']
  show "rename_onto k old new (alone s) = (r, alone s')"
    using run g pga.commutes [OF g] steps
    by (auto simp: rename_onto_def Let_def alone_db split: sum.splits option.splits kind.splits)
qed

lemma aside_rename: "aside (fuse_rename parent name newparent newname flags)"
  unfolding fuse_rename_def Let_def
  by (rule aside_callback)
    (auto simp: no_standby_stats_def intro!: aside_intros aside_rename_onto)

lemma aside_setattr: "aside (fuse_setattr ino new_size)"
proof -
  have r: "aside (reply_attr ino p n)" for p n
    unfolding reply_attr_def by (auto intro!: aside_intros)
  show ?thesis
    unfolding fuse_setattr_def
    by (rule aside_callback) (auto simp: no_standby_stats_def intro!: aside_intros r)
qed

lemma aside_open: "aside (fuse_open ino)"
  unfolding fuse_open_def
  by (rule aside_callback)
    (auto simp: no_standby_stats_def open_handle_def intro!: aside_intros)

lemma aside_flush_reply: "aside (flush_reply ino fh)"
proof (rule asideI)
  fix s r s'
  assume run: "flush_reply ino fh s = (r, s')"
  show "flush_reply ino fh (alone s) = (r, alone s')"
  proof (cases "handle_id ino fh s")
    case None
    with run show ?thesis by (auto simp: flush_reply_def handle_id_def split: if_splits)
  next
    case (Some h)
    obtain x u where f: "flush_at h s = (x, u)" by force
    have "handle_id ino fh (alone s) = Some h" using Some by (auto simp: handle_id_def)
    with run Some f asideD [OF aside_flush_at f] asideD [OF aside_log, of _ u r s'] show ?thesis
      by (cases x) (auto simp: flush_reply_def)
  qed
qed

lemma aside_flush: "aside (fuse_flush ino fh)" and aside_fsync: "aside (fuse_fsync ino fh)"
  unfolding fuse_flush_def fuse_fsync_def
  by (intro aside_preamble aside_callback aside_flush_reply; simp add: no_standby_stats_def)+

lemma flush_at_alone: "snd (flush_at h (alone s)) = alone (snd (flush_at h s))"
  using aside_flush_at [of h] by (simp add: aside_def)

lemma handle_id_alone [simp]: "handle_id ino fh (alone s) = handle_id ino fh s"
  by (simp add: handle_id_def)

lemma aside_release: "aside (fuse_release ino fh)"
  by (simp add: aside_def fuse_release_def Let_def flush_at_alone)

lemma aside_read: "aside (fuse_read ino fh offset len)"
proof -
  let ?k = "with_path ino (\<lambda>path. case split_path path of (parent, name) \<Rightarrow>
      on_db (read_range parent name (i64_as_u64 offset) len) (\<lambda>found s.
        case found of None \<Rightarrow> (R_error ENOENT, s) | Some data \<Rightarrow> (R_data data, s)))"
  let ?f = "\<lambda>s. case handle_id ino fh s of None \<Rightarrow> s | Some h_id \<Rightarrow> snd (flush_at h_id s)"
  have k: "aside ?k" by (auto intro!: aside_intros)
  have "?f (alone s) = alone (?f s)" for s by (simp add: flush_at_alone split: option.split)
  then have "aside (\<lambda>s. ?k (?f s))" using k unfolding aside_def by simp
  then show ?thesis
    unfolding fuse_read_def Let_def by (intro aside_callback) (simp add: no_standby_stats_def)
qed

lemma aside_write: "aside (fuse_write ino fh offset data)"
proof -
  let ?k = "with_path ino (\<lambda>path. case split_path path of (parent, name) \<Rightarrow>
      on_db (write_range parent name (i64_as_u64 offset) data)
        (\<lambda>_ s. (R_written (length data mod 2 ^ 32), s)))"
  have k: "aside ?k" by (auto intro!: aside_intros)
  then have "aside (\<lambda>s. case handle_id ino fh s of None \<Rightarrow> ?k s
      | Some h_id \<Rightarrow> (case map_of (open_handles s) h_id of None \<Rightarrow> ?k s
          | Some buf \<Rightarrow> (case handle_write (i64_as_u64 offset) data buf of None \<Rightarrow> (R_panic, s)
            | Some buf' \<Rightarrow> (R_written (length data mod 2 ^ 32),
                s\<lparr>open_handles := AList.update h_id buf' (open_handles s)\<rparr>))))"
    by (auto simp: aside_def split: option.split)
  then show ?thesis
    unfolding fuse_write_def Let_def by (intro aside_callback) (simp add: no_standby_stats_def)
qed

end
