(* ===== verification/Fuse_Errors.thy ===== *)
theory Fuse_Errors
  imports Fuse_Frames
begin

text \<open>
  Two more contracts of the callbacks, by rules for their building blocks: a stalled
  heartbeat refuses the request and every other \<open>EIO\<close> is counted; a request that replies
  with another error has changed no table.
\<close>

section \<open>Counted errors\<close>

abbreviation st :: "pgfs \<Rightarrow> statics" where
  "st s \<equiv> stats (fs_db s)"

text \<open>The heartbeat has not moved since the check that set the deadline, which has passed.\<close>

definition stalled :: "pgfs \<Rightarrow> bool" where
  "stalled s \<longleftrightarrow> last_beat_seen (st s) \<noteq> U64_MAX \<and> liveness (st s) = last_beat_seen (st s) \<and>
     beat_deadline_at (st s) \<le> mono_now (fs_db s)"

definition counted :: "reply \<Rightarrow> (nat \<times> nat list) \<times> nat \<times> nat \<times> nat \<times> bool \<times> nat \<Rightarrow> (nat \<times> nat list) \<times> nat \<times> nat \<times> nat \<times> bool \<times> nat"
where
  "counted r v = (case v of (a, b, c, d, e, n) \<Rightarrow> (a, b, c, d, e, if r = R_error EIO then bump n else n))"

definition accounts :: "handler \<Rightarrow> bool" where
  "accounts h \<longleftrightarrow> (\<forall>s r s'. h s = (r, s') \<longrightarrow> vitals (fs_db s') = counted r (vitals (fs_db s)))"

lemma accountsI:
  "(\<And>s r s'. h s = (r, s') \<Longrightarrow> vitals (fs_db s') = counted r (vitals (fs_db s))) \<Longrightarrow> accounts h"
  unfolding accounts_def by blast

lemma accountsD: "accounts h \<Longrightarrow> h s = (r, s') \<Longrightarrow> vitals (fs_db s') = counted r (vitals (fs_db s))"
  unfolding accounts_def by blast

lemma counted_other [simp]: "r \<noteq> R_error EIO \<Longrightarrow> counted r v = v"
  by (simp add: counted_def split: prod.split)

lemma accounts_reply:
  "(\<And>s. vitals (fs_db (f s)) = vitals (fs_db s)) \<Longrightarrow> (\<And>s. r s \<noteq> R_error EIO) \<Longrightarrow> accounts (\<lambda>s. (r s, f s))"
  by (rule accountsI) auto

lemma accounts_id: "(\<And>s. r s \<noteq> R_error EIO) \<Longrightarrow> accounts (\<lambda>s. (r s, s))"
  by (rule accounts_reply) simp_all

lemma accounts_log: "accounts (log_and_reply e)"
  by (rule accountsI)
    (auto simp: log_and_reply_def counted_def on_stats_def set_stats_def vitals_def
      idle_counts_def split: if_splits)

lemma accounts_on_db:
  assumes "unvital op" and "\<And>x. accounts (k x)"
  shows "accounts (on_db op k)"
proof (rule accountsI)
  fix s r s'
  assume run: "on_db op k s = (r, s')"
  obtain x d where op: "op (fs_db s) = (x, d)" by (cases "op (fs_db s)")
  have v: "vitals d = vitals (fs_db s)" using assms(1) op by (rule unvitalD)
  show "vitals (fs_db s') = counted r (vitals (fs_db s))"
  proof (cases x)
    case (Inl e)
    with run op have "log_and_reply e (s\<lparr>fs_db := d\<rparr>) = (r, s')" by (simp add: on_db_def)
    from accountsD [OF accounts_log this] v show ?thesis by simp
  next
    case (Inr y)
    with run op have "k y (s\<lparr>fs_db := d\<rparr>) = (r, s')" by (simp add: on_db_def)
    from accountsD [OF assms(2) this] v show ?thesis by simp
  qed
qed

lemma accounts_with_key: "(\<And>p n. accounts (k p n)) \<Longrightarrow> accounts (with_key parent name k)"
  by (rule accountsI)
    (auto simp: with_key_def resolve_def split: option.splits dest: accountsD)

lemma accounts_with_path: "(\<And>p. accounts (k p)) \<Longrightarrow> accounts (with_path ino k)"
  by (rule accountsI) (auto simp: with_path_def split: option.splits dest: accountsD)

lemma accounts_if: "accounts h \<Longrightarrow> accounts h' \<Longrightarrow> accounts (if b then h else h')"
  by simp

lemma accounts_if_state: "accounts h \<Longrightarrow> accounts h' \<Longrightarrow> accounts (\<lambda>s. if b then h s else h' s)"
  by (cases b) simp_all

lemma accounts_option: "accounts h \<Longrightarrow> (\<And>x. accounts (k x)) \<Longrightarrow> accounts (case z of None \<Rightarrow> h | Some x \<Rightarrow> k x)"
  by (cases z) auto

lemma accounts_option_state:
  "accounts h \<Longrightarrow> (\<And>x. accounts (k x)) \<Longrightarrow> accounts (\<lambda>s. case z of None \<Rightarrow> h s | Some x \<Rightarrow> k x s)"
  by (cases z) auto

lemma accounts_split: "(\<And>a b. accounts (h a b)) \<Longrightarrow> accounts (case z of (a, b) \<Rightarrow> h a b)"
  by (cases z) simp

lemma accounts_split_state: "(\<And>a b. accounts (h a b)) \<Longrightarrow> accounts (\<lambda>s. case z of (a, b) \<Rightarrow> h a b s)"
  by (cases z) simp

lemma db_number [simp]: "fs_db (snd (number path s)) = fs_db s"
  by (simp add: number_def split: prod.split)

lemma accounts_number:
  "(\<And>i s'. r i s' \<noteq> R_error EIO) \<Longrightarrow> accounts (\<lambda>s. case number path s of (ino, s') \<Rightarrow> (r ino s', s'))"
  by (rule accountsI) (auto simp: number_def split: prod.splits)

lemma unvital_of: "secluded m \<Longrightarrow> unvital m"
  by (simp add: secluded_def)

lemmas accounts_intros = accounts_on_db accounts_with_key accounts_with_path accounts_if
  accounts_if_state accounts_option accounts_option_state accounts_split accounts_split_state
  accounts_id accounts_number
  unvital_getattr unvital_list_dir secluded_getattr_primary [THEN unvital_of]
  secluded_list_primary [THEN unvital_of] secluded_read_range [THEN unvital_of]
  secluded_write_range [THEN unvital_of] secluded_truncate [THEN unvital_of]
  secluded_create [THEN unvital_of] secluded_mkdir [THEN unvital_of]
  secluded_unlink [THEN unvital_of] secluded_rmdir [THEN unvital_of]
  secluded_rename [THEN unvital_of]

section \<open>The heartbeat check\<close>

text \<open>What a callback does about the heartbeat and the error counter.\<close>

definition watched :: "handler \<Rightarrow> bool" where
  "watched h \<longleftrightarrow> (\<forall>s r s'. h s = (r, s') \<longrightarrow> idle_counts (st s') = idle_counts (st s) \<and>
     liveness (st s') = liveness (st s) \<and>
     (if stalled s
      then r = R_error EIO \<and> core s' = core s \<and> tabs (fs_db s') = tabs (fs_db s) \<and>
        deadlock_detected (st s') \<and> eio_count (st s') = eio_count (st s)
      else deadlock_detected (st s') = deadlock_detected (st s) \<and>
        eio_count (st s') = (if r = R_error EIO then bump (eio_count (st s)) else eio_count (st s))))"

lemma dump_frame:
  "vitals (fs_db (maybe_dump_state s)) = vitals (fs_db s)"
  "tabs (fs_db (maybe_dump_state s)) = tabs (fs_db s)"
  "replica (fs_db (maybe_dump_state s)) = replica (fs_db s)"
  by (simp_all add: maybe_dump_state_def replica_state_frame)

lemma vitals_iff:
  "vitals d = vitals d' \<longleftrightarrow> mono_now d = mono_now d' \<and>
    idle_counts (stats d) = idle_counts (stats d') \<and> liveness (stats d) = liveness (stats d') \<and>
    last_beat_seen (stats d) = last_beat_seen (stats d') \<and>
    beat_deadline_at (stats d) = beat_deadline_at (stats d') \<and>
    deadlock_detected (stats d) = deadlock_detected (stats d') \<and>
    eio_count (stats d) = eio_count (stats d')"
  by (simp add: vitals_def)

lemma check_liveness_verdict:
  "check_liveness now m = (ok, m') \<Longrightarrow>
    (\<not> ok \<longleftrightarrow> last_beat_seen m \<noteq> U64_MAX \<and> liveness m = last_beat_seen m \<and> beat_deadline_at m \<le> now) \<and>
    (\<not> ok \<longrightarrow> m' = m) \<and> liveness m' = liveness m \<and> deadlock_detected m' = deadlock_detected m \<and>
    eio_count m' = eio_count m"
  by (auto simp: check_liveness_def Let_def split: if_splits)

lemma check_liveness_idle: "check_liveness now m = (ok, m') \<Longrightarrow> idle_counts m' = idle_counts m"
  by (auto simp: check_liveness_def idle_counts_def Let_def split: if_splits)

lemma counted_fields:
  "vitals d' = counted r (vitals d) \<Longrightarrow> idle_counts (stats d') = idle_counts (stats d) \<and>
    liveness (stats d') = liveness (stats d) \<and>
    deadlock_detected (stats d') = deadlock_detected (stats d) \<and>
    eio_count (stats d') = (if r = R_error EIO then bump (eio_count (stats d)) else eio_count (stats d))"
  by (simp add: vitals_def counted_def)

lemma watched_preamble:
  assumes "accounts body"
  shows "watched (callback_preamble body)"
  unfolding watched_def
proof (intro allI impI)
  fix s r s'
  assume run: "callback_preamble body s = (r, s')"
  let ?s = "maybe_dump_state s"
  obtain ok m where c: "check_liveness (mono_now (fs_db ?s)) (st ?s) = (ok, m)"
    by (cases "check_liveness (mono_now (fs_db ?s)) (st ?s)")
  note v = dump_frame(1) [of s, unfolded vitals_iff] and verdict = check_liveness_verdict [OF c] check_liveness_idle [OF c]
  have stalled: "stalled s \<longleftrightarrow> \<not> ok"
    using v verdict by (auto simp: stalled_def)
  show "idle_counts (st s') = idle_counts (st s) \<and> liveness (st s') = liveness (st s) \<and>
     (if stalled s
      then r = R_error EIO \<and> core s' = core s \<and> tabs (fs_db s') = tabs (fs_db s) \<and>
        deadlock_detected (st s') \<and> eio_count (st s') = eio_count (st s)
      else deadlock_detected (st s') = deadlock_detected (st s) \<and>
        eio_count (st s') = (if r = R_error EIO then bump (eio_count (st s)) else eio_count (st s)))"
  proof (cases ok)
    case True
    with run c have "body (set_stats m ?s) = (r, s')" by (simp add: callback_preamble_def)
    from counted_fields [OF accountsD [OF assms this]] verdict v True stalled
    show ?thesis by (simp add: set_stats_def)
  next
    case False
    with run c have "r = R_error EIO" "s' = set_stats (m\<lparr>deadlock_detected := True\<rparr>) ?s"
      by (simp_all add: callback_preamble_def)
    with False stalled verdict v dump_frame(2) [of s] core_simps(4) [of s] show ?thesis
      by (simp add: set_stats_def core_def idle_counts_def)
  qed
qed

lemma record_fuse_latency_frame:
  "idle_counts (st (record_fuse_latency s)) = idle_counts (st s)"
  "liveness (st (record_fuse_latency s)) = liveness (st s)"
  "deadlock_detected (st (record_fuse_latency s)) = deadlock_detected (st s)"
  "eio_count (st (record_fuse_latency s)) = eio_count (st s)"
  "tabs (fs_db (record_fuse_latency s)) = tabs (fs_db s)"
  by (simp_all add: record_fuse_latency_def idle_counts_def Let_def)

lemma watched_latency:
  assumes "watched body"
  shows "watched (latency_guard body)"
  unfolding watched_def
proof (intro allI impI)
  fix s r s'
  assume "latency_guard body s = (r, s')"
  then obtain u where u: "body s = (r, u)" "s' = record_fuse_latency u"
    by (auto simp: latency_guard_def split: prod.splits)
  with assms have "idle_counts (st u) = idle_counts (st s) \<and> liveness (st u) = liveness (st s) \<and>
     (if stalled s
      then r = R_error EIO \<and> core u = core s \<and> tabs (fs_db u) = tabs (fs_db s) \<and>
        deadlock_detected (st u) \<and> eio_count (st u) = eio_count (st s)
      else deadlock_detected (st u) = deadlock_detected (st s) \<and>
        eio_count (st u) = (if r = R_error EIO then bump (eio_count (st s)) else eio_count (st s)))"
    unfolding watched_def by blast
  then show "idle_counts (st s') = idle_counts (st s) \<and> liveness (st s') = liveness (st s) \<and>
     (if stalled s
      then r = R_error EIO \<and> core s' = core s \<and> tabs (fs_db s') = tabs (fs_db s) \<and>
        deadlock_detected (st s') \<and> eio_count (st s') = eio_count (st s)
      else deadlock_detected (st s') = deadlock_detected (st s) \<and>
        eio_count (st s') = (if r = R_error EIO then bump (eio_count (st s)) else eio_count (st s)))"
    unfolding u(2) record_fuse_latency_frame core_simps .
qed

text \<open>The operation counters of \<open>callback\<close> are none of the above.\<close>

definition tally :: "(statics \<Rightarrow> statics) \<Rightarrow> bool" where
  "tally count \<longleftrightarrow> (\<forall>d. vitals (d\<lparr>stats := count (stats d)\<rparr>) = vitals d)"

lemma watched_callback:
  assumes "tally count" and "accounts body"
  shows "watched (callback count body)"
proof -
  have "vitals (fs_db (on_stats count s)) = vitals (fs_db s)" for s
    using assms(1) by (simp add: tally_def on_stats_def set_stats_def)
  then have "accounts (\<lambda>s. body (on_stats count s))"
    using accountsD [OF assms(2)] by (intro accountsI) fastforce
  then show ?thesis unfolding callback_def by (intro watched_latency watched_preamble)
qed

section \<open>Every callback is watched\<close>

lemma accounts_flush_at: "flush_at fh s = (r, s') \<Longrightarrow> vitals (fs_db s') = vitals (fs_db s)"
proof -
  assume run: "flush_at fh s = (r, s')"
  show ?thesis
  proof (cases "map_of (open_handles s) fh")
    case None
    with run show ?thesis by (auto simp: flush_at_def flush_handle_def)
  next
    case (Some h)
    obtain x d where w: "write_blocks_batch (hb_parent h) (hb_name h) (dirty_blocks h) (max_size h)
        (fs_db s) = (x, d)" by force
    from pwb.keeps_vitals [OF w] w run Some show ?thesis
      by (cases x) (auto simp: flush_at_def flush_handle_def Let_def split: if_splits)
  qed
qed

lemma accounts_flush_reply: "accounts (flush_reply ino fh)"
proof (rule accountsI)
  fix s r s'
  assume run: "flush_reply ino fh s = (r, s')"
  show "vitals (fs_db s') = counted r (vitals (fs_db s))"
  proof (cases "handle_id ino fh s")
    case None
    with run show ?thesis by (auto simp: flush_reply_def)
  next
    case (Some h)
    obtain x u where f: "flush_at h s = (x, u)" by force
    with run Some accounts_flush_at [OF f] accountsD [OF accounts_log, of _ u r s'] show ?thesis
      by (cases x) (auto simp: flush_reply_def)
  qed
qed

lemma accounts_do_rename: "accounts (do_rename old new)"
  unfolding do_rename_def by (intro accounts_intros accounts_reply) simp_all

lemma accounts_rename_onto: "accounts (rename_onto k old new)"
proof (rule accountsI)
  fix s r s'
  assume run: "rename_onto k old new s = (r, s')"
  obtain x d where g: "getattr_primary (fst new) (snd new) (fs_db s) = (x, d)" by force
  have "accounts (on_db (list_primary (join (fst new) (snd new))) (\<lambda>children.
      if children \<noteq> [] then (\<lambda>s. (R_error ENOTEMPTY, s)) else do_rename old new))"
    by (intro accounts_intros accounts_do_rename) simp_all
  note steps = accountsD [OF this, of "s\<lparr>fs_db := d\<rparr>" r s']
    accountsD [OF accounts_do_rename, of old new "s\<lparr>fs_db := d\<rparr>" r s']
  show "vitals (fs_db s') = counted r (vitals (fs_db s))"
    using run g pga.keeps_vitals [OF g] steps
    by (auto simp: rename_onto_def Let_def split: sum.splits option.splits kind.splits)
qed

lemma accounts_read:
  "accounts (\<lambda>s. with_path ino (\<lambda>path. case split_path path of (parent, name) \<Rightarrow>
      on_db (read_range parent name offset len) (\<lambda>found s.
        case found of None \<Rightarrow> (R_error ENOENT, s) | Some data \<Rightarrow> (R_data data, s)))
    (case handle_id ino fh s of None \<Rightarrow> s | Some h_id \<Rightarrow> snd (flush_at h_id s)))"
proof (rule accountsI)
  let ?k = "with_path ino (\<lambda>path. case split_path path of (parent, name) \<Rightarrow>
      on_db (read_range parent name offset len) (\<lambda>found s.
        case found of None \<Rightarrow> (R_error ENOENT, s) | Some data \<Rightarrow> (R_data data, s)))"
  let ?f = "\<lambda>s. case handle_id ino fh s of None \<Rightarrow> s | Some h_id \<Rightarrow> snd (flush_at h_id s)"
  fix s r s'
  assume run: "?k (?f s) = (r, s')"
  have "accounts ?k" by (intro accounts_intros) simp_all
  from accountsD [OF this run] have "vitals (fs_db s') = counted r (vitals (fs_db (?f s)))" .
  moreover have "vitals (fs_db (snd (flush_at h s))) = vitals (fs_db s)" for h
    using accounts_flush_at [of h s] by (cases "flush_at h s") simp
  ultimately show "vitals (fs_db s') = counted r (vitals (fs_db s))" by (simp split: option.splits)
qed

lemma accounts_write:
  "accounts (\<lambda>s. case handle_id ino fh s of None \<Rightarrow> direct s
      | Some h_id \<Rightarrow> (case map_of (open_handles s) h_id of None \<Rightarrow> direct s
          | Some buf \<Rightarrow> (case handle_write offset data buf of None \<Rightarrow> (R_panic, s)
            | Some buf' \<Rightarrow> (R_written n,
                s\<lparr>open_handles := AList.update h_id buf' (open_handles s)\<rparr>))))"
  if "accounts direct"
  using that by (intro accountsI) (auto split: option.splits dest: accountsD)

lemma accounts_open_handle:
  "accounts (\<lambda>s. case open_handle p n s of (fh, s1) \<Rightarrow> (case number path s1 of (ino, s2) \<Rightarrow>
    (R_created (attr_ttl s2) (file_attr ino 0 (wall_clock s2) (owner s2)) fh, s2)))"
  by (rule accountsI) (auto simp: number_def open_handle_def split: prod.splits)

lemma accounts_lookup:
  "accounts (\<lambda>s. case resolve parent name s of
      Inl e \<Rightarrow> (R_error e, on_stats (\<lambda>m. m\<lparr>enoent_count := bump (enoent_count m)\<rparr>) s)
    | Inr (p, n) \<Rightarrow> k p n s)"
  if "\<And>p n. accounts (k p n)"
proof (rule accountsI)
  fix s r s'
  assume run: "(case resolve parent name s of
      Inl e \<Rightarrow> (R_error e, on_stats (\<lambda>m. m\<lparr>enoent_count := bump (enoent_count m)\<rparr>) s)
    | Inr (p, n) \<Rightarrow> k p n s) = (r, s')"
  show "vitals (fs_db s') = counted r (vitals (fs_db s))"
  proof (cases "resolve parent name s")
    case (Inl e)
    then have "e = ENOENT" by (auto simp: resolve_def split: option.splits)
    with run Inl show ?thesis
      by (auto simp: vitals_def idle_counts_def counted_def on_stats_def set_stats_def)
  next
    case (Inr pn)
    with run accountsD [OF that, of "fst pn" "snd pn" s r s'] show ?thesis
      by (simp add: case_prod_unfold)
  qed
qed

lemma accounts_readdir:
  assumes "\<And>up x. accounts (\<lambda>s. k up x s)"
  shows "accounts (\<lambda>s. case parent_ino path (inos s) of (up, m) \<Rightarrow>
      on_db (list_dir path) (k up) (s\<lparr>inos := m\<rparr>))"
proof (rule accountsI)
  fix s r s'
  assume run: "(case parent_ino path (inos s) of (up, m) \<Rightarrow>
      on_db (list_dir path) (k up) (s\<lparr>inos := m\<rparr>)) = (r, s')"
  obtain up m where u: "parent_ino path (inos s) = (up, m)" by force
  have "accounts (on_db (list_dir path) (k up))"
    using assms by (intro accounts_intros)
  from accountsD [OF this, of "s\<lparr>inos := m\<rparr>" r s'] run u
  show "vitals (fs_db s') = counted r (vitals (fs_db s))" by simp
qed

lemma watched_looks:
  "watched (fuse_lookup parent name)" "watched (fuse_getattr ino)" "watched (fuse_readdir ino offset room)"
proof -
  show "watched (fuse_lookup parent name)"
    unfolding fuse_lookup_def
    by (intro watched_callback accounts_lookup accounts_intros)
      (simp_all add: tally_def vitals_def idle_counts_def)
  show "watched (fuse_getattr ino)"
    unfolding fuse_getattr_def
    by (intro watched_callback accounts_intros) (simp_all add: tally_def vitals_def idle_counts_def)
  show "watched (fuse_readdir ino offset room)"
    unfolding fuse_readdir_def Let_def
    by (intro watched_callback accounts_readdir accounts_intros accountsI)
      (auto simp: tally_def vitals_def idle_counts_def case_prod_unfold)
qed

lemma watched_files:
  "watched (fuse_read ino fh offset len)" "watched (fuse_write ino fh offset data)"
  "watched (fuse_open ino)" "watched (fuse_flush ino fh)" "watched (fuse_fsync ino fh)"
proof -
  show "watched (fuse_read ino fh offset len)"
    unfolding fuse_read_def Let_def
    by (intro watched_callback accounts_read) (simp add: tally_def vitals_def idle_counts_def)
  show "watched (fuse_write ino fh offset data)"
    unfolding fuse_write_def Let_def
    by (intro watched_callback accounts_write accounts_intros) (simp_all add: tally_def vitals_def idle_counts_def)
  have "accounts (\<lambda>s. case split_path path of (parent, name) \<Rightarrow>
      (case open_handle parent name s of (fh, s') \<Rightarrow> (R_opened fh,
         s'\<lparr>open_handles_by_ino := AList.update ino fh (open_handles_by_ino s')\<rparr>)))" for path
    by (rule accountsI) (auto simp: open_handle_def split: prod.splits)
  then show "watched (fuse_open ino)"
    unfolding fuse_open_def
    by (intro watched_callback accounts_with_path) (simp_all add: tally_def vitals_def idle_counts_def)
  show "watched (fuse_flush ino fh)"
    unfolding fuse_flush_def by (intro watched_preamble accounts_flush_reply)
  show "watched (fuse_fsync ino fh)"
    unfolding fuse_fsync_def
    by (intro watched_callback accounts_flush_reply) (simp add: tally_def vitals_def idle_counts_def)
qed

lemma accounts_reply_attr: "accounts (reply_attr ino parent name)"
  unfolding reply_attr_def by (intro accounts_intros) simp_all

lemma watched_changes:
  "watched (fuse_setattr ino new_size)" "watched (fuse_create parent name)"
  "watched (fuse_mkdir parent name)" "watched (fuse_unlink parent name)"
  "watched (fuse_rmdir parent name)"
proof -
  show "watched (fuse_setattr ino new_size)"
    unfolding fuse_setattr_def
    by (intro watched_callback accounts_intros accounts_reply_attr)
      (simp_all add: tally_def vitals_def idle_counts_def)
  show "watched (fuse_create parent name)"
    unfolding fuse_create_def
    by (intro watched_callback accounts_intros accounts_open_handle)
      (simp_all add: tally_def vitals_def idle_counts_def)
  show "watched (fuse_mkdir parent name)"
    unfolding fuse_mkdir_def
    by (intro watched_callback accounts_intros) (simp_all add: tally_def vitals_def idle_counts_def)
  show "watched (fuse_unlink parent name)"
    unfolding fuse_unlink_def
    by (intro watched_callback accounts_intros accounts_reply)
      (simp_all add: tally_def vitals_def idle_counts_def forget_def)
  have "accounts (\<lambda>s. (R_ok, forget path s))" for path
    by (intro accounts_reply) (simp_all add: forget_def)
  then show "watched (fuse_rmdir parent name)"
    unfolding fuse_rmdir_def
    by (intro watched_callback accounts_intros) (simp_all add: tally_def vitals_def idle_counts_def)
qed

lemma watched_rename: "watched (fuse_rename parent name newparent newname flags)"
  unfolding fuse_rename_def Let_def
  by (intro watched_callback accounts_intros accounts_rename_onto)
    (simp_all add: tally_def vitals_def idle_counts_def)

text \<open>\<open>release\<close> has neither the check nor an error.\<close>

fun checked :: "request \<Rightarrow> bool" where
  "checked (Release ino fh) \<longleftrightarrow> False"
| "checked rq \<longleftrightarrow> True"

lemma watched_handle: "checked rq \<Longrightarrow> watched (handle rq)"
  by (cases rq) (simp_all add: watched_looks watched_files watched_changes watched_rename)

end
