(* ===== verification/Fuse_Refusals.thy ===== *)
theory Fuse_Refusals
  imports Fuse_Errors
begin

text \<open>
  A refusal is a reply with an error other than \<open>EIO\<close>. Rules for the building blocks of the
  callbacks by which a request that is refused has changed no table.
\<close>

definition refusal :: "reply \<Rightarrow> bool" where
  "refusal r \<longleftrightarrow> (case r of R_error e \<Rightarrow> e \<noteq> EIO | _ \<Rightarrow> False)"

lemma refusal_simps [simp]:
  "refusal (R_error e) \<longleftrightarrow> e \<noteq> EIO" "\<not> refusal (R_entry t a)" "\<not> refusal (R_attr t a)"
  "\<not> refusal (R_data b)" "\<not> refusal (R_written n)" "\<not> refusal (R_opened n)"
  "\<not> refusal (R_created t a n)" "\<not> refusal R_ok" "\<not> refusal (R_directory es)" "\<not> refusal R_panic"
  by (simp_all add: refusal_def)

definition clean :: "handler \<Rightarrow> bool" where
  "clean h \<longleftrightarrow> (\<forall>s r s'. h s = (r, s') \<longrightarrow> refusal r \<longrightarrow> tabs (fs_db s') = tabs (fs_db s))"

definition decided :: "handler \<Rightarrow> bool" where
  "decided h \<longleftrightarrow> (\<forall>s. \<not> refusal (fst (h s)))"

lemma cleanI: "(\<And>s r s'. h s = (r, s') \<Longrightarrow> refusal r \<Longrightarrow> tabs (fs_db s') = tabs (fs_db s)) \<Longrightarrow> clean h"
  unfolding clean_def by blast

lemma cleanD: "clean h \<Longrightarrow> h s = (r, s') \<Longrightarrow> refusal r \<Longrightarrow> tabs (fs_db s') = tabs (fs_db s)"
  unfolding clean_def by blast

lemma clean_decided: "decided h \<Longrightarrow> clean h"
  unfolding clean_def decided_def by (metis fst_conv)

lemma log_no_refusal: "log_and_reply e s = (r, s') \<Longrightarrow> \<not> refusal r"
  by (auto simp: log_and_reply_def split: if_splits)

lemma clean_on_db:
  assumes "quiet op" and "\<And>x. clean (k x)"
  shows "clean (on_db op k)"
proof (rule cleanI)
  fix s r s'
  assume run: "on_db op k s = (r, s')" and bad: "refusal r"
  obtain x d where op: "op (fs_db s) = (x, d)" by (cases "op (fs_db s)")
  have t: "tabs d = tabs (fs_db s)" using assms(1) op by (metis quiet_def snd_conv)
  show "tabs (fs_db s') = tabs (fs_db s)"
  proof (cases x)
    case (Inl e)
    with run op bad log_no_refusal show ?thesis by (auto simp: on_db_def)
  next
    case (Inr y)
    with run op have "k y (s\<lparr>fs_db := d\<rparr>) = (r, s')" by (simp add: on_db_def)
    from cleanD [OF assms(2) this bad] t show ?thesis by simp
  qed
qed

lemma decided_on_db:
  assumes "\<And>x. decided (k x)"
  shows "decided (on_db op k)"
proof -
  have "\<not> refusal (fst (log_and_reply e s))" for e s
    by (cases "log_and_reply e s") (simp add: log_no_refusal)
  with assms show ?thesis by (simp add: decided_def on_db_def split: prod.split sum.split)
qed

lemma clean_with_key: "(\<And>p n. clean (k p n)) \<Longrightarrow> clean (with_key parent name k)"
  by (rule cleanI) (auto simp: with_key_def split: sum.splits dest: cleanD)

lemma clean_with_path: "(\<And>p. clean (k p)) \<Longrightarrow> clean (with_path ino k)"
  by (rule cleanI) (auto simp: with_path_def split: option.splits dest: cleanD)

lemma clean_if: "(b \<Longrightarrow> clean h) \<Longrightarrow> (\<not> b \<Longrightarrow> clean h') \<Longrightarrow> clean (if b then h else h')"
  by simp

lemma clean_if_state: "(b \<Longrightarrow> clean h) \<Longrightarrow> (\<not> b \<Longrightarrow> clean h') \<Longrightarrow> clean (\<lambda>s. if b then h s else h' s)"
  by (cases b) simp_all

lemma clean_option: "clean h \<Longrightarrow> (\<And>x. clean (k x)) \<Longrightarrow> clean (case z of None \<Rightarrow> h | Some x \<Rightarrow> k x)"
  by (cases z) auto

lemma clean_option_state:
  "clean h \<Longrightarrow> (\<And>x. clean (k x)) \<Longrightarrow> clean (\<lambda>s. case z of None \<Rightarrow> h s | Some x \<Rightarrow> k x s)"
  by (cases z) auto

lemma clean_split: "(\<And>a b. clean (h a b)) \<Longrightarrow> clean (case z of (a, b) \<Rightarrow> h a b)"
  by (cases z) simp

lemma clean_id: "clean (\<lambda>s. (r s, s))"
  by (rule cleanI) auto

lemma clean_number: "clean (\<lambda>s. case number path s of (ino, s') \<Rightarrow> (r ino s', s'))"
  by (rule cleanI) (auto simp: number_def split: prod.splits)

lemma decided_number:
  "(\<And>i s'. \<not> refusal (r i s')) \<Longrightarrow> decided (\<lambda>s. case number path s of (ino, s') \<Rightarrow> (r ino s', s'))"
  by (simp add: decided_def split: prod.split)

lemma decided_reply: "(\<And>s. \<not> refusal (r s)) \<Longrightarrow> decided (\<lambda>s. (r s, f s))"
  by (simp add: decided_def)

lemmas clean_intros = clean_with_key clean_with_path clean_if clean_if_state clean_option
  clean_option_state clean_split clean_id clean_number
lemmas clean_reads = clean_on_db [OF quiet_getattr_primary] clean_on_db [OF quiet_list_primary]
  clean_on_db [OF quiet_getattr] clean_on_db [OF quiet_list_dir]

lemma clean_callback:
  assumes "clean body"
  shows "clean (callback count body)"
proof (rule cleanI)
  fix s r s'
  assume run: "callback count body s = (r, s')" and bad: "refusal r"
  let ?s = "maybe_dump_state s"
  obtain ok m where c: "check_liveness (mono_now (fs_db ?s)) (st ?s) = (ok, m)"
    by (cases "check_liveness (mono_now (fs_db ?s)) (st ?s)")
  obtain u where u: "callback_preamble (\<lambda>s. body (on_stats count s)) s = (r, u)"
    and s': "s' = record_fuse_latency u"
    using run by (auto simp: callback_def latency_guard_def split: prod.splits)
  have ok: ok using u c bad by (cases ok) (auto simp: callback_preamble_def)
  with u c have "body (on_stats count (set_stats m ?s)) = (r, u)"
    by (simp add: callback_preamble_def)
  from cleanD [OF assms this bad] have "tabs (fs_db u) = tabs (fs_db s)"
    using dump_frame(2) [of s] by (simp add: on_stats_def set_stats_def)
  with s' show "tabs (fs_db s') = tabs (fs_db s)" by (simp add: record_fuse_latency_frame)
qed

lemma clean_resolve:
  assumes "\<And>p n. clean (k p n)"
  shows "clean (\<lambda>s. case resolve parent name s of
      Inl e \<Rightarrow> (R_error e, on_stats (\<lambda>m. m\<lparr>enoent_count := bump (enoent_count m)\<rparr>) s)
    | Inr (p, n) \<Rightarrow> k p n s)"
  by (rule cleanI)
    (auto simp: on_stats_def set_stats_def split: sum.splits prod.splits dest: cleanD [OF assms])

lemma clean_lookup: "clean (fuse_lookup parent name)"
  unfolding fuse_lookup_def by (intro clean_callback clean_resolve clean_reads clean_intros)

lemma clean_getattr: "clean (fuse_getattr ino)"
  unfolding fuse_getattr_def by (intro clean_callback clean_intros clean_reads)

lemma clean_readdir: "clean (fuse_readdir ino offset room)"
proof -
  have "clean (\<lambda>s. case parent_ino path (inos s) of (up, m) \<Rightarrow>
      on_db (list_dir path) (k up) (s\<lparr>inos := m\<rparr>))" if "\<And>up x. decided (k up x)" for k path
  proof -
    have "decided (on_db (list_dir path) (k up))" for up using that by (rule decided_on_db)
    then show ?thesis by (intro clean_decided) (simp add: decided_def split: prod.split)
  qed
  then show ?thesis
    unfolding fuse_readdir_def Let_def
    by (intro clean_callback clean_intros) (simp add: decided_def split: prod.split)
qed

lemma clean_open: "clean (fuse_open ino)"
  unfolding fuse_open_def
  by (intro clean_callback clean_with_path clean_decided)
    (simp add: decided_def split: prod.split)

lemma clean_flush_reply: "clean (flush_reply ino fh)"
  by (intro clean_decided)
    (auto simp: decided_def flush_reply_def log_and_reply_def split: option.split prod.split sum.split)

lemma decided_preamble: "decided body \<Longrightarrow> decided (callback_preamble body)"
  by (simp add: decided_def callback_preamble_def Let_def split: prod.split bool.split)

lemma clean_flush: "clean (fuse_flush ino fh)" and clean_fsync: "clean (fuse_fsync ino fh)"
proof -
  have "decided (flush_reply ino fh)"
    by (auto simp: decided_def flush_reply_def log_and_reply_def split: option.split prod.split sum.split)
  then show "clean (fuse_flush ino fh)" unfolding fuse_flush_def by (intro clean_decided decided_preamble)
  show "clean (fuse_fsync ino fh)" unfolding fuse_fsync_def by (intro clean_callback clean_flush_reply)
qed

lemma clean_write: "clean (fuse_write ino fh offset data)"
proof -
  have body: "clean (\<lambda>s. case handle_id ino fh s of None \<Rightarrow> direct s
      | Some h_id \<Rightarrow> (case map_of (open_handles s) h_id of None \<Rightarrow> direct s
          | Some buf \<Rightarrow> (case handle_write (i64_as_u64 offset) data buf of None \<Rightarrow> (R_panic, s)
            | Some buf' \<Rightarrow> (R_written n,
                s\<lparr>open_handles := AList.update h_id buf' (open_handles s)\<rparr>))))"
    if "clean direct" for direct n
    by (rule cleanI) (auto split: option.splits dest: cleanD [OF that])
  show ?thesis
    unfolding fuse_write_def Let_def
    by (intro clean_callback body clean_with_path clean_split clean_decided decided_on_db
        decided_reply) simp
qed

lemma clean_make: "clean (fuse_create parent name)" "clean (fuse_mkdir parent name)"
  "clean (fuse_unlink parent name)"
proof -
  have "decided (\<lambda>s. case open_handle p n s of (fh, s1) \<Rightarrow> (case number path s1 of (ino, s2) \<Rightarrow>
      (R_created (attr_ttl s2) (file_attr ino 0 (wall_clock s2) (owner s2)) fh, s2)))" for p n path
    by (simp add: decided_def split: prod.split)
  then have "clean (\<lambda>s. on_db (create p n) (\<lambda>_ s. case open_handle p n s of (fh, s1) \<Rightarrow>
      (case number path s1 of (ino, s2) \<Rightarrow>
      (R_created (attr_ttl s2) (file_attr ino 0 (wall_clock s2) (owner s2)) fh, s2))) s)" for p n path
    by (intro clean_decided decided_on_db)
  then show "clean (fuse_create parent name)"
    unfolding fuse_create_def by (intro clean_callback clean_reads clean_intros)
  show "clean (fuse_mkdir parent name)"
    unfolding fuse_mkdir_def
    by (intro clean_callback clean_reads clean_intros clean_decided decided_on_db decided_number) simp
  show "clean (fuse_unlink parent name)"
    unfolding fuse_unlink_def
    by (intro clean_callback clean_with_key clean_decided decided_on_db decided_reply) simp
qed

lemma rmdir_False:
  assumes "rmdir p n s = (Inr False, s')"
  shows "tabs s' = tabs s"
proof -
  have "rmdir p n (calm s) = (Inr False, calm s')" using assms by (rule rd.success_is_calm)
  then have "tabs (calm s') = tabs s"
    by (auto simp: rmdir_calm select_entry_def filter_empty_conv split: if_splits
        dest!: arg_cong [where f = tabs])
  then show ?thesis by simp
qed

lemma clean_rmdir: "clean (fuse_rmdir parent name)"
proof -
  have "clean (\<lambda>s. on_db (rmdir p n) (\<lambda>deleted s.
      if deleted then (R_ok, forget (join p n) s) else (R_error ENOTEMPTY, s)) s)" for p n
  proof (rule cleanI)
    fix s r s'
    assume run: "on_db (rmdir p n) (\<lambda>deleted s.
      if deleted then (R_ok, forget (join p n) s) else (R_error ENOTEMPTY, s)) s = (r, s')"
      and bad: "refusal r"
    then obtain d where "rmdir p n (fs_db s) = (Inr False, d)" and "s' = s\<lparr>fs_db := d\<rparr>"
      using log_no_refusal by (auto simp: on_db_def split: prod.splits sum.splits if_splits)
    then show "tabs (fs_db s') = tabs (fs_db s)" by (auto dest: rmdir_False)
  qed
  then show ?thesis
    unfolding fuse_rmdir_def by (intro clean_callback clean_reads clean_intros)
qed

lemma clean_rename: "clean (fuse_rename parent name newparent newname flags)"
proof -
  have move: "clean (do_rename old new)" for old new
    unfolding do_rename_def by (intro clean_decided decided_on_db decided_reply) simp
  have "clean (rename_onto k old new)" for k old new
  proof (rule cleanI)
    fix s r s'
    assume run: "rename_onto k old new s = (r, s')" and bad: "refusal r"
    obtain x d where g: "getattr_primary (fst new) (snd new) (fs_db s) = (x, d)" by force
    then have t: "tabs d = tabs (fs_db s)" using quiet_getattr_primary by (metis quiet_def snd_conv)
    have "clean (on_db (list_primary (join (fst new) (snd new))) (\<lambda>children.
        if children \<noteq> [] then (\<lambda>s. (R_error ENOTEMPTY, s)) else do_rename old new))"
      by (intro clean_reads clean_intros move)
    note steps = cleanD [OF this, of "s\<lparr>fs_db := d\<rparr>" r s'] cleanD [OF move, of old new "s\<lparr>fs_db := d\<rparr>" r s']
    show "tabs (fs_db s') = tabs (fs_db s)"
      using run g t bad steps
      by (auto simp: rename_onto_def Let_def split: sum.splits option.splits kind.splits)
  qed
  then show ?thesis
    unfolding fuse_rename_def Let_def by (intro clean_callback clean_reads clean_intros)
qed

section \<open>A truncation keeps the entries\<close>

text \<open>\<open>setattr\<close> with a size looks the file up again after the truncation. It cannot be refused
  then: no statement of \<open>truncate\<close> adds or removes an entry.\<close>

definition entry_keys :: "tables \<Rightarrow> key list" where
  "entry_keys t = map entry_key (entries t)"

definition keyed :: "'a dbm \<Rightarrow> bool" where
  "keyed m \<longleftrightarrow> (\<forall>s. entry_keys (tabs (snd (m s))) = entry_keys (tabs s))"

lemma keyedI: "(\<And>s. entry_keys (tabs (snd (m s))) = entry_keys (tabs s)) \<Longrightarrow> keyed m"
  by (simp add: keyed_def)

lemma keyedD: "keyed m \<Longrightarrow> m s = (r, s') \<Longrightarrow> entry_keys (tabs s') = entry_keys (tabs s)"
  by (metis keyed_def snd_conv)

lemma keyed_quiet: "quiet m \<Longrightarrow> keyed m"
  by (simp add: keyed_def quiet_def)

lemma keyed_exec:
  assumes "\<And>t r t'. f t = Some (r, t') \<Longrightarrow> entry_keys t' = entry_keys t"
  shows "keyed (pg_exec step f)"
proof (rule keyedI)
  fix s
  have "entry_keys (tabs (snd (run_stmt step f s'))) = entry_keys (tabs s')" for s'
    by (auto simp: run_stmt_def dest: assms split: option.split)
  then show "entry_keys (tabs (snd (pg_exec step f s))) = entry_keys (tabs s)"
    by (cases rule: pg_exec_cases [of s step f]) (auto dest: calm_eq_tabs)
qed

lemma keyed_exec_now:
  assumes "\<And>now t r t'. f now t = Some (r, t') \<Longrightarrow> entry_keys t' = entry_keys t"
  shows "keyed (pg_exec_now step f)"
proof (rule keyedI)
  fix s :: db
  have "keyed (pg_exec step (f (pg_now s)))" by (rule keyed_exec) (rule assms)
  then show "entry_keys (tabs (snd (pg_exec_now step f s))) = entry_keys (tabs s)"
    by (simp add: keyed_def pg_exec_now_def)
qed

lemma keyed_bind:
  assumes "keyed m" and "\<And>x. keyed (f x)"
  shows "keyed (db_bind m f)"
proof (rule keyedI)
  fix s
  obtain x u where m: "m s = (x, u)" by force
  with assms(1) have "entry_keys (tabs u) = entry_keys (tabs s)" by (rule keyedD)
  with m assms(2) show "entry_keys (tabs (snd (db_bind m f s))) = entry_keys (tabs s)"
    by (cases x) (simp_all add: db_bind_def keyed_def)
qed

lemma keyed_transaction:
  assumes "keyed body"
  shows "keyed (pg_transaction body)"
proof (rule keyedI)
  fix s
  obtain x s1 where b: "pg_exec Begin_txn (sql_read (\<lambda>_. ())) s = (x, s1)" by force
  then have "tabs s1 = tabs s" using quiet_read by (metis quiet_def snd_conv)
  moreover obtain y s2 where c: "body s1 = (y, s2)" by force
  with assms have "entry_keys (tabs s2) = entry_keys (tabs s1)" by (auto dest: keyedD)
  ultimately show "entry_keys (tabs (snd (pg_transaction body s))) = entry_keys (tabs s)"
    using b c by (simp add: pg_transaction_def Let_def split: sum.split list.split fate.split)
qed

lemma entry_keys_stmts:
  "update_size k sz now t = Some (r, t') \<Longrightarrow> entry_keys t' = entry_keys t"
  "upsert_block k no data t = Some (r, t') \<Longrightarrow> entry_keys t' = entry_keys t"
  "prune_blocks k keep t = Some (r, t') \<Longrightarrow> entry_keys t' = entry_keys t"
  by (auto simp: update_size_def upsert_block_def prune_blocks_def entry_keys_def entry_key_def)

lemma keyed_truncate: "keyed (db_truncate p n new_size)"
proof -
  have "keyed (truncate_blocks p n m)" for m
    unfolding truncate_blocks_def Let_def
    by (auto intro!: keyed_bind keyed_exec keyed_quiet [OF quiet_read] keyed_quiet [OF quiet_return]
        split: list.split dest: entry_keys_stmts)
  then have "keyed (truncate_txn p n old_size m)" for old_size m
    unfolding truncate_txn_def
    by (auto intro!: keyed_bind keyed_exec_now keyed_quiet [OF quiet_return] dest: entry_keys_stmts)
  then show ?thesis
    unfolding db_truncate_def Let_def
    by (auto intro!: keyed_bind keyed_transaction keyed_quiet [OF quiet_getattr_primary]
        keyed_quiet [OF quiet_fail] keyed_quiet [OF quiet_timed] split: option.split)
qed

lemma getattr_primary_key:
  assumes "getattr_primary p n s = (Inr found, s')"
  shows "found = None \<longleftrightarrow> (p, n) \<notin> set (entry_keys (tabs s))"
proof -
  have keys: "(p, n) \<in> set (entry_keys t) \<longleftrightarrow> select_entry (p, n) t \<noteq> []" for t
    by (force simp: select_entry_def entry_keys_def filter_empty_conv)
  obtain row u where row: "pg_exec Get_attributes (sql_opt (select_entry (p, n))) s = (Inr row, u)"
    and m: "meta_opt row = Inr found"
    using assms by (auto simp: getattr_primary_def db_bind_def split: prod.splits sum.splits)
  have "row = None \<longleftrightarrow> select_entry (p, n) (tabs s) = []"
    using row by (cases rule: pg_exec_cases [of s Get_attributes "sql_opt (select_entry (p, n))"])
      (auto simp: run_stmt_def sql_opt_def dest: calm_eq_tabs split: list.splits option.splits)
  with m keys show ?thesis by (auto simp: meta_opt_def split: option.splits sum.splits)
qed

text \<open>After a lookup that found the file, neither the truncation nor the second lookup refuses.\<close>

lemma no_refusal_on_db:
  assumes "on_db op k s = (r, s')" and "refusal r"
  obtains x d where "op (fs_db s) = (Inr x, d)" and "k x (s\<lparr>fs_db := d\<rparr>) = (r, s')"
  using assms log_no_refusal by (auto simp: on_db_def split: prod.splits sum.splits)

lemma reply_attr_there:
  assumes "(p, n) \<in> set (entry_keys (tabs (fs_db s)))"
  shows "\<not> refusal (fst (reply_attr ino p n s))"
proof
  assume bad: "refusal (fst (reply_attr ino p n s))"
  obtain r s' where run: "reply_attr ino p n s = (r, s')" by force
  with bad obtain found d where "getattr_primary p n (fs_db s) = (Inr found, d)"
    and "(case found of None \<Rightarrow> (R_error ENOENT, s\<lparr>fs_db := d\<rparr>)
      | Some m \<Rightarrow> (R_attr (attr_ttl (s\<lparr>fs_db := d\<rparr>)) (attr ino m (owner (s\<lparr>fs_db := d\<rparr>))), s\<lparr>fs_db := d\<rparr>))
      = (r, s')"
    unfolding reply_attr_def by (auto elim: no_refusal_on_db)
  with run bad assms getattr_primary_key [of p n "fs_db s" found d] show False by (auto split: option.splits)
qed

lemma clean_setattr: "clean (fuse_setattr ino new_size)"
proof -
  have look: "clean (reply_attr ino p n)" for p n
    unfolding reply_attr_def by (intro clean_reads clean_intros)
  have "clean (on_db (getattr_primary p n) (\<lambda>found s. case found of None \<Rightarrow> (R_error ENOENT, s)
      | Some meta \<Rightarrow> (case new_size of None \<Rightarrow> reply_attr ino p n s
          | Some m \<Rightarrow> if m_kind meta = Dir then (R_error EISDIR, s)
              else on_db (db_truncate p n m) (\<lambda>_. reply_attr ino p n) s)))" for p n
  proof (rule cleanI)
    fix s r s'
    assume run: "on_db (getattr_primary p n) (\<lambda>found s. case found of None \<Rightarrow> (R_error ENOENT, s)
      | Some meta \<Rightarrow> (case new_size of None \<Rightarrow> reply_attr ino p n s
          | Some m \<Rightarrow> if m_kind meta = Dir then (R_error EISDIR, s)
              else on_db (db_truncate p n m) (\<lambda>_. reply_attr ino p n) s)) s = (r, s')"
      and bad: "refusal r"
    then obtain found d where g: "getattr_primary p n (fs_db s) = (Inr found, d)"
      and k: "(case found of None \<Rightarrow> (R_error ENOENT, s\<lparr>fs_db := d\<rparr>)
        | Some meta \<Rightarrow> (case new_size of None \<Rightarrow> reply_attr ino p n (s\<lparr>fs_db := d\<rparr>)
            | Some m \<Rightarrow> if m_kind meta = Dir then (R_error EISDIR, s\<lparr>fs_db := d\<rparr>)
                else on_db (db_truncate p n m) (\<lambda>_. reply_attr ino p n) (s\<lparr>fs_db := d\<rparr>))) = (r, s')"
      by (rule no_refusal_on_db)
    have t: "tabs d = tabs (fs_db s)" using quiet_getattr_primary g by (metis quiet_def snd_conv)
    have "\<not> refusal r" if "found = Some meta" "on_db (db_truncate p n m) (\<lambda>_. reply_attr ino p n) (s\<lparr>fs_db := d\<rparr>) = (r, s')"
      for meta m
    proof
      assume "refusal r"
      with that(2) obtain x d' where "db_truncate p n m d = (Inr x, d')"
        and again: "reply_attr ino p n (s\<lparr>fs_db := d'\<rparr>) = (r, s')"
        by (auto elim: no_refusal_on_db)
      then have "entry_keys (tabs d') = entry_keys (tabs (fs_db s))"
        using keyedD [OF keyed_truncate] t by metis
      with that(1) getattr_primary_key [OF g] have "(p, n) \<in> set (entry_keys (tabs (fs_db (s\<lparr>fs_db := d'\<rparr>))))"
        by simp
      from reply_attr_there [OF this, of ino] again \<open>refusal r\<close> show False by simp
    qed
    moreover have "tabs (fs_db s') = tabs d" if "reply_attr ino p n (s\<lparr>fs_db := d\<rparr>) = (r, s')"
      using cleanD [OF look that bad] by simp
    ultimately show "tabs (fs_db s') = tabs (fs_db s)"
      using k bad t by (auto split: option.splits if_splits)
  qed
  then show ?thesis
    unfolding fuse_setattr_def by (intro clean_callback clean_intros)
qed

text \<open>\<open>read\<close> flushes its handle before it looks for the file: what it then does changes no table.\<close>

lemma quiet_with_path_read:
  "with_path ino (\<lambda>path. case split_path path of (parent, name) \<Rightarrow>
     on_db (read_range parent name offset len) (\<lambda>found s.
       case found of None \<Rightarrow> (R_error ENOENT, s) | Some data \<Rightarrow> (R_data data, s))) s = (r, s') \<Longrightarrow>
   refusal r \<Longrightarrow> tabs (fs_db s') = tabs (fs_db s)"
  by (rule cleanD [OF clean_with_path])
    (auto intro!: clean_split clean_on_db [OF quiet_read_range] clean_option_state clean_id)

lemma clean_handle: "\<forall>ino fh offset len. rq \<noteq> Read ino fh offset len \<Longrightarrow> clean (handle rq)"
proof (cases rq)
  case (Release ino fh)
  then show ?thesis by (auto intro: cleanI simp: fuse_release_def Let_def)
qed (simp_all add: clean_lookup clean_getattr clean_readdir clean_open clean_flush clean_fsync
    clean_write clean_make clean_rmdir clean_rename clean_setattr)

end
