(* ===== verification/Fuse_Steps.thy ===== *)
theory Fuse_Steps
  imports Fuse_Rules
begin

text \<open>
  Every callback keeps the invariant of the inode cache and the open handles; the mounted
  file system as a step relation, whose reachable states all satisfy it.
\<close>

section \<open>Every callback keeps the invariant\<close>

abbreviation keeps :: "handler \<Rightarrow> bool" where
  "keeps h \<equiv> hoare fs_inv h (\<lambda>_. fs_inv)"

lemma keeps_callback: "keeps body \<Longrightarrow> keeps (callback count body)"
  by (rule hoare_callback) (simp_all add: stable_inv)

lemma keeps_preamble: "keeps body \<Longrightarrow> keeps (callback_preamble body)"
  by (rule hoare_preamble) (simp_all add: stable_inv)

lemma keeps_on_db: "(\<And>x. keeps (k x)) \<Longrightarrow> keeps (on_db op k)"
  by (rule hoare_on_db) (simp_all add: stable_inv)

lemma keeps_with_key: "(\<And>p. keeps (k p name)) \<Longrightarrow> keeps (with_key parent name k)"
  by (rule hoare_with_key) (auto intro: hoare_pre)

lemma keeps_with_path: "(\<And>p. keeps (k p)) \<Longrightarrow> keeps (with_path ino k)"
  by (rule hoare_with_path) (auto intro: hoare_pre)

lemma keeps_reply: "(\<And>s. fs_inv s \<Longrightarrow> fs_inv (f s)) \<Longrightarrow> keeps (\<lambda>s. (r s, f s))"
  by (rule hoare_reply)

lemma keeps_id: "keeps (\<lambda>s. (r s, s))"
  by (rule keeps_reply)

lemma keeps_option: "keeps h \<Longrightarrow> (\<And>x. keeps (k x)) \<Longrightarrow> keeps (case z of None \<Rightarrow> h | Some x \<Rightarrow> k x)"
  by (cases z) auto

lemma keeps_option_state:
  "keeps h \<Longrightarrow> (\<And>x. keeps (k x)) \<Longrightarrow> keeps (\<lambda>s. case z of None \<Rightarrow> h s | Some x \<Rightarrow> k x s)"
  by (cases z) auto

lemma inv_cong: "core s = core s' \<Longrightarrow> fs_inv s = fs_inv s'"
  by (rule stableD [OF stable_inv])

lemma keeps_from: "keeps h \<Longrightarrow> fs_inv s \<Longrightarrow> fs_inv (snd (h s))"
  by (cases "h s") (auto dest: hoareD)

lemma keepsI: "(\<And>s. fs_inv s \<Longrightarrow> fs_inv (snd (h s))) \<Longrightarrow> keeps h"
  by (rule hoareI) (metis snd_conv)

lemmas keeps_intros = keeps_callback keeps_preamble keeps_on_db keeps_with_key keeps_with_path
  keeps_id keeps_option keeps_option_state

lemma inv_log_and_reply: "fs_inv s \<Longrightarrow> fs_inv (snd (log_and_reply e s))"
  using inv_cong [of s "snd (log_and_reply e s)"] by (simp add: log_and_reply_def)

text \<open>Numbering a path and replying with its inode.\<close>

lemma keeps_number: "keeps (\<lambda>s. case number path s of (ino, s') \<Rightarrow> (r ino s', s'))"
  by (rule keepsI) (simp add: case_prod_unfold inv_number)

lemma keeps_lookup: "keeps (fuse_lookup parent name)"
  unfolding fuse_lookup_def
proof (intro keeps_callback keepsI)
  fix s
  assume s: "fs_inv s"
  have "keeps (on_db (getattr p n) (\<lambda>found s. case found of None \<Rightarrow> (R_error ENOENT, s)
      | Some meta \<Rightarrow> (case number (join p n) s of
            (ino, s') \<Rightarrow> (R_entry (attr_ttl s') (attr ino meta (owner s')), s'))))" for p n
    by (intro keeps_intros keeps_number)
  from keeps_from [OF this s] show "fs_inv (snd (case resolve parent name s of
      Inl e \<Rightarrow> (R_error e, on_stats (\<lambda>m. m\<lparr>enoent_count := bump (enoent_count m)\<rparr>) s)
    | Inr (p, n) \<Rightarrow> on_db (getattr p n) (\<lambda>found s. case found of None \<Rightarrow> (R_error ENOENT, s)
      | Some meta \<Rightarrow> (case number (join p n) s of
            (ino, s') \<Rightarrow> (R_entry (attr_ttl s') (attr ino meta (owner s')), s'))) s))"
    using s inv_cong [of s "on_stats (\<lambda>m. m\<lparr>enoent_count := bump (enoent_count m)\<rparr>) s"]
    by (simp split: sum.split)
qed

lemma keeps_if_state:
  "keeps h \<Longrightarrow> keeps h' \<Longrightarrow> keeps (\<lambda>s. if b then h s else h' s)"
  by (cases b) auto

lemma keeps_split: "(\<And>a b. keeps (h a b)) \<Longrightarrow> keeps (case z of (a, b) \<Rightarrow> h a b)"
  by (cases z) auto

lemma keeps_split_state: "(\<And>a b. keeps (h a b)) \<Longrightarrow> keeps (\<lambda>s. case z of (a, b) \<Rightarrow> h a b s)"
  by (cases z) auto

lemmas keeps_branches = keeps_if_state keeps_split keeps_split_state hoare_if

lemma keeps_getattr: "keeps (fuse_getattr ino)"
  unfolding fuse_getattr_def by (intro keeps_intros keeps_branches)

lemma keeps_readdir: "keeps (fuse_readdir ino offset room)"
  unfolding fuse_readdir_def
proof (intro keeps_callback keeps_with_path keepsI)
  fix path s
  assume s: "fs_inv s"
  obtain up m where up: "parent_ino path (inos s) = (up, m)" by (cases "parent_ino path (inos s)")
  have "inodes_ok m \<and> root_ok m"
    using s it.alloc_good [of "inos s" "fst (split_path path)"] up
    by (simp add: fs_inv_def parent_ino_def)
  then have s': "fs_inv (s\<lparr>inos := m\<rparr>)" using s by (simp add: inv_inos)
  have "keeps (\<lambda>s. case number_all ino_for ps (inos s) of
      (is, m') \<Rightarrow> (r is s, s\<lparr>inos := m'\<rparr>))" for ps r
    using it.number_all_good
    by (intro keepsI) (simp add: case_prod_unfold inv_inos fs_inv_def handles_ok_def)
  from keeps_from [OF keeps_on_db [OF this] s'] up
  show "fs_inv (snd (case parent_ino path (inos s) of (up, m) \<Rightarrow>
           on_db (list_dir path) (\<lambda>children s.
             case number_all ino_for (map (\<lambda>child. join path (m_name child)) children) (inos s) of
               (child_inos, m') \<Rightarrow>
                 let listed = (ino, Directory, ''.'') # (up, Directory, ''..'') #
                       map (\<lambda>(child, child_ino).
                         (child_ino,
                          case m_kind child of Dir \<Rightarrow> Directory | File \<Rightarrow> RegularFile,
                          m_name child)) (zip children child_inos)
                 in (R_directory (take room (drop (i64_as_u64 offset)
                       (map (\<lambda>(i, e). (case e of (child_ino, k, name) \<Rightarrow> (child_ino, i + 1, k, name)))
                         (enumerate 0 listed)))),
                     s\<lparr>inos := m'\<rparr>))
             (s\<lparr>inos := m\<rparr>)))"
    by (simp add: Let_def)
qed

lemma keeps_reply_attr: "keeps (reply_attr ino parent name)"
  unfolding reply_attr_def by (intro keeps_intros)

lemma keeps_setattr: "keeps (fuse_setattr ino new_size)"
  unfolding fuse_setattr_def by (intro keeps_intros keeps_branches keeps_reply_attr)

section \<open>Open files\<close>

lemma inv_release:
  assumes "fs_inv s"
  shows "fs_inv (s\<lparr>open_handles := AList.delete fh (open_handles s),
    open_handles_by_ino := filter P (open_handles_by_ino s)\<rparr>)"
  using handles_delete [of s fh] assms by (simp add: fs_inv_def) (simp add: handles_ok_def, blast)

lemma keeps_release: "keeps (fuse_release ino fh)"
  by (rule keepsI) (simp add: fuse_release_def Let_def inv_release inv_flush_at)

lemma keeps_flush_reply: "keeps (flush_reply ino fh)"
proof (rule keepsI)
  fix s
  assume s: "fs_inv s"
  show "fs_inv (snd (flush_reply ino fh s))"
  proof (cases "handle_id ino fh s")
    case None
    with s show ?thesis by (simp add: flush_reply_def)
  next
    case (Some h)
    obtain r s' where f: "flush_at h s = (r, s')" by (cases "flush_at h s")
    with inv_flush_at [OF s, of h] have "fs_inv s'" by simp
    with Some f show ?thesis by (cases r) (simp_all add: flush_reply_def inv_log_and_reply)
  qed
qed

lemma keeps_flush: "keeps (fuse_flush ino fh)" and keeps_fsync: "keeps (fuse_fsync ino fh)"
  unfolding fuse_flush_def fuse_fsync_def by (intro keeps_intros keeps_flush_reply)+

lemma keeps_read: "keeps (fuse_read ino fh offset len)"
  unfolding fuse_read_def Let_def
proof (intro keeps_callback keepsI)
  fix s
  assume s: "fs_inv s"
  let ?s = "case handle_id ino fh s of None \<Rightarrow> s | Some h_id \<Rightarrow> snd (flush_at h_id s)"
  have "fs_inv ?s" using s by (simp add: inv_flush_at split: option.split)
  moreover have "keeps (with_path ino (\<lambda>path. case split_path path of (parent, name) \<Rightarrow>
      on_db (read_range parent name (i64_as_u64 offset) len) (\<lambda>found s.
        case found of None \<Rightarrow> (R_error ENOENT, s) | Some data \<Rightarrow> (R_data data, s))))"
    by (intro keeps_intros keeps_branches)
  ultimately show "fs_inv (snd (with_path ino (\<lambda>path. case split_path path of (parent, name) \<Rightarrow>
      on_db (read_range parent name (i64_as_u64 offset) len) (\<lambda>found s.
        case found of None \<Rightarrow> (R_error ENOENT, s) | Some data \<Rightarrow> (R_data data, s))) ?s))"
    by (rule keeps_from [rotated])
qed

lemma keeps_write: "keeps (fuse_write ino fh offset data)"
  unfolding fuse_write_def Let_def
proof (intro keeps_callback keepsI)
  fix s
  assume s: "fs_inv s"
  let ?direct = "with_path ino (\<lambda>path. case split_path path of (parent, name) \<Rightarrow>
      on_db (write_range parent name (i64_as_u64 offset) data)
        (\<lambda>_ s. (R_written (length data mod 2 ^ 32), s)))"
  have "keeps ?direct" by (intro keeps_intros keeps_branches)
  from keeps_from [OF this s] have direct: "fs_inv (snd (?direct s))" .
  have "fs_inv (s\<lparr>open_handles := AList.update h_id buf' (open_handles s)\<rparr>)"
    if "map_of (open_handles s) h_id = Some buf" "handle_write (i64_as_u64 offset) data buf = Some buf'"
    for h_id buf buf'
  proof -
    have h: "0 < h_id" "h_id < next_fh s" "distinct (map fst (dirty_blocks buf))"
      using s that(1) by (auto simp: fs_inv_def handles_ok_def)
    with s handle_write_distinct [OF h(3) that(2)] show ?thesis
      by (simp add: fs_inv_def handles_update)
  qed
  with s direct show "fs_inv (snd (case handle_id ino fh s of
            None \<Rightarrow> ?direct s
          | Some h_id \<Rightarrow>
              (case map_of (open_handles s) h_id of
                 None \<Rightarrow> ?direct s
               | Some buf \<Rightarrow>
                   (case handle_write (i64_as_u64 offset) data buf of
                      None \<Rightarrow> (R_panic, s)
                    | Some buf' \<Rightarrow>
                        (R_written (length data mod 2 ^ 32),
                         s\<lparr>open_handles := AList.update h_id buf' (open_handles s)\<rparr>)))))"
    by (simp split: option.split)
qed

lemma in_update: "(a, b) \<in> set (AList.update k v xs) \<Longrightarrow> a = k \<and> b = v \<or> (a, b) \<in> set xs"
  by (induction xs) (auto split: if_splits)

lemma keeps_open: "keeps (fuse_open ino)"
  unfolding fuse_open_def
proof (intro keeps_callback keeps_with_path keepsI)
  fix path s
  assume s: "fs_inv s"
  obtain parent name where p: "split_path path = (parent, name)" by (cases "split_path path")
  obtain fh s' where o: "open_handle parent name s = (fh, s')" by (cases "open_handle parent name s")
  have s': "fs_inv s'" "0 < fh" "fh < next_fh s'"
    using inv_open_handle [OF s, of parent name] o by simp_all
  have "fs_inv (s'\<lparr>open_handles_by_ino := AList.update ino fh (open_handles_by_ino s')\<rparr>)"
    using s' by (auto simp: fs_inv_def handles_ok_def dest!: in_update)
  with p o show "fs_inv (snd (case split_path path of (parent, name) \<Rightarrow>
      (case open_handle parent name s of (fh, s') \<Rightarrow> (R_opened fh,
         s'\<lparr>open_handles_by_ino := AList.update ino fh (open_handles_by_ino s')\<rparr>))))"
    by simp
qed

section \<open>Changing the tree\<close>

lemma keeps_mkdir: "keeps (fuse_mkdir parent name)"
  unfolding fuse_mkdir_def by (intro keeps_intros keeps_number)

lemma keeps_create: "keeps (fuse_create parent name)"
  unfolding fuse_create_def
proof (intro keeps_intros keepsI)
  fix p s
  assume s: "fs_inv s"
  then have "fs_inv (snd (open_handle p name s))" by (rule inv_open_handle)
  then show "fs_inv (snd (case open_handle p name s of (fh, s1) \<Rightarrow>
      (case number (join p name) s1 of (ino, s2) \<Rightarrow>
         (R_created (attr_ttl s2) (file_attr ino 0 (wall_clock s2) (owner s2)) fh, s2))))"
    by (simp add: case_prod_unfold inv_number)
qed

lemma join_not_root: "name \<noteq> [] \<Longrightarrow> join p name \<noteq> ROOT_PATH"
  by (simp add: ROOT_PATH_def)

lemma inv_forget: "fs_inv s \<Longrightarrow> path \<noteq> ROOT_PATH \<Longrightarrow> fs_inv (forget path s)"
  by (simp add: forget_def inv_inos forget_path_ok forget_path_root fs_inv_def handles_ok_def)

lemma keeps_unlink: "name \<noteq> [] \<Longrightarrow> keeps (fuse_unlink parent name)"
  unfolding fuse_unlink_def by (intro keeps_intros keeps_reply inv_forget join_not_root)

lemma keeps_rmdir:
  assumes "name \<noteq> []"
  shows "keeps (fuse_rmdir parent name)"
  unfolding fuse_rmdir_def
proof (intro keeps_intros)
  fix p and deleted :: bool
  have "keeps (\<lambda>s. (R_ok, forget (join p name) s))"
    using assms by (intro keeps_reply inv_forget join_not_root)
  then show "keeps (\<lambda>s. if deleted then (R_ok, forget (join p name) s) else (R_error ENOTEMPTY, s))"
    by (intro keeps_if_state keeps_id)
qed

lemma rekey_one_root:
  "root_ok m \<Longrightarrow> old_p \<noteq> ROOT_PATH \<Longrightarrow> new_p \<noteq> ROOT_PATH \<Longrightarrow> root_ok (rekey_one old_p new_p m)"
  by (auto simp: root_ok_def rekey_one_lookup split: option.split) (simp_all add: rekey_one_def split: option.split)

lemma fold_rekey_root:
  "root_ok m \<Longrightarrow> \<forall>u \<in> set us. fst u \<noteq> ROOT_PATH \<and> snd u \<noteq> ROOT_PATH \<Longrightarrow>
    root_ok (fold (\<lambda>(old_p, new_p). rekey_one old_p new_p) us m)"
  by (induction us arbitrary: m) (auto simp: rekey_one_root)

lemma rekey_maps_root:
  "root_ok m \<Longrightarrow> old_path \<noteq> ROOT_PATH \<Longrightarrow> new_path \<noteq> ROOT_PATH \<Longrightarrow>
    root_ok (rekey_maps old_path new_path m)"
  unfolding rekey_maps_def Let_def
  by (intro fold_rekey_root rekey_one_root) (auto simp: ROOT_PATH_def)

lemma keeps_do_rename:
  assumes "snd old \<noteq> []" and "snd new \<noteq> []"
  shows "keeps (do_rename old new)"
  unfolding do_rename_def
  using assms
  by (intro keeps_on_db keeps_reply)
    (simp add: inv_inos rekey_maps_ok rekey_maps_root ROOT_PATH_def fs_inv_def handles_ok_def)

lemma keeps_rename_onto:
  assumes "snd old \<noteq> []" and "snd new \<noteq> []"
  shows "keeps (rename_onto k old new)"
proof (rule keepsI)
  fix s
  assume s: "fs_inv s"
  obtain found d where f: "getattr_primary (fst new) (snd new) (fs_db s) = (found, d)"
    by (cases "getattr_primary (fst new) (snd new) (fs_db s)")
  let ?s = "s\<lparr>fs_db := d\<rparr>"
  have s': "fs_inv ?s" using s inv_cong [of s ?s] by simp
  note move = keeps_do_rename [OF assms]
  have "keeps (on_db (list_primary (join (fst new) (snd new))) (\<lambda>children.
      if children \<noteq> [] then (\<lambda>s. (R_error ENOTEMPTY, s)) else do_rename old new))"
    by (intro keeps_on_db hoare_if keeps_id move)
  with s' keeps_from [OF _ s'] move show "fs_inv (snd (rename_onto k old new s))"
    by (simp add: rename_onto_def f Let_def split: sum.split option.split kind.split)
qed

lemma keeps_rename:
  assumes "name \<noteq> []" and "newname \<noteq> []"
  shows "keeps (fuse_rename parent name newparent newname flags)"
  unfolding fuse_rename_def Let_def
  using assms
  by (intro keeps_intros keeps_branches keeps_rename_onto) simp_all

section \<open>The mounted file system\<close>

text \<open>The kernel sends names that are not empty.\<close>

fun request_ok :: "request \<Rightarrow> bool" where
  "request_ok (Rename parent name newparent newname flags) \<longleftrightarrow> name \<noteq> [] \<and> newname \<noteq> []"
| "request_ok (Unlink parent name) \<longleftrightarrow> name \<noteq> []"
| "request_ok (Rmdir parent name) \<longleftrightarrow> name \<noteq> []"
| "request_ok rq \<longleftrightarrow> True"

lemma keeps_handle: "request_ok rq \<Longrightarrow> keeps (handle rq)"
  by (cases rq)
    (simp_all add: keeps_lookup keeps_getattr keeps_setattr keeps_read keeps_write keeps_open
      keeps_flush keeps_fsync keeps_release keeps_rename keeps_create keeps_mkdir keeps_unlink
      keeps_rmdir keeps_readdir)

text \<open>
  Steps: a request is served; the heartbeat thread beats; a signal asks for a dump; the export
  thread re-arms its warning; and the world outside moves on, the network, the clocks and the
  standby in any way, the primary's tables not at all.
\<close>

inductive fs_step :: "pgfs \<Rightarrow> (request \<times> reply) option \<Rightarrow> pgfs \<Rightarrow> bool" where
  serve: "request_ok rq \<Longrightarrow> handle rq s = (r, s') \<Longrightarrow> r \<noteq> R_panic \<Longrightarrow> fs_step s (Some (rq, r)) s'"
| beat: "fs_step s None (on_stats heartbeat s)"
| signal: "fs_step s None (s\<lparr>dump_requested := True\<rparr>)"
| rearm: "fs_step s None (on_stats (\<lambda>m. m\<lparr>replica_fallback_warned := False\<rparr>) s)"
| world: "tabs d = tabs (fs_db s) \<Longrightarrow> stats d = stats (fs_db s) \<Longrightarrow>
    freshness_cached d = freshness_cached (fs_db s) \<Longrightarrow>
    freshness_checked_at d = freshness_checked_at (fs_db s) \<Longrightarrow> mono_now (fs_db s) \<le> mono_now d \<Longrightarrow>
    fs_step s None (s\<lparr>fs_db := d, wall_clock := now\<rparr>)"

inductive reachable :: "pgfs \<Rightarrow> bool" where
  mounted: "reachable (with_attr_ttl d dump ttl ids now)"
| step: "reachable s \<Longrightarrow> fs_step s ev s' \<Longrightarrow> reachable s'"

inductive_cases served: "fs_step s (Some (rq, r)) s'"
inductive_simps served_iff: "fs_step s (Some (rq, r)) s'"

lemma inv_init: "fs_inv (with_attr_ttl d dump ttl ids now)"
  using inodes_ok_init by (simp add: fs_inv_def handles_ok_def with_attr_ttl_def)

lemma inv_step: "fs_step s ev s' \<Longrightarrow> fs_inv s \<Longrightarrow> fs_inv s'"
proof (induction rule: fs_step.induct)
  case (serve rq s r s')
  from hoareD [OF keeps_handle [OF serve(1)] serve(4) serve(2)] show ?case .
next
  case (beat s)
  with inv_cong [of s "on_stats heartbeat s"] show ?case by simp
next
  case (signal s)
  with inv_cong [of s "s\<lparr>dump_requested := True\<rparr>"] show ?case by (simp add: core_def)
next
  case (rearm s)
  with inv_cong [of s "on_stats (\<lambda>m. m\<lparr>replica_fallback_warned := False\<rparr>) s"] show ?case by simp
next
  case (world d s now)
  with inv_cong [of s "s\<lparr>fs_db := d, wall_clock := now\<rparr>"] show ?case by (simp add: core_def)
qed

lemma reachable_inv: "reachable s \<Longrightarrow> fs_inv s"
  by (induction rule: reachable.induct) (auto simp: inv_init inv_step)

end
