(* ===== verification/Service_Correct.thy ===== *)
theory Service_Correct
  imports Fuse_Steps Tree_Correct
begin

text \<open>
  A small mounted file system for the witnesses, and the inode in the reply of \<open>lookup\<close> and
  \<open>mkdir\<close>: it leads to the child's path.
\<close>

section \<open>A small file system\<close>

definition demo_fs :: "fate list \<Rightarrow> pgfs" where
  "demo_fs fs = with_attr_ttl (db_with demo fs) False 1 (0, 0) 0"

lemma demo_fs_simps [simp]:
  "fs_db (demo_fs fs) = db_with demo fs" "inos (demo_fs fs) = inodes_init"
  "dump_requested (demo_fs fs) = False" "open_handles (demo_fs fs) = []"
  by (simp_all add: demo_fs_def with_attr_ttl_def)

lemma demo_fs_inv: "fs_inv (demo_fs fs)" and demo_fs_reachable: "reachable (demo_fs fs)"
  by (simp_all add: demo_fs_def inv_init reachable.mounted)

lemma root_resolves [simp]: "path_of_ino m (Suc 0) = Some ''''"
  by (simp add: path_of_ino_def ROOT_INO_def ROOT_PATH_def)

section \<open>The inode in a reply\<close>

lemma a_ino_attr [simp]: "a_ino (attr ino m ids) = ino" "a_ino (dir_attr ino ids) = ino"
  "a_ino (file_attr ino n t ids) = ino"
  by (simp_all add: attr_def dir_attr_def file_attr_def split: kind.split)

definition resolves_to :: "string \<Rightarrow> reply \<Rightarrow> pgfs \<Rightarrow> bool" where
  "resolves_to path r s \<longleftrightarrow>
     (case r of
        R_entry ttl a \<Rightarrow> path_of_ino (inos s) (a_ino a) = Some path
      | R_created ttl a fh \<Rightarrow> path_of_ino (inos s) (a_ino a) = Some path
      | _ \<Rightarrow> True)"

lemma stable_resolves: "stable (resolves_to path r)"
  by (rule stableI) (simp add: resolves_to_def core_def split: reply.split)

lemma numbered_resolves:
  assumes "fs_inv s" and "number path s = (ino, s')"
  shows "path_of_ino (inos s') ino = Some path"
  using number_resolves [OF assms(1), of path] assms(2) by simp

lemma lookup_resolves:
  "hoare (\<lambda>s. fs_inv s \<and> path_of_ino (inos s) parent = Some d) (fuse_lookup parent name)
     (resolves_to (join d name))"
  unfolding fuse_lookup_def
proof (rule hoare_callback)
  let ?P = "\<lambda>s. fs_inv s \<and> path_of_ino (inos s) parent = Some d"
  show st: "stable ?P" by (intro stable_intros stable_inv)
  show "resolves_to (join d name) (R_error EIO) s" for s by (simp add: resolves_to_def)
  have db: "hoare ?P (on_db (getattr d name) (\<lambda>found s. case found of None \<Rightarrow> (R_error ENOENT, s)
      | Some meta \<Rightarrow> (case number (join d name) s of
          (ino, s') \<Rightarrow> (R_entry (attr_ttl s') (attr ino meta (owner s')), s'))))
      (resolves_to (join d name))"
    by (rule hoare_on_db [OF st])
      (auto simp: resolves_to_def hoare_def split: option.split prod.split dest: numbered_resolves)
  show "hoare ?P (\<lambda>s. case resolve parent name s of
      Inl e \<Rightarrow> (R_error e, on_stats (\<lambda>m. m\<lparr>enoent_count := bump (enoent_count m)\<rparr>) s)
    | Inr (p, n) \<Rightarrow> on_db (getattr p n) (\<lambda>found s. case found of None \<Rightarrow> (R_error ENOENT, s)
      | Some meta \<Rightarrow> (case number (join p n) s of
            (ino, s') \<Rightarrow> (R_entry (attr_ttl s') (attr ino meta (owner s')), s'))) s)
     (resolves_to (join d name))"
  proof (rule hoareI)
    fix s r s'
    assume P: "?P s" and run: "(case resolve parent name s of
      Inl e \<Rightarrow> (R_error e, on_stats (\<lambda>m. m\<lparr>enoent_count := bump (enoent_count m)\<rparr>) s)
    | Inr (p, n) \<Rightarrow> on_db (getattr p n) (\<lambda>found s. case found of None \<Rightarrow> (R_error ENOENT, s)
      | Some meta \<Rightarrow> (case number (join p n) s of
            (ino, s') \<Rightarrow> (R_entry (attr_ttl s') (attr ino meta (owner s')), s'))) s) = (r, s')"
    show "resolves_to (join d name) r s'"
    proof (cases "to_str name")
      case None
      with P run show ?thesis by (auto simp: resolve_def resolves_to_def)
    next
      case (Some n)
      then have "n = name" by (auto simp: to_str_def split: if_splits)
      with Some P run hoareD [OF db P, of r s'] show ?thesis by (simp add: resolve_def)
    qed
  qed
qed (rule stable_resolves)

lemma mkdir_resolves:
  "hoare (\<lambda>s. fs_inv s \<and> path_of_ino (inos s) parent = Some d) (fuse_mkdir parent name)
     (resolves_to (join d name))"
  unfolding fuse_mkdir_def
proof (rule hoare_callback)
  let ?P = "\<lambda>s. fs_inv s \<and> path_of_ino (inos s) parent = Some d"
  let ?Q = "resolves_to (join d name)"
  show "stable ?P" by (intro stable_intros stable_inv)
  show err: "?Q (R_error e) s" for e s by (simp add: resolves_to_def)
  have panic: "?Q R_panic s" for s by (simp add: resolves_to_def)
  show "hoare ?P (with_key parent name (\<lambda>p n. on_db (getattr_primary p n) (\<lambda>found s.
      case found of Some _ \<Rightarrow> (R_error EEXIST, s) | None \<Rightarrow> on_db (mkdir p n) (\<lambda>_ s.
        case number (join p n) s of
          (ino, s1) \<Rightarrow> (R_entry (attr_ttl s1) (dir_attr ino (owner s1)), s1)) s))) ?Q"
  proof (rule hoare_with_key)
    fix p
    let ?P' = "\<lambda>s. ?P s \<and> path_of_ino (inos s) parent = Some p"
    have st: "stable ?P'" by (intro stable_intros stable_inv)
    have "hoare ?P' (on_db (mkdir p name) (\<lambda>_ s. case number (join p name) s of
          (ino, s1) \<Rightarrow> (R_entry (attr_ttl s1) (dir_attr ino (owner s1)), s1))) ?Q"
      by (rule hoare_on_db [OF st])
        (auto simp: err panic hoare_def resolves_to_def split: prod.split dest: numbered_resolves)
    then show "hoare ?P' (on_db (getattr_primary p name) (\<lambda>found s.
      case found of Some _ \<Rightarrow> (R_error EEXIST, s) | None \<Rightarrow> on_db (mkdir p name) (\<lambda>_ s.
        case number (join p name) s of
          (ino, s1) \<Rightarrow> (R_entry (attr_ttl s1) (dir_attr ino (owner s1)), s1)) s)) ?Q"
      by (intro hoare_on_db [OF st]) (auto simp: err panic hoare_def split: option.split)
  qed (rule err)
qed (rule stable_resolves)

end
