(* ===== verification/Errors_Correct.thy ===== *)
theory Errors_Correct
  imports Fuse_Refusals Service_Correct
begin

text \<open>
  What the callbacks reply when something is wrong: a stalled heartbeat, an error of the
  database, a request that must be refused; and that the standby plays no part in any
  request but the three that may read from it.
\<close>

section \<open>The heartbeat\<close>

definition stuck_fs :: pgfs where
  "stuck_fs = set_stats (statics_init\<lparr>last_beat_seen := 0, beat_deadline_at := 0\<rparr>) (demo_fs [])"

text \<open>C22. When the heartbeat has not moved for three periods, every request but \<open>release\<close> is
  refused with \<open>EIO\<close>: the daemon is flagged as deadlocked, and the tables, the inodes and
  the open handles are as they were.\<close>

theorem stalled_requests_refused:
  assumes "stalled s" and "checked rq" and "handle rq s = (r, s')"
  shows "r = R_error EIO \<and> deadlock_detected (stats (fs_db s')) \<and>
    tabs (fs_db s') = tabs (fs_db s) \<and> core s' = core s"
  using watched_handle [OF assms(2)] assms(1,3) by (auto simp: watched_def)

theorem stalled_requests_refused_witness:
  "fst (handle (Mkdir 1 ''tmp'') stuck_fs) = R_error EIO"
proof -
  have "stalled stuck_fs"
    by (simp add: stalled_def stuck_fs_def set_stats_def statics_init_def)
  then show ?thesis
    using stalled_requests_refused [of stuck_fs "Mkdir 1 ''tmp''" "fst (handle (Mkdir 1 ''tmp'') stuck_fs)"
        "snd (handle (Mkdir 1 ''tmp'') stuck_fs)"] by simp
qed

text \<open>While the heartbeat is in time a request raises no deadlock flag, and it adds one to
  the error counter exactly when it replies \<open>EIO\<close>.\<close>

theorem eio_is_counted:
  assumes "\<not> stalled s" and "checked rq" and "handle rq s = (r, s')"
  shows "deadlock_detected (stats (fs_db s')) = deadlock_detected (stats (fs_db s)) \<and>
    eio_count (stats (fs_db s')) =
      (if r = R_error EIO then bump (eio_count (stats (fs_db s))) else eio_count (stats (fs_db s)))"
  using watched_handle [OF assms(2)] assms(1,3) by (auto simp: watched_def)

lemma demo_fs_awake: "\<not> stalled (demo_fs fs)"
  by (simp add: stalled_def statics_init_def)

theorem eio_is_counted_witness:
  "eio_count (stats (fs_db (snd (handle (Unlink 1 ''docs'') (demo_fs [Refused]))))) = 1"
proof -
  have "fst (handle (Unlink 1 ''docs'') (demo_fs [Refused])) = R_error EIO"
    by (simp add: fuse_unlink_def callback_def latency_guard_def callback_preamble_def
        maybe_dump_state_def with_key_def resolve_def to_str_def byte_in_def on_db_def unlink_def
        db_bind_def pg_exec_def log_and_reply_def on_stats_def set_stats_def check_liveness_def
        statics_init_def Let_def db_with_def split: prod.split)
  moreover have "eio_count statics_init = 0" by (simp add: statics_init_def)
  ultimately show ?thesis
    using eio_is_counted [OF demo_fs_awake, of "Unlink 1 ''docs''" "[Refused]" "R_error EIO"
        "snd (handle (Unlink 1 ''docs'') (demo_fs [Refused]))"]
    by (simp add: bump_def prod_eq_iff)
qed

section \<open>Refusals\<close>

lemma served_awake: "checked rq \<Longrightarrow> handle rq s = (r, s') \<Longrightarrow> r \<noteq> R_error EIO \<Longrightarrow> \<not> stalled s"
  by (frule watched_handle) (auto simp: watched_def split: if_splits)

lemma callback_runs:
  assumes "\<not> stalled s" and "callback count body s = (r, s')" and "tally count"
  obtains u v where "body u = (r, v)" and "core u = core s" and "tabs (fs_db u) = tabs (fs_db s)"
    and "fates (fs_db u) = fates (fs_db s)" and "pg_now (fs_db u) = pg_now (fs_db s)"
    and "replica (fs_db u) = replica (fs_db s)" and "s' = record_fuse_latency v"
proof -
  let ?s = "maybe_dump_state s"
  obtain ok m where c: "check_liveness (mono_now (fs_db ?s)) (st ?s) = (ok, m)"
    by (cases "check_liveness (mono_now (fs_db ?s)) (st ?s)")
  have ok using check_liveness_verdict [OF c] dump_frame(1) [of s, unfolded vitals_iff] assms(1)
    by (auto simp: stalled_def)
  obtain v where v: "callback_preamble (\<lambda>s. body (on_stats count s)) s = (r, v)"
    "s' = record_fuse_latency v"
    using assms(2) by (auto simp: callback_def latency_guard_def split: prod.splits)
  let ?u = "on_stats count (set_stats m ?s)"
  have "no_standby (fs_db ?s) = no_standby (fs_db s)"
    by (simp add: maybe_dump_state_def replica_state_frame)
  then have "fates (no_standby (fs_db ?s)) = fates (no_standby (fs_db s))"
    and "pg_now (no_standby (fs_db ?s)) = pg_now (no_standby (fs_db s))" by simp_all
  then have "fates (fs_db ?u) = fates (fs_db s)" "pg_now (fs_db ?u) = pg_now (fs_db s)"
    by (simp_all add: on_stats_def set_stats_def)
  moreover have "tabs (fs_db ?u) = tabs (fs_db s)"
    using dump_frame(2) [of s] by (simp add: on_stats_def set_stats_def)
  moreover have "replica (fs_db ?u) = replica (fs_db s)"
    using dump_frame(3) [of s] by (simp add: on_stats_def set_stats_def)
  moreover have "body ?u = (r, v)" using v(1) c \<open>ok\<close> by (simp add: callback_preamble_def)
  ultimately show ?thesis using that [of ?u v] v(2) by simp
qed

lemma flush_at_tabs:
  assumes "wire (fs_db u) = wire (fs_db s)" and "open_handles u = open_handles s"
  shows "tabs (fs_db (snd (flush_at h u))) = tabs (fs_db (snd (flush_at h s)))"
  using flush_handle_wire [OF assms(1), of h "open_handles s"] assms(2)
  by (simp add: flush_at_def wire_def case_prod_unfold)

text \<open>C11. Whatever the network does, a request that is refused, that is answered with an error
  other than \<open>EIO\<close>, has changed no table. The one exception is \<open>read\<close>, which flushes its handle
  before it looks for the file: a refused \<open>read\<close> without a handle has changed no table, and one
  with a handle has changed them exactly by that flush.\<close>

theorem refused_requests_change_nothing:
  assumes "handle rq s = (R_error e, s')" and "e \<noteq> EIO"
  shows "case rq of
      Read ino fh offset len \<Rightarrow>
        (case handle_id ino fh s of
           None \<Rightarrow> tabs (fs_db s') = tabs (fs_db s)
         | Some h_id \<Rightarrow> tabs (fs_db s') = tabs (fs_db (snd (flush_at h_id s))))
    | _ \<Rightarrow> tabs (fs_db s') = tabs (fs_db s)"
proof (cases "\<exists>ino fh offset len. rq = Read ino fh offset len")
  case False
  then have "tabs (fs_db s') = tabs (fs_db s)"
    using cleanD [OF clean_handle assms(1)] assms(2) by simp
  with False show ?thesis by (simp split: request.split)
next
  case True
  then obtain ino fh offset len where rq: "rq = Read ino fh offset len" by blast
  have awake: "\<not> stalled s" using served_awake [OF _ assms(1)] assms(2) rq by simp
  from assms(1) [unfolded rq handle.simps fuse_read_def] obtain u v
    where body: "(let s1 = (case handle_id ino fh u of None \<Rightarrow> u | Some h_id \<Rightarrow> snd (flush_at h_id u)) in
       with_path ino (\<lambda>path. case split_path path of (parent, name) \<Rightarrow>
         on_db (read_range parent name (i64_as_u64 offset) len) (\<lambda>found s.
           case found of None \<Rightarrow> (R_error ENOENT, s) | Some data \<Rightarrow> (R_data data, s))) s1) = (R_error e, v)"
      and u: "core u = core s" "tabs (fs_db u) = tabs (fs_db s)" "fates (fs_db u) = fates (fs_db s)"
        "pg_now (fs_db u) = pg_now (fs_db s)"
      and s': "s' = record_fuse_latency v"
    by (rule callback_runs [OF awake]) (simp add: tally_def vitals_def idle_counts_def)
  have "handle_id ino fh u = handle_id ino fh s" using u(1) by (simp add: handle_id_def core_def)
  moreover have "tabs (fs_db (snd (flush_at h u))) = tabs (fs_db (snd (flush_at h s)))" for h
    using u by (intro flush_at_tabs) (simp_all add: wire_def core_def)
  ultimately show ?thesis
    using quiet_with_path_read [OF body [unfolded Let_def]] assms(2) s' u(2) rq
    by (auto simp: record_fuse_latency_frame split: option.splits)
qed

text \<open>What the rows of well-formed tables are to the callbacks.\<close>

definition entry_meta :: "entry \<Rightarrow> file_meta" where
  "entry_meta r = \<lparr>m_name = e_name r, m_kind = (if e_kind r = ''file'' then File else Dir),
     m_size = nat (e_size r), m_mtime = e_mtime r\<rparr>"

lemma meta_opt_entry: "rows_ok t \<Longrightarrow> meta_opt (ent t k) = Inr (map_option entry_meta (ent t k))"
  by (cases "ent t k")
    (auto simp: meta_opt_def row_to_meta_ok entry_meta_def rows_ok_def dest: ent_in_set)

lemma meta_all_rows:
  "\<forall>r \<in> set rs. (e_kind r = ''file'' \<or> e_kind r = ''dir'') \<and> 0 \<le> e_size r \<Longrightarrow>
    meta_all rs = Inr (map entry_meta rs)"
  by (induction rs) (auto simp: row_to_meta_ok entry_meta_def)

lemma meta_all_children:
  "rows_ok t \<Longrightarrow> meta_all (select_children p t) = Inr (map entry_meta (select_children p t))"
  by (rule meta_all_rows) (auto simp: rows_ok_def select_children_def)

lemma children_empty: "select_children p t = [] \<longleftrightarrow> childless t p"
proof -
  have "set (select_children p t) = {r \<in> set (entries t). e_parent r = p}"
    by (auto simp: select_children_def)
  then show ?thesis by (auto simp: childless_def simp flip: set_empty)
qed

lemma resolve_utf8:
  "path_of_ino (inos s) parent = Some p \<Longrightarrow> utf8_valid n \<Longrightarrow> resolve parent n s = Inr (p, n)"
  by (simp add: resolve_def to_str_def)

text \<open>The errors of \<open>rename\<close>, in the order the callback checks them.\<close>

definition replace_refusal :: "tables \<Rightarrow> entry \<Rightarrow> key \<Rightarrow> errno option" where
  "replace_refusal t r new =
     (case ent t new of
        None \<Rightarrow> None
      | Some q \<Rightarrow>
          if e_kind q = ''dir'' then
            if e_kind r = ''file'' then Some EISDIR
            else if childless t (join (fst new) (snd new)) then None else Some ENOTEMPTY
          else if e_kind r = ''dir'' then Some ENOTDIR else None)"

definition rename_refusal :: "tables \<Rightarrow> key \<Rightarrow> key \<Rightarrow> nat \<Rightarrow> errno option" where
  "rename_refusal t old new flags =
     (let old_path = join (fst old) (snd old); new_path = join (fst new) (snd new) in
      if flags \<noteq> 0 then Some EINVAL
      else if new_path = old_path then None
      else if prefix (old_path @ [slash]) new_path then Some EINVAL
      else case ent t old of None \<Rightarrow> Some ENOENT | Some r \<Rightarrow> replace_refusal t r new)"

lemma rename_onto_calm:
  assumes "rows_ok (tabs (fs_db s))" and "fates (fs_db s) = []"
    and run: "rename_onto (m_kind (entry_meta r)) old new s = (rp, s')"
    and old: "ent (tabs (fs_db s)) old = Some r"
  shows "case replace_refusal (tabs (fs_db s)) r new of
      Some e \<Rightarrow> rp = R_error e \<and> tabs (fs_db s') = tabs (fs_db s)
    | None \<Rightarrow> \<exists>u. do_rename old new u = (rp, s') \<and> core u = core s \<and> tabs (fs_db u) = tabs (fs_db s) \<and>
        fates (fs_db u) = [] \<and> pg_now (fs_db u) = pg_now (fs_db s)"
proof -
  let ?t = "tabs (fs_db s)"
  let ?u = "s\<lparr>fs_db := record_latency (fs_db s)\<rparr>"
  have keys: "keys_ok ?t" using assms(1) by (simp add: rows_ok_def)
  have get: "getattr_primary (fst new) (snd new) (fs_db s) =
      (Inr (map_option entry_meta (ent ?t new)), record_latency (fs_db s))"
    using getattr_primary_calm [OF assms(2) keys] meta_opt_entry [OF assms(1)] by simp
  have list: "list_primary (join (fst new) (snd new)) (fs_db ?u) =
      (Inr (map entry_meta (select_children (join (fst new) (snd new)) ?t)),
       record_latency (record_latency (fs_db s)))"
    using list_primary_calm [of "record_latency (fs_db s)"] meta_all_children [OF assms(1)] assms(2)
    by simp
  have kinds: "e_kind r = ''file'' \<or> e_kind r = ''dir''"
    "\<And>q. ent ?t new = Some q \<Longrightarrow> e_kind q = ''file'' \<or> e_kind q = ''dir''"
    using assms(1) old by (auto simp: rows_ok_def dest: ent_in_set)
  let ?v = "s\<lparr>fs_db := record_latency (record_latency (fs_db s))\<rparr>"
  let ?moved = "\<exists>u. do_rename old new u = (rp, s') \<and> core u = core s \<and> tabs (fs_db u) = ?t \<and>
      fates (fs_db u) = [] \<and> pg_now (fs_db u) = pg_now (fs_db s)"
  have moved1: "?moved" if "do_rename old new ?u = (rp, s')"
    using assms(2) that by (intro exI [of _ ?u]) simp
  have moved2: "?moved" if "do_rename old new ?v = (rp, s')"
    using assms(2) that by (intro exI [of _ ?v]) simp
  show ?thesis
  proof (cases "ent ?t new")
    case None
    with run get have "do_rename old new ?u = (rp, s')" by (simp add: rename_onto_def)
    with None moved1 show ?thesis by (simp add: replace_refusal_def)
  next
    case (Some q)
    note run' = run [unfolded rename_onto_def get]
    show ?thesis
      using run' Some kinds(1) kinds(2) [OF Some] list moved1 moved2
        children_empty [of "join (fst new) (snd new)" ?t]
      by (auto simp: replace_refusal_def entry_meta_def on_db_def split: if_splits)
  qed
qed

lemma do_rename_calm:
  assumes "fates (fs_db u) = []" and "rename_ready (tabs (fs_db u)) (op, on) (np, nn)"
    and "do_rename (op, on) (np, nn) u = (r, s')"
  shows "r = R_ok \<and> tabs (fs_db s') = renamed (op, on) (np, nn) (pg_now (fs_db u)) (tabs (fs_db u)) \<and>
    inos s' = rekey_maps (join op on) (join np nn) (inos u)"
  using rename_calm [OF assms(1,2)] assms(3) by (auto simp: do_rename_def on_db_def)

lemma stable_record: "tabs (fs_db (record_fuse_latency v)) = tabs (fs_db v)" "inos (record_fuse_latency v) = inos v"
  by (simp_all add: record_fuse_latency_def Let_def)

lemma rename_body_calm:
  assumes rows: "rows_ok (tabs (fs_db u))" and fates: "fates (fs_db u) = []"
    and "path_of_ino (inos u) parent = Some op" and "path_of_ino (inos u) newparent = Some np"
    and "utf8_valid on" and "utf8_valid nn"
    and body: "(if flags \<noteq> 0 then (R_error EINVAL, u)
       else with_key parent on (\<lambda>op on. with_key newparent nn (\<lambda>np nn s.
             if join np nn = join op on then (R_ok, s)
             else if prefix (join op on @ ''/'') (join np nn) then (R_error EINVAL, s)
             else on_db (getattr_primary op on) (\<lambda>found s.
                 case found of None \<Rightarrow> (R_error ENOENT, s)
                 | Some source_meta \<Rightarrow> rename_onto (m_kind source_meta) (op, on) (np, nn) s) s)) u) = (r, v)"
  shows "case rename_refusal (tabs (fs_db u)) (op, on) (np, nn) flags of
      Some e \<Rightarrow> r = R_error e \<and> tabs (fs_db v) = tabs (fs_db u)
    | None \<Rightarrow> (join np nn = join op on \<longrightarrow> r = R_ok \<and> tabs (fs_db v) = tabs (fs_db u)) \<and>
        (join np nn \<noteq> join op on \<longrightarrow> (\<exists>w. do_rename (op, on) (np, nn) w = (r, v) \<and> core w = core u \<and>
           tabs (fs_db w) = tabs (fs_db u) \<and> fates (fs_db w) = [] \<and> pg_now (fs_db w) = pg_now (fs_db u)))"
proof -
  let ?t = "tabs (fs_db u)" and ?u = "u\<lparr>fs_db := record_latency (fs_db u)\<rparr>"
  have keyed: "with_key parent on k u = k op on u" "with_key newparent nn k u = k np nn u" for k
    using assms(3-6) by (simp_all add: with_key_def resolve_utf8)
  have get: "getattr_primary op on (fs_db u) =
      (Inr (map_option entry_meta (ent ?t (op, on))), record_latency (fs_db u))"
    using getattr_primary_calm [OF fates] meta_opt_entry [OF rows] rows by (simp add: rows_ok_def)
  note run = body [unfolded keyed]
  show ?thesis
  proof (cases "flags \<noteq> 0 \<or> join np nn = join op on \<or> prefix (join op on @ ''/'') (join np nn) \<or>
      ent ?t (op, on) = None")
    case True
    with run get show ?thesis by (auto simp: rename_refusal_def on_db_def split: if_splits)
  next
    case False
    then obtain q where q: "ent ?t (op, on) = Some q" by blast
    have "rename_onto (m_kind (entry_meta q)) (op, on) (np, nn) ?u = (r, v)"
      using run False q get by (simp add: on_db_def)
    then have "case replace_refusal ?t q (np, nn) of
        Some e \<Rightarrow> r = R_error e \<and> tabs (fs_db v) = ?t
      | None \<Rightarrow> \<exists>w. do_rename (op, on) (np, nn) w = (r, v) \<and> core w = core u \<and>
          tabs (fs_db w) = ?t \<and> fates (fs_db w) = [] \<and> pg_now (fs_db w) = pg_now (fs_db u)"
      using rename_onto_calm [of ?u q "(op, on)" "(np, nn)" r v] rows fates q by (simp cong: option.case_cong)
    moreover have "rename_refusal ?t (op, on) (np, nn) flags = replace_refusal ?t q (np, nn)"
      using False q by (simp add: rename_refusal_def)
    ultimately show ?thesis using False by (simp split: option.splits)
  qed
qed

text \<open>C19. With no fault, what \<open>rename\<close> replies: every refusal, in the order the callback checks
  them, leaves the tables alone; the same path twice is a success that changes nothing; and a
  rename that nothing refuses happens, in the tables and in the inode cache, where the path of
  a directory that moves has only ASCII and no wildcards (\<open>rename_ready\<close>).\<close>

theorem rename_reply:
  assumes "well_formed (tabs (fs_db s))" and "fates (fs_db s) = []" and "\<not> stalled s"
    and "path_of_ino (inos s) parent = Some op" and "path_of_ino (inos s) newparent = Some np"
    and "utf8_valid on" and "utf8_valid nn"
    and run: "handle (Rename parent on newparent nn flags) s = (r, s')"
  defines "t \<equiv> tabs (fs_db s)"
  shows "case rename_refusal t (op, on) (np, nn) flags of
      Some e \<Rightarrow> r = R_error e \<and> tabs (fs_db s') = t
    | None \<Rightarrow>
        (join np nn = join op on \<longrightarrow> r = R_ok \<and> tabs (fs_db s') = t) \<and>
        (join np nn \<noteq> join op on \<and> rename_ready t (op, on) (np, nn) \<longrightarrow> r = R_ok \<and>
          tabs (fs_db s') = renamed (op, on) (np, nn) (pg_now (fs_db s)) t \<and>
          inos s' = rekey_maps (join op on) (join np nn) (inos s))"
proof (rule callback_runs [OF assms(3) run [unfolded handle.simps fuse_rename_def Let_def]])
  fix u v
  assume body: "(if flags \<noteq> 0 then (R_error EINVAL, u)
       else with_key parent on (\<lambda>op on. with_key newparent nn (\<lambda>np nn s.
             if join np nn = join op on then (R_ok, s)
             else if prefix (join op on @ ''/'') (join np nn) then (R_error EINVAL, s)
             else on_db (getattr_primary op on) (\<lambda>found s.
                 case found of None \<Rightarrow> (R_error ENOENT, s)
                 | Some source_meta \<Rightarrow> rename_onto (m_kind source_meta) (op, on) (np, nn) s) s)) u) = (r, v)"
    and u: "core u = core s" "tabs (fs_db u) = tabs (fs_db s)" "fates (fs_db u) = fates (fs_db s)"
      "pg_now (fs_db u) = pg_now (fs_db s)"
    and s': "s' = record_fuse_latency v"
  have i: "inos w = inos s" if "core w = core u" for w using u(1) that by (simp add: core_def)
  have fates: "fates (fs_db u) = []" using u(3) assms(2) by simp
  have "rows_ok (tabs (fs_db u))" using u(2) assms(1) by (simp add: well_formed_def tree_rows_ok)
  note outcome = rename_body_calm [OF this fates _ _ assms(6,7) body, of op np]
  have move: "r = R_ok \<and> tabs (fs_db v) = renamed (op, on) (np, nn) (pg_now (fs_db s)) t \<and>
      inos v = rekey_maps (join op on) (join np nn) (inos s)"
    if "do_rename (op, on) (np, nn) w = (r, v)" "core w = core u" "tabs (fs_db w) = tabs (fs_db u)"
      "fates (fs_db w) = []" "pg_now (fs_db w) = pg_now (fs_db u)" "rename_ready t (op, on) (np, nn)" for w
    using do_rename_calm [OF that(4) _ that(1)] that(3,5,6) i [OF that(2)] u(2,4) by (simp add: t_def)
  show ?thesis
    using outcome assms(4,5) i [OF refl] u(2) move
    unfolding s' stable_record t_def by (cases "rename_refusal (tabs (fs_db s)) (op, on) (np, nn) flags") force+
qed (simp add: tally_def vitals_def idle_counts_def)

theorem rename_reply_witness:
  "fst (handle (Rename 1 ''docs'' 1 ''x'' 0) (demo_fs [])) = R_ok \<and>
   tabs (fs_db (snd (handle (Rename 1 ''docs'' 1 ''x'' 0) (demo_fs [])))) =
     renamed ('''', ''docs'') ('''', ''x'') 0 demo"
proof -
  have "rename_refusal demo ('''', ''docs'') ('''', ''x'') 0 = None"
    by (simp add: rename_refusal_def replace_refusal_def ent_def demo_defs entry_key_def)
  then show ?thesis
    using rename_reply [of "demo_fs []" 1 "''''" 1 "''''" "''docs''" "''x''" 0
        "fst (handle (Rename 1 ''docs'' 1 ''x'' 0) (demo_fs []))"
        "snd (handle (Rename 1 ''docs'' 1 ''x'' 0) (demo_fs []))"]
      demo_well_formed demo_fs_awake demo_ready by (simp add: byte_in_def)
qed

theorem refused_requests_change_nothing_witness:
  "fst (handle (Rename 1 ''docs'' 1 ''docs/y'' 0) (demo_fs [])) = R_error EINVAL \<and>
   tabs (fs_db (snd (handle (Rename 1 ''docs'' 1 ''docs/y'' 0) (demo_fs [])))) = demo"
proof -
  obtain r s' where run: "handle (Rename 1 ''docs'' 1 ''docs/y'' 0) (demo_fs []) = (r, s')" by force
  then have r: "r = R_error EINVAL"
    by (auto simp: fuse_rename_def callback_def latency_guard_def callback_preamble_def
        maybe_dump_state_def with_key_def resolve_def to_str_def byte_in_def Let_def statics_init_def
        check_liveness_def on_stats_def set_stats_def split: prod.splits)
  show ?thesis
    using refused_requests_change_nothing [OF run [unfolded r]] run r by simp
qed

section \<open>The standby\<close>

fun reads_standby :: "request \<Rightarrow> bool" where
  "reads_standby (Lookup parent name) \<longleftrightarrow> True"
| "reads_standby (Getattr ino) \<longleftrightarrow> True"
| "reads_standby (Readdir ino offset room) \<longleftrightarrow> True"
| "reads_standby rq \<longleftrightarrow> False"

lemma aside_handle: "\<not> reads_standby rq \<Longrightarrow> aside (handle rq)"
  by (cases rq)
    (simp_all add: aside_setattr aside_read aside_write aside_open aside_flush aside_fsync
      aside_release aside_rename aside_create aside_mkdir aside_unlink aside_rmdir)

lemma core_alone [simp]: "core (alone s) = core s"
  by (simp add: core_def)

text \<open>C28. Two states that differ only in the standby, the cache of its freshness and the
  counters of replica reads: any request but \<open>lookup\<close>, \<open>getattr\<close> and \<open>readdir\<close> gets the same
  reply in both, and leads to the same tables, inodes and open handles.\<close>

theorem standby_plays_no_part:
  assumes "\<not> reads_standby rq" and "alone s = alone u"
  shows "fst (handle rq s) = fst (handle rq u) \<and>
    tabs (fs_db (snd (handle rq s))) = tabs (fs_db (snd (handle rq u))) \<and>
    core (snd (handle rq s)) = core (snd (handle rq u))"
proof -
  have run: "handle rq (alone v) = (fst (handle rq v), alone (snd (handle rq v)))" for v
    using aside_handle [OF assms(1)] by (simp add: aside_def)
  from run [of s] run [of u] have r: "fst (handle rq s) = fst (handle rq u)"
    and a: "alone (snd (handle rq s)) = alone (snd (handle rq u))"
    by (simp_all add: assms(2))
  from a have "tabs (fs_db (alone (snd (handle rq s)))) = tabs (fs_db (alone (snd (handle rq u))))"
    and "core (alone (snd (handle rq s))) = core (alone (snd (handle rq u)))"
    by simp_all
  with r show ?thesis by simp
qed

definition stale_standby :: standby where
  "stale_standby = \<lparr>sb_tabs = \<lparr>entries = [], blocks = []\<rparr>, sb_fates = [Refused],
     in_recovery = Some True, primary_lsn = Some 2, replay_lsn = Some (Some 1)\<rparr>"

definition demo_with_standby :: pgfs where
  "demo_with_standby = demo_fs [] \<lparr>fs_db := (db_with demo [])
     \<lparr>replica := Some stale_standby, freshness_cached := True, freshness_checked_at := Some 0\<rparr>\<rparr>"

theorem standby_plays_no_part_witness:
  "fst (handle (Create 1 ''f'') demo_with_standby) = fst (handle (Create 1 ''f'') (demo_fs []))"
proof -
  have "alone demo_with_standby = alone (demo_fs [])"
    by (simp add: alone_def demo_with_standby_def no_standby_def db_with_def demo_fs_def
        with_attr_ttl_def)
  then show ?thesis
    using standby_plays_no_part [of "Create 1 ''f''" demo_with_standby "demo_fs []"] by simp
qed

end
