(* ===== verification/Sessions_Correct.thy ===== *)
theory Sessions_Correct
  imports Errors_Correct
begin

text \<open>
  Whole sessions of the mounted file system: runs of requests and their replies, with the
  heartbeat, signals and the outside world moving in between. What is written through an
  open file and acknowledged by \<open>fsync\<close> is in the tables, and a later read returns it.
\<close>

section \<open>Runs\<close>

text \<open>The events of a run are the requests served, with their replies.\<close>

inductive fs_run :: "pgfs \<Rightarrow> (request \<times> reply) list \<Rightarrow> pgfs \<Rightarrow> bool" where
  over: "fs_run s [] s"
| silent: "fs_step s None u \<Longrightarrow> fs_run u evs s' \<Longrightarrow> fs_run s evs s'"
| answered: "fs_step s (Some ev) u \<Longrightarrow> fs_run u evs s' \<Longrightarrow> fs_run s (ev # evs) s'"

inductive_cases step_silent: "fs_step s None s'"

lemma silent_keeps: "fs_step s None u \<Longrightarrow> core u = core s \<and> tabs (fs_db u) = tabs (fs_db s)"
  by (erule step_silent) (auto simp: core_def on_stats_def set_stats_def)

lemma run_Cons:
  assumes "fs_run s evs' s'" and "evs' = (rq, r) # evs"
  shows "\<exists>u v. core u = core s \<and> tabs (fs_db u) = tabs (fs_db s) \<and> handle rq u = (r, v) \<and>
    fs_run v evs s'"
  using assms
proof (induction rule: fs_run.induct)
  case (silent s u evs' s')
  then show ?case using silent_keeps [OF silent(1)] by auto
next
  case (answered s ev u evs' s')
  then have "fs_step s (Some (rq, r)) u" by simp
  then have "handle rq s = (r, u)" by (auto elim: served)
  with answered show ?case by auto
qed simp

lemma run_Nil: "fs_run s evs s' \<Longrightarrow> evs = [] \<Longrightarrow> core s' = core s \<and> tabs (fs_db s') = tabs (fs_db s)"
  by (induction rule: fs_run.induct) (auto dest: silent_keeps)

lemma run_reachable: "fs_run s evs s' \<Longrightarrow> reachable s \<Longrightarrow> reachable s'"
  by (induction rule: fs_run.induct) (auto intro: reachable.step)

section \<open>One request\<close>

lemma record_fuse_latency_open [simp]:
  "open_handles (record_fuse_latency s) = open_handles s" "next_fh (record_fuse_latency s) = next_fh s"
  by (simp_all add: record_fuse_latency_def Let_def)

lemma log_no_reply: "log_and_reply e s = (r, s') \<Longrightarrow> r = R_panic \<or> r = R_error EIO"
  by (auto simp: log_and_reply_def split: if_splits)

lemma served_open:
  assumes "handle (Open ino) s = (R_opened fh, s')" and "path_of_ino (inos s) ino = Some path"
    and "split_path path = (p, n)"
  shows "fh = next_fh s \<and> map_of (open_handles s') fh = Some (handle_new p n) \<and> inos s' = inos s \<and>
    tabs (fs_db s') = tabs (fs_db s)"
proof -
  have "\<not> stalled s" using served_awake [OF _ assms(1)] by simp
  from assms(1) show ?thesis
    unfolding handle.simps fuse_open_def
    by (rule callback_runs [OF \<open>\<not> stalled s\<close>])
      (use assms(2,3) in \<open>auto simp: tally_def vitals_def idle_counts_def with_path_def open_handle_def core_def
        stable_record update_conv'\<close>)
qed

lemma served_write:
  assumes "handle (Write ino fh offset data) s = (R_written m, s')" and "fh \<noteq> 0"
    and "map_of (open_handles s) fh = Some h"
  shows "\<exists>h'. handle_write (i64_as_u64 offset) data h = Some h' \<and> map_of (open_handles s') fh = Some h' \<and>
    inos s' = inos s \<and> tabs (fs_db s') = tabs (fs_db s)"
proof -
  have "\<not> stalled s" using served_awake [OF _ assms(1)] by simp
  from assms(1) show ?thesis
    unfolding handle.simps fuse_write_def Let_def
    by (rule callback_runs [OF \<open>\<not> stalled s\<close>])
      (use assms(2,3) in \<open>auto simp: tally_def vitals_def idle_counts_def handle_id_def core_def
        stable_record update_conv' split: option.splits\<close>)
qed

lemma served_fsync:
  assumes "handle (Fsync ino fh) s = (R_ok, s')" and "fh \<noteq> 0"
  shows "\<exists>d d'. tabs d = tabs (fs_db s) \<and>
    flush_handle fh (open_handles s) d = (Inr (), open_handles s', d') \<and>
    tabs (fs_db s') = tabs d' \<and> inos s' = inos s"
proof -
  have "\<not> stalled s" using served_awake [OF _ assms(1)] by simp
  from assms(1) show ?thesis
    unfolding handle.simps fuse_fsync_def
  proof (rule callback_runs [OF \<open>\<not> stalled s\<close>])
    fix u v
    assume f: "flush_reply ino fh u = (R_ok, v)" and u: "core u = core s" "tabs (fs_db u) = tabs (fs_db s)"
      and s': "s' = record_fuse_latency v"
    obtain x hs d where fl: "flush_handle fh (open_handles u) (fs_db u) = (x, hs, d)"
      by (cases "flush_handle fh (open_handles u) (fs_db u)") auto
    with f assms(2) have "x = Inr ()" "v = u\<lparr>open_handles := hs, fs_db := d\<rparr>"
      by (auto simp: flush_reply_def handle_id_def flush_at_def split: sum.splits dest: log_no_reply)
    with fl u s' show ?thesis
      by (intro exI [of _ "fs_db u"] exI [of _ d]) (simp add: core_def stable_record)
  qed (simp add: tally_def vitals_def idle_counts_def)
qed

lemma update_same: "map_of xs k = Some v \<Longrightarrow> AList.update k v xs = xs"
  by (induction xs) (auto simp: map_of_Cons_code split: if_splits)

text \<open>A flush that succeeds leaves a handle with nothing to write.\<close>

lemma flush_handle_clean:
  assumes fl: "flush_handle fh hs d = (Inr (), hs', d')" and h: "map_of hs' fh = Some h"
  shows "dirty_blocks h = [] \<and> max_size h = 0"
proof (cases "map_of hs fh")
  case None
  with assms show ?thesis by (simp add: flush_handle_def)
next
  case (Some h0)
  let ?clean = "h0\<lparr>dirty_blocks := [], max_size := 0\<rparr>"
  have "hs' = AList.update fh (if dirty_blocks h0 \<noteq> [] \<or> 0 < max_size h0 then ?clean else h0)
      (AList.delete fh hs)"
    using fl Some by (auto simp: flush_handle_def Let_def split: prod.splits sum.splits if_splits)
  with h show ?thesis by (simp add: update_conv' split: if_splits) auto
qed

lemma served_read:
  assumes "handle (Read ino fh pos len) s = (R_data bs, s')" and "fh \<noteq> 0"
    and "path_of_ino (inos s) ino = Some path" and "split_path path = (p, n)"
    and clean: "\<And>h. map_of (open_handles s) fh = Some h \<Longrightarrow> dirty_blocks h = [] \<and> max_size h = 0"
  shows "\<exists>d d'. tabs d = tabs (fs_db s) \<and> read_range_primary p n (i64_as_u64 pos) len d = (Inr (Some bs), d')"
proof -
  have "\<not> stalled s" using served_awake [OF _ assms(1)] by simp
  from assms(1) show ?thesis
    unfolding handle.simps fuse_read_def Let_def
  proof (rule callback_runs [OF \<open>\<not> stalled s\<close>])
    let ?k = "with_path ino (\<lambda>path. case split_path path of (parent, name) \<Rightarrow>
         on_db (read_range parent name (i64_as_u64 pos) len) (\<lambda>found s.
           case found of None \<Rightarrow> (R_error ENOENT, s) | Some data \<Rightarrow> (R_data data, s)))"
    fix u v
    assume f: "?k (case handle_id ino fh u of None \<Rightarrow> u | Some h_id \<Rightarrow> snd (flush_at h_id u)) = (R_data bs, v)"
      and u: "core u = core s" "tabs (fs_db u) = tabs (fs_db s)"
    let ?w = "snd (flush_at fh u)"
    have oh: "open_handles u = open_handles s" "inos u = inos s" using u(1) by (simp_all add: core_def)
    have w: "tabs (fs_db ?w) = tabs (fs_db s)" "inos ?w = inos s"
      using clean oh u(2)
      by (auto simp: flush_at_def flush_handle_def Let_def split: option.split)
    have "?k ?w = (R_data bs, v)" using f assms(2) by (simp add: handle_id_def)
    then obtain d where "read_range p n (i64_as_u64 pos) len (fs_db ?w) = (Inr (Some bs), d)"
      using w(2) assms(3,4)
      by (auto simp: with_path_def on_db_def split: prod.splits sum.splits option.splits dest: log_no_reply)
    then show ?thesis
      using w(1) by (intro exI [of _ "record_replica_fallback_if_configured (fs_db ?w)"] exI [of _ d])
        (simp add: read_range_def record_replica_fallback_if_configured_def)
  qed (simp add: tally_def vitals_def idle_counts_def)
qed

section \<open>A session of writes\<close>

text \<open>The requests of a list of writes through handle \<open>fh\<close>, all answered with a count.\<close>

definition write_events :: "nat \<Rightarrow> nat \<Rightarrow> (nat \<times> bytes) list \<Rightarrow> (request \<times> reply) list" where
  "write_events ino fh = map (\<lambda>(offset, data).
     (Write ino fh (int offset) data, R_written (length data mod 2 ^ 32)))"

lemma run_writes:
  assumes "fs_run s (write_events ino fh ws @ evs) s'" and "fh \<noteq> 0" and "writes_ok ws"
    and "map_of (open_handles s) fh = Some h"
  shows "\<exists>v h'. handle_writes ws h = Some h' \<and> map_of (open_handles v) fh = Some h' \<and> inos v = inos s \<and>
    tabs (fs_db v) = tabs (fs_db s) \<and> fs_run v evs s'"
  using assms(1,3,4)
proof (induction ws arbitrary: s h)
  case Nil
  then show ?case by (auto simp: write_events_def)
next
  case (Cons w ws)
  obtain offset data where w: "w = (offset, data)" by (cases w)
  have "fs_run s ((Write ino fh (int offset) data, R_written (length data mod 2 ^ 32)) #
      write_events ino fh ws @ evs) s'"
    using Cons.prems(1) by (simp add: write_events_def w)
  from run_Cons [OF this refl] obtain u v where u: "core u = core s" "tabs (fs_db u) = tabs (fs_db s)"
    and run: "handle (Write ino fh (int offset) data) u = (R_written (length data mod 2 ^ 32), v)"
    and rest: "fs_run v (write_events ino fh ws @ evs) s'" by blast
  have oh: "open_handles u = open_handles s" "inos u = inos s" using u(1) by (simp_all add: core_def)
  have "offset < 2 ^ 63" using Cons.prems(2) by (simp add: writes_ok_def w)
  then have o: "i64_as_u64 (int offset) = offset" by (simp add: i64_as_u64_nonneg)
  from served_write [OF run assms(2)] oh Cons.prems(3) o obtain h1 where
    h1: "handle_write offset data h = Some h1" "map_of (open_handles v) fh = Some h1"
    "inos v = inos s" "tabs (fs_db v) = tabs (fs_db s)"
    using u(2) by auto
  have "writes_ok ws" using Cons.prems(2) by (simp add: writes_ok_def)
  from Cons.IH [OF rest this h1(2)] h1 show ?case by (simp add: w)
qed

text \<open>The state after an open, some writes and an \<open>fsync\<close> that all succeeded.\<close>

lemma run_session:
  assumes "fs_inv s" and "keys_ok (tabs (fs_db s))" and "path_of_ino (inos s) ino = Some path"
    and "split_path path = (p, n)" and "is_file (tabs (fs_db s)) (p, n) sz" and "sz \<le> MAX_BYTES"
    and "tail_zero (tabs (fs_db s)) (p, n) sz" and "writes_ok ws" and "ws \<noteq> []"
    and gaps: "\<And>x. int (x div BLOCK_SIZE) \<in> touched ws \<Longrightarrow> \<not> covered ws x \<Longrightarrow>
      byte_at (tabs (fs_db s)) (p, n) x = 0"
    and run: "fs_run s ((Open ino, R_opened fh) # write_events ino fh ws @ (Fsync ino fh, R_ok) # evs) s'"
  obtains y where "stores (tabs (fs_db s)) (p, n)
      (spec_writes ws (file_bytes (tabs (fs_db s)) (p, n) sz)) (tabs (fs_db y))"
    and "inos y = inos s" and "fh \<noteq> 0" and "fs_run y evs s'"
    and "\<And>h. map_of (open_handles y) fh = Some h \<Longrightarrow> dirty_blocks h = [] \<and> max_size h = 0"
proof -
  let ?t = "tabs (fs_db s)"
  obtain u v where u: "core u = core s" "tabs (fs_db u) = ?t" "handle (Open ino) u = (R_opened fh, v)"
    "fs_run v (write_events ino fh ws @ (Fsync ino fh, R_ok) # evs) s'"
    using run_Cons [OF run refl] by blast
  have at_u: "inos u = inos s" "next_fh u = next_fh s" using u(1) by (simp_all add: core_def)
  have "0 < next_fh s" using assms(1) by (simp add: fs_inv_def handles_ok_def)
  with served_open [OF u(3) _ assms(4)] at_u assms(3) u(2) have v: "fh \<noteq> 0"
    "map_of (open_handles v) fh = Some (handle_new p n)" "inos v = inos s" "tabs (fs_db v) = ?t"
    by auto
  obtain w h where w: "handle_writes ws (handle_new p n) = Some h" "map_of (open_handles w) fh = Some h"
    "inos w = inos s" "tabs (fs_db w) = ?t" "fs_run w ((Fsync ino fh, R_ok) # evs) s'"
    using run_writes [OF u(4) v(1) assms(8) v(2)] v(3,4) by auto
  obtain x y where x: "core x = core w" "tabs (fs_db x) = ?t" "handle (Fsync ino fh) x = (R_ok, y)"
    "fs_run y evs s'"
    using run_Cons [OF w(5) refl] w(4) by auto
  have at_x: "open_handles x = open_handles w" "inos x = inos w" using x(1) by (simp_all add: core_def)
  then obtain d d' where d: "tabs d = ?t" "inos y = inos x"
    "flush_handle fh (open_handles w) d = (Inr (), open_handles y, d')" "tabs (fs_db y) = tabs d'"
    using served_fsync [OF x(3) v(1)] x(2) by auto
  have "AList.update fh h (open_handles w) = open_handles w" using w(2) by (rule update_same)
  then have "stores ?t (p, n) (spec_writes ws (file_bytes ?t (p, n) sz)) (tabs d')"
    using handle_flush_stores [of d p n sz ws h fh "open_handles w"] assms(2,5-9) gaps w(1) d(1,3)
    by simp
  moreover have "dirty_blocks h' = [] \<and> max_size h' = 0"
    if "map_of (open_handles y) fh = Some h'" for h'
    using flush_handle_clean [OF d(3) that] .
  ultimately show ?thesis
    using that [of y] d(2,4) at_x(2) w(3) v(1) x(4) by simp
qed

text \<open>C9. A file is opened, written to, and synchronised, each request answered without an
  error, with anything but other requests happening in between and whatever the network does:
  the tables then store what the writes one after the other make of the file, every other
  file as it was. As for \<open>buffered_writes_correct\<close>, the untouched bytes of the touched blocks
  must be zero.\<close>

theorem fsynced_writes_are_stored:
  assumes "fs_inv s" and "keys_ok (tabs (fs_db s))" and "path_of_ino (inos s) ino = Some path"
    and "split_path path = (p, n)" and "is_file (tabs (fs_db s)) (p, n) sz" and "sz \<le> MAX_BYTES"
    and "tail_zero (tabs (fs_db s)) (p, n) sz" and "writes_ok ws" and "ws \<noteq> []"
    and "\<And>x. int (x div BLOCK_SIZE) \<in> touched ws \<Longrightarrow> \<not> covered ws x \<Longrightarrow>
      byte_at (tabs (fs_db s)) (p, n) x = 0"
    and "fs_run s ((Open ino, R_opened fh) # write_events ino fh ws @ [(Fsync ino fh, R_ok)]) s'"
  shows "stores (tabs (fs_db s)) (p, n)
    (spec_writes ws (file_bytes (tabs (fs_db s)) (p, n) sz)) (tabs (fs_db s'))"
  by (rule run_session [OF assms(1-9) _ assms(11)])
    (use assms(10) in blast, auto dest: run_Nil [OF _ refl])

text \<open>C10. In such a session a read that follows and returns data returns the requested part of
  what was written.\<close>

theorem fsynced_writes_are_read:
  assumes "fs_inv s" and "keys_ok (tabs (fs_db s))" and "path_of_ino (inos s) ino = Some path"
    and "split_path path = (p, n)" and "is_file (tabs (fs_db s)) (p, n) sz" and "sz \<le> MAX_BYTES"
    and "tail_zero (tabs (fs_db s)) (p, n) sz" and "writes_ok ws" and "ws \<noteq> []"
    and "\<And>x. int (x div BLOCK_SIZE) \<in> touched ws \<Longrightarrow> \<not> covered ws x \<Longrightarrow>
      byte_at (tabs (fs_db s)) (p, n) x = 0" and "pos < 2 ^ 63"
    and "fs_run s ((Open ino, R_opened fh) # write_events ino fh ws @
      [(Fsync ino fh, R_ok), (Read ino fh (int pos) len, R_data bs)]) s'"
  shows "bs = spec_read pos len (spec_writes ws (file_bytes (tabs (fs_db s)) (p, n) sz))"
proof (rule run_session [OF assms(1-9) _ assms(12)])
  let ?bs = "spec_writes ws (file_bytes (tabs (fs_db s)) (p, n) sz)"
  fix y
  assume st: "stores (tabs (fs_db s)) (p, n) ?bs (tabs (fs_db y))" and "inos y = inos s" and "fh \<noteq> 0"
    and run: "fs_run y [(Read ino fh (int pos) len, R_data bs)] s'"
    and clean: "\<And>h. map_of (open_handles y) fh = Some h \<Longrightarrow> dirty_blocks h = [] \<and> max_size h = 0"
  obtain u v where u: "core u = core y" "tabs (fs_db u) = tabs (fs_db y)"
    "handle (Read ino fh (int pos) len) u = (R_data bs, v)"
    using run_Cons [OF run refl] by blast
  have "open_handles u = open_handles y" "inos u = inos s"
    using u(1) \<open>inos y = inos s\<close> by (simp_all add: core_def)
  with served_read [OF u(3) \<open>fh \<noteq> 0\<close> _ assms(4)] assms(3) clean u(2) obtain d d' where
    d: "tabs d = tabs (fs_db y)" "read_range_primary p n (i64_as_u64 (int pos)) len d = (Inr (Some bs), d')"
    by auto
  have pos: "i64_as_u64 (int pos) = pos" using assms(11) by (simp add: i64_as_u64_nonneg)
  have "length ?bs \<le> MAX_BYTES" using length_spec_writes_le [OF assms(8)] assms(6) by simp
  with read_range_returns [of d p n "length ?bs" pos len "Some bs" d'] st d pos show ?thesis
    by (simp add: stores_def)
qed (use assms(10) in blast)

section \<open>A small session\<close>

definition demo_open :: pgfs where
  "demo_open = snd (number ''docs/new'' (demo_fs []))"

lemma demo_open_simps [simp]:
  "fs_db demo_open = db_with demo []" "open_handles demo_open = []" "dump_requested demo_open = False"
  "open_handles_by_ino demo_open = []" "next_fh demo_open = 1"
  "path_of_ino (inos demo_open) 2 = Some ''docs/new''" "fs_inv demo_open"
  by (simp_all add: demo_open_def inv_number demo_fs_inv)
    (simp_all add: number_def ino_for_def inodes_init_def demo_fs_def with_attr_ttl_def ROOT_PATH_def
      ROOT_INO_def path_of_ino_def)

lemma demo_path [simp]: "split_path ''docs/new'' = (''docs'', ''new'')"
  by (simp add: split_path_def)

text \<open>No fault ahead, the heartbeat in time.\<close>

definition at_rest :: "pgfs \<Rightarrow> bool" where
  "at_rest s \<longleftrightarrow> fates (fs_db s) = [] \<and> \<not> dump_requested s \<and> liveness (st s) = 0 \<and>
     last_beat_seen (st s) = 0 \<and> mono_now (fs_db s) < beat_deadline_at (st s)"

lemma at_rest_callback:
  assumes "at_rest s"
  shows "callback count body s = (case body (on_stats count s) of (r, v) \<Rightarrow> (r, record_fuse_latency v))"
proof -
  have "check_liveness (mono_now (fs_db s)) (st s) = (True, st s)" and "maybe_dump_state s = s"
    using assms by (simp_all add: at_rest_def check_liveness_def maybe_dump_state_def)
  then show ?thesis by (simp add: callback_def latency_guard_def callback_preamble_def set_stats_def)
qed

lemma at_rest_vitals:
  assumes "at_rest s" and "vitals (fs_db u) = vitals (fs_db s)" and "fates (fs_db u) = []"
    and "dump_requested u = dump_requested s"
  shows "at_rest (record_fuse_latency u)"
proof -
  have "mono_now (fs_db (record_fuse_latency u)) = mono_now (fs_db u)"
    "fates (fs_db (record_fuse_latency u)) = fates (fs_db u)"
    "last_beat_seen (st (record_fuse_latency u)) = last_beat_seen (st u)"
    "beat_deadline_at (st (record_fuse_latency u)) = beat_deadline_at (st u)"
    "dump_requested (record_fuse_latency u) = dump_requested u"
    by (simp_all add: record_fuse_latency_def Let_def)
  with assms show ?thesis by (simp add: at_rest_def vitals_def record_fuse_latency_frame)
qed

lemma on_stats_frame:
  "tally f \<Longrightarrow> vitals (fs_db (on_stats f s)) = vitals (fs_db s)"
  "fates (fs_db (on_stats f s)) = fates (fs_db s)" "tabs (fs_db (on_stats f s)) = tabs (fs_db s)"
  "dump_requested (on_stats f s) = dump_requested s" "open_handles (on_stats f s) = open_handles s"
  "inos (on_stats f s) = inos s"
  by (simp_all add: on_stats_def set_stats_def tally_def)

lemma tally_counts:
  "tally (\<lambda>m. m\<lparr>write_count := n m\<rparr>)" "tally (\<lambda>m. m\<lparr>fsync_count := n m\<rparr>)" "tally (\<lambda>m. m\<lparr>read_count := n m\<rparr>)"
  by (simp_all add: tally_def vitals_def idle_counts_def)

lemma demo_opened:
  obtains s1 where "handle (Open 2) demo_open = (R_opened 1, s1)" and "at_rest s1"
    and "open_handles s1 = [(1, handle_new ''docs'' ''new'')]" and "tabs (fs_db s1) = demo"
    and "inos s1 = inos demo_open"
  by (simp add: fuse_open_def open_handle_def callback_def latency_guard_def callback_preamble_def
      maybe_dump_state_def check_liveness_def on_stats_def set_stats_def record_fuse_latency_def
      statics_init_def Let_def db_with_def with_path_def at_rest_def HEARTBEAT_DEADLINE_MS_def
      HEARTBEAT_PERIOD_MS_def)

lemma demo_written:
  assumes "at_rest s" and "map_of (open_handles s) 1 = Some h" and "handle_write 0 data h = Some h'"
  obtains s1 where "handle (Write 2 1 0 data) s = (R_written (length data mod 2 ^ 32), s1)" and "at_rest s1"
    and "open_handles s1 = AList.update 1 h' (open_handles s)" and "tabs (fs_db s1) = tabs (fs_db s)"
    and "inos s1 = inos s"
proof -
  let ?u = "on_stats (\<lambda>m. m\<lparr>write_count := bump (write_count m)\<rparr>) s"
  let ?v = "?u\<lparr>open_handles := AList.update 1 h' (open_handles s)\<rparr>"
  have "handle (Write 2 1 0 data) s = (R_written (length data mod 2 ^ 32), record_fuse_latency ?v)"
    using assms at_rest_callback [OF assms(1)]
    by (simp add: fuse_write_def handle_id_def on_stats_frame i64_as_u64_def)
  moreover have "at_rest (record_fuse_latency ?v)"
    using assms(1) by (rule at_rest_vitals) (use assms(1) in \<open>simp_all add: on_stats_frame tally_counts at_rest_def\<close>)
  ultimately show ?thesis
    by (rule that) (simp_all add: stable_record on_stats_frame)
qed

lemma demo_buffer:
  obtains h where "handle_write 0 [7] (handle_new ''docs'' ''new'') = Some h" and "hb_parent h = ''docs''"
    and "hb_name h = ''new''" and "max_size h = 1" and "distinct (map fst (dirty_blocks h))"
    and "handle_writes [(0, [7])] (handle_new ''docs'' ''new'') = Some h"
  using handle_writes_ok [of "[(0, [7])]" "handle_new ''docs'' ''new''"]
  by (auto simp: writes_ok_def split: option.splits)

lemma demo_synced:
  assumes "at_rest s" and "handle_writes [(0, [7])] (handle_new ''docs'' ''new'') = Some h"
    and "hb_parent h = ''docs''" and "hb_name h = ''new''" and "max_size h = 1"
    and "distinct (map fst (dirty_blocks h))" and oh: "open_handles s = [(1, h)]" and t: "tabs (fs_db s) = demo"
  obtains s1 h' where "handle (Fsync 2 1) s = (R_ok, s1)" and "at_rest s1" and "inos s1 = inos s"
    and "open_handles s1 = [(1, h')]" and "dirty_blocks h' = []" and "max_size h' = 0"
    and "stores demo (''docs'', ''new'') [7] (tabs (fs_db s1))"
proof -
  let ?u = "on_stats (\<lambda>m. m\<lparr>fsync_count := bump (fsync_count m)\<rparr>) s"
  let ?h = "h\<lparr>dirty_blocks := [], max_size := 0\<rparr>"
  have u: "fates (fs_db ?u) = []" "keys_ok (tabs (fs_db ?u))" "tabs (fs_db ?u) = demo"
    "open_handles ?u = [(1, h)]"
    using assms(1) t oh demo_keys by (simp_all add: at_rest_def on_stats_frame)
  obtain d where d: "flush_handle 1 [(1, h)] (fs_db ?u) = (Inr (), [(1, ?h)], d)" "fates d = []"
    using flush_handle_calm [OF u(1,2), of "[(1, h)]" 1 h 0] assms(3-6) demo_new u(3) by auto
  have "stores demo (''docs'', ''new'') (spec_writes [(0, [7])] (file_bytes demo (''docs'', ''new'') 0)) (tabs d)"
    using handle_flush_stores(2) [of "fs_db ?u" "''docs''" "''new''" 0 "[(0, [7])]" h 1 "[]"]
      u(2,3) demo_new assms(2) d(1) demo_new_zero
    by (simp add: writes_ok_def tail_zero_def)
  then have st: "stores demo (''docs'', ''new'') [7] (tabs d)"
    by (simp add: spec_write_def file_bytes_def splice_def resize0_def)
  let ?v = "?u\<lparr>open_handles := [(1, ?h)], fs_db := d\<rparr>"
  have fl: "flush_at 1 ?u = (Inr (), ?v)" using d(1) u(4) by (simp add: flush_at_def)
  have "handle (Fsync 2 1) s = (R_ok, record_fuse_latency ?v)"
    using at_rest_callback [OF assms(1)] fl
    by (simp add: fuse_fsync_def flush_reply_def handle_id_def)
  moreover have "vitals (fs_db ?v) = vitals (fs_db s)"
    using accounts_flush_at [OF fl] by (simp add: on_stats_frame tally_counts)
  then have "at_rest (record_fuse_latency ?v)"
    using d(2) by (intro at_rest_vitals [OF assms(1)]) (simp_all add: on_stats_frame)
  ultimately show ?thesis
    using st by (intro that [of "record_fuse_latency ?v" ?h]) (simp_all add: stable_record on_stats_frame)
qed

lemma demo_read:
  assumes "at_rest s" and "path_of_ino (inos s) 2 = Some ''docs/new''" and "open_handles s = [(1, h)]"
    and "dirty_blocks h = []" and "max_size h = 0" and st: "stores demo (''docs'', ''new'') [7] (tabs (fs_db s))"
  obtains s1 where "handle (Read 2 1 0 4) s = (R_data [7], s1)"
proof -
  let ?u = "on_stats (\<lambda>m. m\<lparr>read_count := bump (read_count m)\<rparr>) s"
  let ?w = "snd (flush_at 1 ?u)"
  have w: "fs_db ?w = fs_db ?u" "inos ?w = inos s"
    using assms(3-5) by (simp_all add: flush_at_def flush_handle_def on_stats_frame)
  let ?d = "record_replica_fallback_if_configured (fs_db ?u)"
  have "fates ?d = []" "tabs ?d = tabs (fs_db s)"
    using assms(1) by (simp_all add: record_replica_fallback_if_configured_def at_rest_def on_stats_frame)
  then have "fst (read_range_primary ''docs'' ''new'' 0 4 ?d) = Inr (Some [7])"
    using read_range_primary_calm [of ?d "''docs''" "''new''" 1 0 4] st by (simp add: stores_def)
  then obtain d where "read_range ''docs'' ''new'' 0 4 (fs_db ?u) = (Inr (Some [7]), d)"
    unfolding read_range_def by (cases "read_range_primary ''docs'' ''new'' 0 4 ?d") auto
  then have "\<exists>s1. handle (Read 2 1 0 4) s = (R_data [7], s1)"
    using at_rest_callback [OF assms(1)] w assms(2)
    by (simp add: fuse_read_def handle_id_def with_path_def on_db_def i64_as_u64_def)
  with that show ?thesis by blast
qed

lemma run_step:
  "handle rq s = (r, u) \<Longrightarrow> request_ok rq \<Longrightarrow> r \<noteq> R_panic \<Longrightarrow> fs_run u evs s' \<Longrightarrow>
    fs_run s ((rq, r) # evs) s'"
  by (intro answered fs_step.serve)

lemma run_prefix:
  "fs_run s evs s' \<Longrightarrow> evs = evs1 @ evs2 \<Longrightarrow> \<exists>u. fs_run s evs1 u"
proof (induction arbitrary: evs1 rule: fs_run.induct)
  case (over s)
  then show ?case by (auto intro: fs_run.over)
next
  case (silent s u evs s')
  then obtain v where "fs_run u evs1 v" by blast
  with silent(1) show ?case by (auto intro: fs_run.silent)
next
  case (answered s ev u evs s')
  then show ?case by (cases evs1) (auto intro: fs_run.over fs_run.answered)
qed

lemma demo_session:
  "\<exists>s'. fs_run demo_open ((Open 2, R_opened 1) # write_events 2 1 [(0, [7])] @
     [(Fsync 2 1, R_ok), (Read 2 1 0 4, R_data [7])]) s'"
proof -
  obtain s1 where s1: "handle (Open 2) demo_open = (R_opened 1, s1)" "at_rest s1"
    "open_handles s1 = [(1, handle_new ''docs'' ''new'')]" "tabs (fs_db s1) = demo" "inos s1 = inos demo_open"
    by (rule demo_opened)
  obtain h where h: "handle_write 0 [7] (handle_new ''docs'' ''new'') = Some h" "hb_parent h = ''docs''"
    "hb_name h = ''new''" "max_size h = 1" "distinct (map fst (dirty_blocks h))"
    "handle_writes [(0, [7])] (handle_new ''docs'' ''new'') = Some h"
    by (rule demo_buffer)
  obtain s2 where s2: "handle (Write 2 1 0 [7]) s1 = (R_written (length [7 :: byte] mod 2 ^ 32), s2)" "at_rest s2"
    "open_handles s2 = [(1, h)]" "tabs (fs_db s2) = demo" "inos s2 = inos demo_open"
    using demo_written [OF s1(2) _ h(1)] s1(3-5) by auto
  obtain s3 h' where s3: "handle (Fsync 2 1) s2 = (R_ok, s3)" "at_rest s3" "inos s3 = inos s2"
    "open_handles s3 = [(1, h')]" "dirty_blocks h' = []" "max_size h' = 0"
    "stores demo (''docs'', ''new'') [7] (tabs (fs_db s3))"
    using demo_synced [OF s2(2) h(6,2-5) s2(3,4)] by blast
  obtain s4 where s4: "handle (Read 2 1 0 4) s3 = (R_data [7], s4)"
    using demo_read [OF s3(2) _ s3(4-7)] s3(3) s2(5) by auto
  have "fs_run s3 [(Read 2 1 0 4, R_data [7])] s4" by (rule run_step [OF s4 _ _ over]) simp_all
  then have "fs_run s2 [(Fsync 2 1, R_ok), (Read 2 1 0 4, R_data [7])] s4"
    by (intro run_step [OF s3(1)]) simp_all
  then have "fs_run s1 ((Write 2 1 0 [7], R_written (length [7 :: byte] mod 2 ^ 32)) #
      [(Fsync 2 1, R_ok), (Read 2 1 0 4, R_data [7])]) s4"
    by (intro run_step [OF s2(1)]) simp_all
  then have "fs_run s1 (write_events 2 1 [(0, [7])] @ [(Fsync 2 1, R_ok), (Read 2 1 0 4, R_data [7])]) s4"
    by (simp add: write_events_def)
  then show ?thesis
    by (intro exI [of _ s4] run_step [OF s1(1)]) simp_all
qed

theorem fsynced_writes_are_read_witness:
  "[7] = spec_read 0 4 (spec_writes [(0, [7])] (file_bytes demo (''docs'', ''new'') 0))"
proof -
  obtain s' where "fs_run demo_open ((Open 2, R_opened 1) # write_events 2 1 [(0, [7])] @
     [(Fsync 2 1, R_ok), (Read 2 1 (int 0) 4, R_data [7])]) s'"
    using demo_session by auto
  from fsynced_writes_are_read [OF _ _ _ _ _ _ _ _ _ _ _ this, of "''docs/new''" "''docs''" "''new''" 0]
  show ?thesis
    using demo_keys demo_new demo_new_zero by (simp add: writes_ok_def tail_zero_def)
qed

theorem fsynced_writes_are_stored_witness:
  "\<exists>s'. fs_run demo_open ((Open 2, R_opened 1) # write_events 2 1 [(0, [7])] @ [(Fsync 2 1, R_ok)]) s' \<and>
     stores demo (''docs'', ''new'') (spec_writes [(0, [7])] (file_bytes demo (''docs'', ''new'') 0))
       (tabs (fs_db s'))"
proof -
  obtain s' where "fs_run demo_open ((Open 2, R_opened 1) # write_events 2 1 [(0, [7])] @
     [(Fsync 2 1, R_ok)]) s'"
    using demo_session run_prefix [of demo_open _ _ "(Open 2, R_opened 1) # write_events 2 1 [(0, [7])] @ [(Fsync 2 1, R_ok)]"] by fastforce
  with fsynced_writes_are_stored [OF _ _ _ _ _ _ _ _ _ _ this, of "''docs/new''" "''docs''" "''new''" 0]
  show ?thesis
    using demo_keys demo_new demo_new_zero by (auto simp: writes_ok_def tail_zero_def)
qed

end
