(* ===== verification/Numbers_Correct.thy ===== *)
theory Numbers_Correct
  imports Sessions_Correct
begin

text \<open>
  The numbers the mounted file system hands out, over whole runs: a file handle's number is
  never handed out twice, and an inode stands for its path until a rename or a removal is
  served. Both rest on one contract, a predicate that the callbacks' common steps keep.
\<close>

section \<open>Predicates that the callbacks keep\<close>

text \<open>The handle numbers a reply gives to the kernel.\<close>

fun handed :: "reply \<Rightarrow> nat list" where
  "handed (R_opened fh) = [fh]"
| "handed (R_created ttl a fh) = [fh]"
| "handed r = []"

definition handed_out :: "(request \<times> reply) list \<Rightarrow> nat list" where
  "handed_out evs = concat (map (handed \<circ> snd) evs)"

lemma handed_out_simps [simp]:
  "handed_out [] = []" "handed_out ((rq, r) # evs) = handed r @ handed_out evs"
  by (simp_all add: handed_out_def)

abbreviation still :: "(pgfs \<Rightarrow> bool) \<Rightarrow> handler \<Rightarrow> bool" where
  "still P h \<equiv> hoare P h (\<lambda>r s. P s \<and> handed r = [])"

text \<open>What a predicate must stand: numbering a path, flushing, buffering a write, closing.\<close>

locale kept =
  fixes P :: "pgfs \<Rightarrow> bool"
  assumes stable_P: "stable P"
    and number_P: "P s \<Longrightarrow> P (s\<lparr>inos := snd (ino_for path (inos s))\<rparr>)"
    and flush_P: "P s \<Longrightarrow> P (snd (flush_at fh s))"
    and buffer_P: "P s \<Longrightarrow> map_of (open_handles s) fh = Some b \<Longrightarrow>
      handle_write pos data b = Some b' \<Longrightarrow> P (s\<lparr>open_handles := AList.update fh b' (open_handles s)\<rparr>)"
    and close_P: "P s \<Longrightarrow> P (s\<lparr>open_handles := AList.delete fh (open_handles s),
      open_handles_by_ino := filter keep (open_handles_by_ino s)\<rparr>)"
begin

lemma stable_still: "stable (\<lambda>s. P s \<and> handed r = [])"
  by (intro stable_conj stable_P stable_const)

lemma still_reply: "handed r = [] \<Longrightarrow> still P (\<lambda>s. (r, s))"
  by (simp add: hoare_def)

lemma still_reply_state: "(\<And>s. handed (r s) = []) \<Longrightarrow> still P (\<lambda>s. (r s, s))"
  by (simp add: hoare_def)

lemma still_callback: "still P body \<Longrightarrow> still P (callback count body)"
  by (rule hoare_callback [OF stable_P stable_still]) simp_all

lemma still_preamble: "still P body \<Longrightarrow> still P (callback_preamble body)"
  by (rule hoare_preamble [OF stable_P]) simp_all

lemma still_on_db: "(\<And>x. still P (k x)) \<Longrightarrow> still P (on_db op k)"
  by (rule hoare_on_db [OF stable_P]) simp_all

lemma still_with_key: "(\<And>p. still P (k p name)) \<Longrightarrow> still P (with_key parent name k)"
  by (rule hoare_with_key) (auto intro: hoare_pre)

lemma still_with_path: "(\<And>p. still P (k p)) \<Longrightarrow> still P (with_path ino k)"
  by (rule hoare_with_path) (auto intro: hoare_pre)

lemma still_option: "still P h \<Longrightarrow> (\<And>x. still P (k x)) \<Longrightarrow> still P (case z of None \<Rightarrow> h | Some x \<Rightarrow> k x)"
  by (cases z) auto

lemma still_option_state:
  "still P h \<Longrightarrow> (\<And>x. still P (k x)) \<Longrightarrow> still P (\<lambda>s. case z of None \<Rightarrow> h s | Some x \<Rightarrow> k x s)"
  by (cases z) auto

lemma still_if_state: "still P h \<Longrightarrow> still P h' \<Longrightarrow> still P (\<lambda>s. if b then h s else h' s)"
  by (cases b) auto

lemma still_split: "(\<And>a b. still P (h a b)) \<Longrightarrow> still P (case z of (a, b) \<Rightarrow> h a b)"
  by (cases z) auto

lemmas still_intros = still_callback still_preamble still_on_db still_with_key still_with_path
  still_option still_option_state still_if_state still_split hoare_if

lemma still_number:
  "(\<And>i s. handed (r i s) = []) \<Longrightarrow> still P (\<lambda>s. case number path s of (i, s') \<Rightarrow> (r i s', s'))"
  by (rule hoareI) (auto simp: number_def case_prod_unfold dest: number_P)

lemma number_all_P: "P s \<Longrightarrow> P (s\<lparr>inos := snd (number_all ino_for ps (inos s))\<rparr>)"
proof (induction ps arbitrary: s)
  case (Cons p ps)
  from Cons.IH [OF number_P [OF Cons.prems, of p]] show ?case by (simp add: Let_def case_prod_unfold)
qed simp

lemma still_log: "P s \<Longrightarrow> log_and_reply e s = (r, s') \<Longrightarrow> P s' \<and> handed r = []"
  using hoareD [OF hoare_log_and_reply [OF stable_P, of "\<lambda>r s. P s \<and> handed r = []" e]] by auto

end

section \<open>The callbacks that hand out no handle and move no path\<close>

context kept
begin

lemma still_getattr: "still P (fuse_getattr ino)"
  unfolding fuse_getattr_def by (intro still_intros still_reply_state still_reply) simp_all

lemma still_setattr: "still P (fuse_setattr ino new_size)"
  unfolding fuse_setattr_def reply_attr_def
  by (intro still_intros still_reply_state still_reply) simp_all

lemma still_mkdir: "still P (fuse_mkdir parent name)"
  unfolding fuse_mkdir_def by (intro still_intros still_number still_reply) simp_all

lemma still_lookup: "still P (fuse_lookup parent name)"
  unfolding fuse_lookup_def
proof (intro still_callback hoareI)
  fix s r s'
  assume P: "P s" and run: "(case resolve parent name s of
      Inl e \<Rightarrow> (R_error e, on_stats (\<lambda>m. m\<lparr>enoent_count := bump (enoent_count m)\<rparr>) s)
    | Inr (p, n) \<Rightarrow> on_db (getattr p n) (\<lambda>found s. case found of None \<Rightarrow> (R_error ENOENT, s)
      | Some meta \<Rightarrow> (case number (join p n) s of
            (ino, s') \<Rightarrow> (R_entry (attr_ttl s') (attr ino meta (owner s')), s'))) s) = (r, s')"
  have "still P (on_db (getattr p n) (\<lambda>found s. case found of None \<Rightarrow> (R_error ENOENT, s)
      | Some meta \<Rightarrow> (case number (join p n) s of
            (ino, s') \<Rightarrow> (R_entry (attr_ttl s') (attr ino meta (owner s')), s'))))" for p n
    by (intro still_intros still_number still_reply) simp_all
  from hoareD [OF this P] run P stableD [OF stable_P, of s s']
  show "P s' \<and> handed r = []" by (auto split: sum.splits)
qed

lemma still_readdir: "still P (fuse_readdir ino offset room)"
  unfolding fuse_readdir_def
proof (intro still_callback still_with_path hoareI)
  fix path s r s'
  assume P: "P s" and run: "(case parent_ino path (inos s) of (up, m) \<Rightarrow>
           on_db (list_dir path) (\<lambda>children s.
             case number_all ino_for (map (\<lambda>child. join path (m_name child)) children) (inos s) of
               (child_inos, m') \<Rightarrow>
                 let listed = (ino, Directory, ''.'') # (up, Directory, ''..'') #
                       map (\<lambda>(child, child_ino).
                         (child_ino,
                          case m_kind child of Dir \<Rightarrow> Directory | File \<Rightarrow> RegularFile,
                          m_name child)) (zip children child_inos)
                 in (R_directory (take room (drop (i64_as_u64 offset)
                       (map (\<lambda>(i, e). (case e of (child_ino, k, name) \<Rightarrow> (child_ino, i + 1, k, name)))
                         (enumerate 0 listed)))),
                     s\<lparr>inos := m'\<rparr>))
             (s\<lparr>inos := m\<rparr>)) = (r, s')"
  obtain up m where up: "parent_ino path (inos s) = (up, m)" by (cases "parent_ino path (inos s)")
  have P': "P (s\<lparr>inos := m\<rparr>)"
    using number_P [OF P, of "fst (split_path path)"] up by (simp add: parent_ino_def)
  have "still P (\<lambda>s. case number_all ino_for ps (inos s) of
      (is, m') \<Rightarrow> (R_directory (f is), s\<lparr>inos := m'\<rparr>))" for ps f
    by (rule hoareI) (auto simp: case_prod_unfold dest: number_all_P)
  from hoareD [OF still_on_db [OF this] P'] run up show "P s' \<and> handed r = []"
    by (simp add: Let_def)
qed

lemma still_release: "still P (fuse_release ino fh)"
  by (rule hoareI) (auto simp: fuse_release_def Let_def flush_P close_P)

lemma still_flush_reply: "still P (flush_reply ino fh)"
proof (rule hoareI)
  fix s r s'
  assume P: "P s" and run: "flush_reply ino fh s = (r, s')"
  show "P s' \<and> handed r = []"
  proof (cases "handle_id ino fh s")
    case None
    with P run show ?thesis by (auto simp: flush_reply_def)
  next
    case (Some h)
    obtain x u where f: "flush_at h s = (x, u)" by (cases "flush_at h s")
    with flush_P [OF P, of h] have "P u" by simp
    with Some f run still_log [of u] show ?thesis
      by (auto simp: flush_reply_def split: sum.splits)
  qed
qed

lemma still_flush: "still P (fuse_flush ino fh)" and still_fsync: "still P (fuse_fsync ino fh)"
  unfolding fuse_flush_def fuse_fsync_def by (intro still_intros still_flush_reply)+

lemma still_read: "still P (fuse_read ino fh offset len)"
  unfolding fuse_read_def Let_def
proof (intro still_callback hoareI)
  fix s r s'
  let ?go = "with_path ino (\<lambda>path. case split_path path of (parent, name) \<Rightarrow>
      on_db (read_range parent name (i64_as_u64 offset) len) (\<lambda>found s.
        case found of None \<Rightarrow> (R_error ENOENT, s) | Some data \<Rightarrow> (R_data data, s)))"
  let ?s = "case handle_id ino fh s of None \<Rightarrow> s | Some h_id \<Rightarrow> snd (flush_at h_id s)"
  assume "P s" and run: "?go ?s = (r, s')"
  then have "P ?s" by (simp add: flush_P split: option.split)
  moreover have "still P ?go" by (intro still_intros still_reply) simp_all
  ultimately show "P s' \<and> handed r = []" using run by (blast dest: hoareD)
qed

lemma still_write: "still P (fuse_write ino fh offset data)"
  unfolding fuse_write_def Let_def
proof (intro still_callback hoareI)
  fix s r s'
  let ?direct = "with_path ino (\<lambda>path. case split_path path of (parent, name) \<Rightarrow>
      on_db (write_range parent name (i64_as_u64 offset) data)
        (\<lambda>_ s. (R_written (length data mod 2 ^ 32), s)))"
  assume P: "P s" and run: "(case handle_id ino fh s of
            None \<Rightarrow> ?direct s
          | Some h_id \<Rightarrow>
              (case map_of (open_handles s) h_id of
                 None \<Rightarrow> ?direct s
               | Some buf \<Rightarrow>
                   (case handle_write (i64_as_u64 offset) data buf of
                      None \<Rightarrow> (R_panic, s)
                    | Some buf' \<Rightarrow>
                        (R_written (length data mod 2 ^ 32),
                         s\<lparr>open_handles := AList.update h_id buf' (open_handles s)\<rparr>)))) = (r, s')"
  have "still P ?direct" by (intro still_intros still_reply) simp_all
  from hoareD [OF this P] run P buffer_P [OF P] show "P s' \<and> handed r = []"
    by (auto split: option.splits)
qed

end

text \<open>A predicate that does not look at the inode cache stands removals and renames too.\<close>

locale kept_moving = kept +
  assumes move_P: "P s \<Longrightarrow> P (s\<lparr>inos := m\<rparr>)"
begin

lemma still_unlink: "still P (fuse_unlink parent name)"
  unfolding fuse_unlink_def
  by (intro still_intros) (auto simp: hoare_def forget_def move_P)

lemma still_rmdir: "still P (fuse_rmdir parent name)"
  unfolding fuse_rmdir_def
  by (intro still_intros still_reply) (auto simp: hoare_def forget_def move_P)

lemma still_do_rename: "still P (do_rename old new)"
  unfolding do_rename_def by (intro still_on_db) (auto simp: hoare_def move_P)

lemma still_rename_onto: "still P (rename_onto k old new)"
proof (rule hoareI)
  fix s r s'
  assume P: "P s" and run: "rename_onto k old new s = (r, s')"
  obtain found d where f: "getattr_primary (fst new) (snd new) (fs_db s) = (found, d)"
    by (cases "getattr_primary (fst new) (snd new) (fs_db s)")
  let ?s = "s\<lparr>fs_db := d\<rparr>"
  have P': "P ?s" using P stableD [OF stable_P, of s ?s] by simp
  have "still P (on_db (list_primary (join (fst new) (snd new))) (\<lambda>children.
      if children \<noteq> [] then (\<lambda>s. (R_error ENOTEMPTY, s)) else do_rename old new))"
    by (intro still_intros still_reply still_do_rename) simp
  from hoareD [OF this P'] hoareD [OF still_do_rename P'] run P' show "P s' \<and> handed r = []"
    by (auto simp: rename_onto_def f Let_def split: sum.splits option.splits kind.splits)
qed

lemma still_rename: "still P (fuse_rename parent name newparent newname flags)"
  unfolding fuse_rename_def Let_def
  by (intro still_intros still_reply still_rename_onto) simp_all

end

text \<open>The triple of \<open>create\<close> from that of its last step.\<close>

lemma hoare_create:
  assumes "stable P" and "\<And>r. stable (Q r)"
    and "\<And>p. hoare P (\<lambda>s. case open_handle p name s of (fh, s1) \<Rightarrow>
      (case number (join p name) s1 of (ino, s2) \<Rightarrow>
         (R_created (attr_ttl s2) (file_attr ino 0 (wall_clock s2) (owner s2)) fh, s2))) Q"
    and "\<And>e s. P s \<Longrightarrow> Q (R_error e) s \<and> Q R_panic s"
  shows "hoare P (fuse_create parent name) Q"
  unfolding fuse_create_def
proof (intro hoare_callback hoare_with_key)
  fix p
  let ?open = "\<lambda>s. case open_handle p name s of (fh, s1) \<Rightarrow>
      (case number (join p name) s1 of (ino, s2) \<Rightarrow>
         (R_created (attr_ttl s2) (file_attr ino 0 (wall_clock s2) (owner s2)) fh, s2))"
  have "hoare P (on_db (create p name) (\<lambda>_. ?open)) Q"
    by (rule hoare_on_db [OF assms(1,3)]) (rule assms(4))
  then have "hoare P (\<lambda>s. case found of None \<Rightarrow> on_db (create p name) (\<lambda>_. ?open) s
      | Some m \<Rightarrow> (R_error EEXIST, s)) Q" for found :: "file_meta option"
    using assms(4) by (cases found) (auto simp: hoare_def)
  then have "hoare P (on_db (getattr_primary p name) (\<lambda>found s. case found of
      None \<Rightarrow> on_db (create p name) (\<lambda>_. ?open) s | Some _ \<Rightarrow> (R_error EEXIST, s))) Q"
    by (rule hoare_on_db [OF assms(1)]) (rule assms(4))
  then show "hoare (\<lambda>s. P s \<and> path_of_ino (inos s) parent = Some p)
    (on_db (getattr_primary p name) (\<lambda>found s. case found of
      None \<Rightarrow> on_db (create p name) (\<lambda>_. ?open) s | Some _ \<Rightarrow> (R_error EEXIST, s))) Q"
    by (rule hoare_pre) simp
qed (simp_all add: assms)

text \<open>A predicate that stands the opening of a file is kept by \<open>open\<close> and \<open>create\<close>.\<close>

locale kept_opening = kept +
  assumes open_P: "P s \<Longrightarrow> open_handle parent name s = (fh, s') \<Longrightarrow>
      P s' \<and> P (s'\<lparr>open_handles_by_ino := AList.update ino fh (open_handles_by_ino s')\<rparr>)"
begin

lemma keep_still: "still P h \<Longrightarrow> hoare P h (\<lambda>_. P)"
  by (auto simp: hoare_def)

lemma open_handle_P: "P s \<Longrightarrow> P (snd (open_handle parent name s))"
  by (cases "open_handle parent name s") (auto dest: open_P)

lemma keep_open: "hoare P (fuse_open ino) (\<lambda>_. P)"
  unfolding fuse_open_def
  by (intro hoare_callback hoare_with_path stable_P)
    (auto simp: hoare_def dest: open_P split: prod.splits)

lemma keep_create: "hoare P (fuse_create parent name) (\<lambda>_. P)"
proof (rule hoare_create [OF stable_P stable_P])
  fix p
  show "hoare P (\<lambda>s. case open_handle p name s of (fh, s1) \<Rightarrow>
      (case number (join p name) s1 of (ino, s2) \<Rightarrow>
         (R_created (attr_ttl s2) (file_attr ino 0 (wall_clock s2) (owner s2)) fh, s2))) (\<lambda>_. P)"
    by (rule hoareI) (auto simp: number_def case_prod_unfold split: prod.splits
      intro!: number_P open_handle_P)
qed simp

end

section \<open>The numbers of open files\<close>

text \<open>\<open>n\<close> is the next number, and every open file has one of \<open>D\<close>.\<close>

definition numbered :: "nat \<Rightarrow> nat set \<Rightarrow> pgfs \<Rightarrow> bool" where
  "numbered n D s \<longleftrightarrow> next_fh s = n \<and> dom (map_of (open_handles s)) \<subseteq> D"

lemma dom_flush:
  "flush_handle fh hs d = (r, hs', d') \<Longrightarrow> dom (map_of hs') \<subseteq> dom (map_of hs)"
  by (auto simp: flush_handle_def Let_def update_conv' delete_conv'
      split: option.splits prod.splits sum.splits if_splits)

interpretation numbers: kept_moving "numbered n D" for n D
proof unfold_locales
  show "stable (numbered n D)" by (rule stableI) (simp add: numbered_def core_def)
  show "numbered n D (snd (flush_at fh s))" if "numbered n D s" for fh s
    using that dom_flush [of fh "open_handles s" "fs_db s"]
    by (cases "flush_handle fh (open_handles s) (fs_db s)") (simp add: numbered_def flush_at_def, blast)
  show "numbered n D (s\<lparr>open_handles := AList.update fh b' (open_handles s)\<rparr>)"
    if "numbered n D s" "map_of (open_handles s) fh = Some b" "handle_write pos data b = Some b'"
    for s fh b pos data b'
    using that by (auto simp: numbered_def update_conv' split: if_splits)
  show "numbered n D (s\<lparr>open_handles := AList.delete fh (open_handles s),
      open_handles_by_ino := filter keep (open_handles_by_ino s)\<rparr>)" if "numbered n D s" for s fh keep
    using that by (auto simp: numbered_def delete_conv' split: if_splits)
qed (simp_all add: numbered_def)

lemma numbered_open:
  assumes "numbered n D s" and "open_handle parent name s = (fh, s')"
  shows "fh = n \<and> numbered (n + 1) (insert n D) s'"
proof -
  have s': "s' = s\<lparr>next_fh := n + 1, open_handles := AList.update n (handle_new parent name) (open_handles s)\<rparr>"
    "fh = n"
    using assms by (auto simp: numbered_def open_handle_def)
  have "dom (map_of (open_handles s)) \<subseteq> D" using assms(1) by (simp add: numbered_def)
  then have "dom (map_of (open_handles s')) \<subseteq> insert n D" unfolding s' by (auto simp: update_conv')
  with s' show ?thesis by (simp add: numbered_def)
qed

text \<open>Every request hands out the next number or none.\<close>

definition numbers_next :: "nat \<Rightarrow> nat set \<Rightarrow> reply \<Rightarrow> pgfs \<Rightarrow> bool" where
  "numbers_next n D r s \<longleftrightarrow> handed r = [] \<and> numbered n D s \<or>
     handed r = [n] \<and> numbered (n + 1) (insert n D) s"

lemma stable_next: "stable (numbers_next n D r)"
  by (rule stableI) (simp add: numbers_next_def numbered_def core_def)

lemma number_core: "numbered n D (s\<lparr>inos := m\<rparr>) = numbered n D s"
  "numbered n D (s\<lparr>open_handles_by_ino := his\<rparr>) = numbered n D s"
  by (simp_all add: numbered_def)

lemma opens_next: "hoare (numbered n D) (fuse_open ino) (numbers_next n D)"
  unfolding fuse_open_def
  by (intro hoare_callback hoare_with_path numbers.stable_P stable_next)
    (auto simp: hoare_def numbers_next_def number_core dest: numbered_open split: prod.splits)

lemma creates_next: "hoare (numbered n D) (fuse_create parent name) (numbers_next n D)"
proof (rule hoare_create [OF numbers.stable_P stable_next])
  fix p
  show "hoare (numbered n D) (\<lambda>s. case open_handle p name s of (fh, s1) \<Rightarrow>
      (case number (join p name) s1 of (ino, s2) \<Rightarrow>
         (R_created (attr_ttl s2) (file_attr ino 0 (wall_clock s2) (owner s2)) fh, s2)))
    (numbers_next n D)"
    by (rule hoareI) (auto simp: number_def number_core numbers_next_def split: prod.splits dest: numbered_open)
qed (simp add: numbers_next_def)

lemma still_next: "still (numbered n D) h \<Longrightarrow> hoare (numbered n D) h (numbers_next n D)"
  by (auto simp: hoare_def numbers_next_def)

lemma handle_next: "hoare (numbered n D) (handle rq) (numbers_next n D)"
  by (cases rq)
    (simp_all add: still_next opens_next creates_next numbers.still_lookup numbers.still_getattr
      numbers.still_setattr numbers.still_read numbers.still_write numbers.still_flush
      numbers.still_fsync numbers.still_release numbers.still_rename numbers.still_mkdir
      numbers.still_unlink numbers.still_rmdir numbers.still_readdir)

lemma numbered_step:
  assumes "fs_step s ev u" and "numbered n D s"
  shows "numbered n D u \<and> ev = None \<or> (\<exists>rq r. ev = Some (rq, r) \<and> numbers_next n D r u)"
proof (cases ev)
  case None
  with assms silent_keeps [of s u] stableD [OF numbers.stable_P, of u s n D] show ?thesis by simp
next
  case (Some x)
  obtain rq r where x: "x = (rq, r)" by (cases x)
  with Some assms(1) have "handle rq s = (r, u)" by (auto elim: served)
  with hoareD [OF handle_next assms(2)] Some x show ?thesis by simp
qed

lemma numbered_run:
  "fs_run s evs s' \<Longrightarrow> numbered n D s \<Longrightarrow>
    handed_out evs = [n..<next_fh s'] \<and> n \<le> next_fh s' \<and>
    dom (map_of (open_handles s')) \<subseteq> D \<union> {n..<next_fh s'}"
proof (induction arbitrary: n D rule: fs_run.induct)
  case (over s)
  then show ?case by (simp add: numbered_def)
next
  case (silent s u evs s')
  with numbered_step [OF silent(1), of n D] have "numbered n D u" by simp
  from silent.IH [OF this] show ?case .
next
  case (answered s ev u evs s')
  obtain rq r where ev: "ev = (rq, r)" by (cases ev)
  with numbered_step [OF answered(1), of n D] answered(4) have "numbers_next n D r u" by simp
  then consider "handed r = []" "numbered n D u" | "handed r = [n]" "numbered (n + 1) (insert n D) u"
    by (auto simp: numbers_next_def)
  then show ?case
  proof cases
    case 1
    with answered.IH [OF 1(2)] ev show ?thesis by simp
  next
    case 2
    with answered.IH [of "n + 1" "insert n D"] ev show ?thesis by (auto simp: upt_conv_Cons)
  qed
qed

section \<open>The paths of inodes\<close>

definition stands :: "nat \<Rightarrow> string \<Rightarrow> pgfs \<Rightarrow> bool" where
  "stands i path s \<longleftrightarrow> fs_inv s \<and> path_of_ino (inos s) i = Some path"

lemma stable_stands: "stable (stands i path)"
  unfolding stands_def by (intro stable_intros stable_inv)

lemma stands_inv: "stands i path s \<Longrightarrow> fs_inv s"
  by (simp add: stands_def)

lemma inos_flush_at: "inos (snd (flush_at fh s)) = inos s"
  by (simp add: flush_at_def split: prod.split)

lemma inv_buffered:
  assumes "fs_inv s" and "map_of (open_handles s) fh = Some b" and "handle_write pos data b = Some b'"
  shows "fs_inv (s\<lparr>open_handles := AList.update fh b' (open_handles s)\<rparr>)"
proof -
  have "0 < fh" "fh < next_fh s" "distinct (map fst (dirty_blocks b))"
    using assms(1,2) by (auto simp: fs_inv_def handles_ok_def)
  with assms handle_write_distinct [OF _ assms(3)] show ?thesis
    by (simp add: fs_inv_def handles_update)
qed

lemma inv_opened:
  assumes "fs_inv s" and "open_handle parent name s = (fh, s')"
  shows "fs_inv s' \<and> fs_inv (s'\<lparr>open_handles_by_ino := AList.update ino fh (open_handles_by_ino s')\<rparr>)"
proof -
  have s': "fs_inv s'" "0 < fh" "fh < next_fh s'"
    using inv_open_handle [OF assms(1), of parent name] assms(2) by simp_all
  then have "fs_inv (s'\<lparr>open_handles_by_ino := AList.update ino fh (open_handles_by_ino s')\<rparr>)"
    by (auto simp: fs_inv_def handles_ok_def dest!: in_update)
  with s'(1) show ?thesis by simp
qed

interpretation paths: kept_opening "stands i path" for i path
proof unfold_locales
  show "stable (stands i path)" by (rule stable_stands)
  show "stands i path (s\<lparr>inos := snd (ino_for p (inos s))\<rparr>)" if "stands i path s" for s p
    using that ino_for_stable [of "inos s" i path p]
    by (simp add: stands_def inv_inos ino_for_ok ino_for_root fs_inv_def handles_ok_def)
  show "stands i path (snd (flush_at fh s))" if "stands i path s" for fh s
    using that by (simp add: stands_def inv_flush_at inos_flush_at)
  show "stands i path (s\<lparr>open_handles := AList.update fh b' (open_handles s)\<rparr>)"
    if "stands i path s" "map_of (open_handles s) fh = Some b" "handle_write pos data b = Some b'"
    for s fh b pos data b'
    using that inv_buffered [of s fh b pos data b'] by (simp add: stands_def)
  show "stands i path (s\<lparr>open_handles := AList.delete fh (open_handles s),
      open_handles_by_ino := filter keep (open_handles_by_ino s)\<rparr>)" if "stands i path s" for s fh keep
    using that by (simp add: stands_def inv_release)
  show "stands i path s' \<and>
      stands i path (s'\<lparr>open_handles_by_ino := AList.update ino fh (open_handles_by_ino s')\<rparr>)"
    if "stands i path s" "open_handle parent name s = (fh, s')" for s s' parent name fh ino
    using that inv_opened [of s parent name fh s' ino]
    by (auto simp: stands_def open_handle_def)
qed

text \<open>The requests that take a path from its inode.\<close>

fun moves_paths :: "request \<Rightarrow> bool" where
  "moves_paths (Rename parent name newparent newname flags) \<longleftrightarrow> True"
| "moves_paths (Unlink parent name) \<longleftrightarrow> True"
| "moves_paths (Rmdir parent name) \<longleftrightarrow> True"
| "moves_paths rq \<longleftrightarrow> False"

lemma handle_stands:
  "\<not> moves_paths rq \<Longrightarrow> hoare (stands i path) (handle rq) (\<lambda>_. stands i path)"
  by (cases rq)
    (simp_all add: paths.keep_still paths.keep_open paths.keep_create paths.still_lookup
      paths.still_getattr paths.still_setattr paths.still_read paths.still_write paths.still_flush
      paths.still_fsync paths.still_release paths.still_mkdir paths.still_readdir)

lemma run_stands:
  "fs_run s evs s' \<Longrightarrow> list_all (\<lambda>(rq, r). \<not> moves_paths rq) evs \<Longrightarrow> stands i path s \<Longrightarrow> stands i path s'"
proof (induction rule: fs_run.induct)
  case (silent s u evs s')
  with silent_keeps [of s u] stableD [OF stable_stands, of u s i path] show ?case by simp
next
  case (answered s ev u evs s')
  obtain rq r where ev: "ev = (rq, r)" by (cases ev)
  with answered(1) have "handle rq s = (r, u)" by (auto elim: served)
  with answered(4,5) ev have "stands i path u" using hoareD [OF handle_stands] by fastforce
  with answered ev show ?case by simp
qed

section \<open>A small run\<close>

lemma rest_opened:
  assumes "at_rest s"
  obtains u where "handle (Open 1) s = (R_opened (next_fh s), u)"
  using at_rest_callback [OF assms]
  by (simp add: fuse_open_def open_handle_def with_path_def case_prod_unfold on_stats_def set_stats_def)

lemma demo_root_opened:
  obtains s1 where "handle (Open 1) (demo_fs []) = (R_opened 1, s1)" and "at_rest s1"
    and "next_fh s1 = 2" and "open_handles s1 = [(1, handle_new [] [])]"
  by (simp add: demo_fs_def with_attr_ttl_def fuse_open_def open_handle_def callback_def
      latency_guard_def callback_preamble_def split_path_def
      maybe_dump_state_def check_liveness_def on_stats_def set_stats_def record_fuse_latency_def
      statics_init_def Let_def db_with_def with_path_def at_rest_def HEARTBEAT_DEADLINE_MS_def
      HEARTBEAT_PERIOD_MS_def)

lemma demo_looked_up:
  obtains ttl a s' where "handle (Lookup 1 ''docs'') (demo_fs []) = (R_entry ttl a, s')" and "at_rest s'"
proof -
  have "meta_opt (ent demo ('''', ''docs'')) = Inr (Some \<lparr>m_name = ''docs'', m_kind = Dir, m_size = 0,
      m_mtime = 0\<rparr>)"
    by (simp add: meta_opt_def ent_def demo_defs entry_key_def row_to_meta_def)
  moreover have "check_liveness 0 statics_init = (True, statics_init\<lparr>last_beat_seen := 0,
      beat_deadline_at := HEARTBEAT_DEADLINE_MS\<rparr>)"
    by (simp add: check_liveness_def statics_init_def)
  moreover have "at_rest (record_fuse_latency (snd (number q (demo_fs []\<lparr>fs_db := record_latency
      (db_with demo []\<lparr>stats := statics_init\<lparr>last_beat_seen := 0,
        beat_deadline_at := HEARTBEAT_DEADLINE_MS, lookup_count := n\<rparr>\<rparr>)\<rparr>))))" for q n
    by (simp add: at_rest_def record_fuse_latency_def number_def case_prod_unfold record_latency_def
        db_with_def statics_init_def demo_fs_def with_attr_ttl_def Let_def HEARTBEAT_DEADLINE_MS_def
        HEARTBEAT_PERIOD_MS_def)
  ultimately show ?thesis
    using demo_keys that
    by (simp add: fuse_lookup_def callback_def latency_guard_def callback_preamble_def maybe_dump_state_def
        resolve_def to_str_def byte_in_def on_db_def getattr_def choose_standby_def
        record_replica_fallback_if_configured_def getattr_primary_calm on_stats_def set_stats_def
        Let_def case_prod_unfold db_with_def)
qed

section \<open>The properties\<close>

text \<open>C8. In every state the mounted file system can reach, the inode of a cached path leads
  back to it, so no inode stands for two paths. Along every run, the handle numbers handed out
  by \<open>open\<close> and \<open>create\<close> are one interval, in order, so none of them is ever handed out twice,
  whatever is closed in between; it starts above every handle that was open before, and every
  handle open at the end was open before or handed out on the way.\<close>

theorem reachable_numbers:
  assumes "reachable s" and "fs_run s evs s'"
  shows "(\<forall>p i. map_of (ino_by_path (inos s')) p = Some i \<longrightarrow> path_of_ino (inos s') i = Some p) \<and>
    (\<forall>p q i. map_of (ino_by_path (inos s')) p = Some i \<longrightarrow> map_of (ino_by_path (inos s')) q = Some i \<longrightarrow> p = q) \<and>
    handed_out evs = [next_fh s..<next_fh s'] \<and>
    (\<forall>fh h. map_of (open_handles s) fh = Some h \<longrightarrow> 0 < fh \<and> fh < next_fh s) \<and>
    (\<forall>fh h. map_of (open_handles s') fh = Some h \<longrightarrow> 0 < fh \<and> fh < next_fh s' \<and>
       (map_of (open_handles s) fh \<noteq> None \<or> fh \<in> set (handed_out evs)))"
proof -
  have inv: "fs_inv s" "fs_inv s'"
    using assms run_reachable [OF assms(2)] by (simp_all add: reachable_inv)
  then have maps: "inodes_ok (inos s')" "root_ok (inos s')" by (simp_all add: fs_inv_def)
  have handles: "map_of (open_handles u) fh = Some h \<Longrightarrow> 0 < fh \<and> fh < next_fh u"
    if "fs_inv u" for u fh h
    using that by (auto simp: fs_inv_def handles_ok_def)
  have "numbered (next_fh s) (dom (map_of (open_handles s))) s" by (simp add: numbered_def)
  from numbered_run [OF assms(2) this]
  have "handed_out evs = [next_fh s..<next_fh s']"
    and "dom (map_of (open_handles s')) \<subseteq> dom (map_of (open_handles s)) \<union> set (handed_out evs)"
    by simp_all
  with path_of_ino_cached [OF maps] ino_unique [OF maps(1)] handles inv show ?thesis by blast
qed

theorem reachable_numbers_witness:
  "\<exists>s'. fs_run (demo_fs []) [(Open 1, R_opened 1), (Release 1 1, R_ok), (Open 1, R_opened 2)] s' \<and>
     [1, 2] = [next_fh (demo_fs [])..<next_fh s']"
proof -
  obtain s1 where s1: "handle (Open 1) (demo_fs []) = (R_opened 1, s1)" "at_rest s1" "next_fh s1 = 2"
    "open_handles s1 = [(1, handle_new [] [])]"
    by (rule demo_root_opened)
  let ?s2 = "snd (handle (Release 1 1) s1)"
  have s2: "handle (Release 1 1) s1 = (R_ok, ?s2)" "at_rest ?s2" "next_fh ?s2 = 2"
    using s1(2-4)
    by (simp_all add: fuse_release_def Let_def flush_at_def flush_handle_def handle_new_def at_rest_def)
  obtain s3 where s3: "handle (Open 1) ?s2 = (R_opened 2, s3)"
    using rest_opened [OF s2(2)] s2(3) by metis
  have run: "fs_run (demo_fs []) [(Open 1, R_opened 1), (Release 1 1, R_ok), (Open 1, R_opened 2)] s3"
    by (intro run_step [OF s1(1)] run_step [OF s2(1)] run_step [OF s3 _ _ over]) simp_all
  moreover from reachable_numbers [OF demo_fs_reachable run]
  have "[1, 2] = [next_fh (demo_fs [])..<next_fh s3]" by simp
  ultimately show ?thesis by blast
qed

text \<open>C18. An inode that \<open>lookup\<close> or \<open>mkdir\<close> replies with stands for the child's path at once and
  through every run that follows, until a \<open>rename\<close>, an \<open>unlink\<close> or an \<open>rmdir\<close> is served.\<close>

theorem replied_inode_resolves:
  assumes "reachable s" and "path_of_ino (inos s) parent = Some d"
    and "rq = Lookup parent name \<or> rq = Mkdir parent name"
    and "handle rq s = (R_entry ttl a, s')"
    and "fs_run s' evs s''" and "list_all (\<lambda>(rq, r). \<not> moves_paths rq) evs"
  shows "path_of_ino (inos s'') (a_ino a) = Some (join d name)"
proof -
  have inv: "fs_inv s" using assms(1) by (rule reachable_inv)
  then have "path_of_ino (inos s') (a_ino a) = Some (join d name)"
    using assms(2-4) hoareD [OF lookup_resolves, of s parent d name "R_entry ttl a" s']
      hoareD [OF mkdir_resolves, of s parent d name "R_entry ttl a" s']
    by (auto simp: resolves_to_def)
  moreover have "request_ok rq" using assms(3) by auto
  then have "fs_inv s'" using assms(4) inv by (blast dest: keeps_handle hoareD)
  ultimately show ?thesis using run_stands [OF assms(5,6)] by (simp add: stands_def)
qed

theorem replied_inode_resolves_witness:
  "\<exists>ttl a s' s''. handle (Lookup 1 ''docs'') (demo_fs []) = (R_entry ttl a, s') \<and>
     fs_run s' [(Open 1, R_opened (next_fh s'))] s'' \<and> path_of_ino (inos s'') (a_ino a) = Some ''docs''"
proof -
  obtain ttl a s' where run: "handle (Lookup 1 ''docs'') (demo_fs []) = (R_entry ttl a, s')" "at_rest s'"
    by (rule demo_looked_up)
  obtain s'' where "handle (Open 1) s' = (R_opened (next_fh s'), s'')"
    using run(2) by (rule rest_opened)
  then have later: "fs_run s' [(Open 1, R_opened (next_fh s'))] s''"
    by (rule run_step [OF _ _ _ over]) simp_all
  from replied_inode_resolves [OF demo_fs_reachable _ _ run(1) later, of 1 "''''" "''docs''"] run(1) later
  show ?thesis by auto
qed

end
