(* ===== verification/Error_Story.thy ===== *)
theory Error_Story
  imports Basics
begin

text \<open>
  The error helpers of \<open>src/error.rs\<close>. An \<open>anyhow::Error\<close> is its chain of messages,
  outermost first, root cause last; \<open>#[track_caller]\<close> makes the call site's file and line
  arguments of the model. The errors of the database layer proper are the datatype of
  theory \<open>Postgres\<close>: no caller branches on their text.
\<close>

type_synonym chain = "string list"

fun decimal :: "nat \<Rightarrow> string" where
  "decimal n =
     (if n < 10 then [char_of (48 + n)] else decimal (n div 10) @ [char_of (48 + n mod 10)])"

declare decimal.simps [simp del]

text \<open>\<open>format!("{what} (at {}:{})", file, line)\<close>\<close>

definition located :: "string \<Rightarrow> nat \<Rightarrow> string \<Rightarrow> string" where
  "located file line what = what @ '' (at '' @ file @ '':'' @ decimal line @ '')''"

definition ctx :: "string \<Rightarrow> nat \<Rightarrow> chain + 'a \<Rightarrow> string \<Rightarrow> chain + 'a" where
  "ctx file line result what =
     (case result of
        Inr x \<Rightarrow> Inr x
      | Inl cause \<Rightarrow> Inl (located file line what # cause))"

definition failure :: "string \<Rightarrow> nat \<Rightarrow> string \<Rightarrow> chain" where
  "failure file line what = [located file line what]"

text \<open>\<open>{err:#}\<close>: every layer, separated by \<open>": "\<close>.\<close>

fun story :: "chain \<Rightarrow> string" where
  "story [] = []"
| "story [m] = m"
| "story (m # ms) = m @ '': '' @ story ms"

text \<open>A computation that passes through several layers of \<open>ctx\<close>, innermost first.\<close>

definition ctx_layers :: "(string \<times> nat \<times> string) list \<Rightarrow> chain + 'a \<Rightarrow> chain + 'a" where
  "ctx_layers layers result =
     fold (\<lambda>(file, line, what) r. ctx file line r what) layers result"

lemma ctx_layers_Inr: "ctx_layers ls (Inr x) = Inr x"
  by (induction ls) (auto simp: ctx_layers_def ctx_def)

lemma ctx_layers_Inl:
  "ctx_layers ls (Inl c) = Inl (rev (map (\<lambda>(file, line, what). located file line what) ls) @ c)"
  by (induction ls arbitrary: c) (auto simp: ctx_layers_def ctx_def)

lemma decimal_snoc:
  "decimal n = (if n < 10 then [] else decimal (n div 10)) @ [char_of (48 + n mod 10)]"
  by (subst decimal.simps) simp

text \<open>Reading the digits back: the printed line number identifies the line.\<close>

definition digits_value :: "string \<Rightarrow> nat" where
  "digits_value s = fold (\<lambda>c v. 10 * v + (of_char c - 48)) s 0"

lemma digits_value_decimal: "digits_value (decimal n) = n"
proof (induction n rule: decimal.induct)
  case (1 n)
  have c: "of_char (char_of (48 + m mod 10) :: char) = 48 + m mod (10 :: nat)" for m
    by simp
  show ?case
  proof (cases "n < 10")
    case True
    then show ?thesis by (subst decimal.simps) (simp add: digits_value_def)
  next
    case False
    then have "digits_value (decimal n) = 10 * digits_value (decimal (n div 10)) + n mod 10"
      by (subst decimal.simps) (simp add: digits_value_def)
    with False 1 show ?thesis by simp
  qed
qed

end
