(* ===== verification/Observe_Correct.thy ===== *)
theory Observe_Correct
  imports Errors_Correct Error_Story
begin

text \<open>
  What the daemon says about itself: the heartbeat check over time, the histograms and their
  percentiles, the text of an error, and the routing of the reads that may use the standby.
\<close>

section \<open>The heartbeat over time\<close>

lemma liveness_run_still:
  assumes "last_beat_seen m = c" and "c \<noteq> U64_MAX"
  shows "liveness_run (map (\<lambda>t. (t, c)) ts) m = map (\<lambda>t. t < beat_deadline_at m) ts"
  using assms
proof (induction ts arbitrary: m)
  case Nil
  then show ?case by simp
next
  case (Cons t ts)
  have "check_liveness t (m\<lparr>liveness := c\<rparr>) = (t < beat_deadline_at m, m\<lparr>liveness := c\<rparr>)"
    using Cons.prems by (simp add: check_liveness_def)
  with Cons.IH [of "m\<lparr>liveness := c\<rparr>"] Cons.prems show ?case by simp
qed

text \<open>C31. Let \<open>hb t\<close> be the heartbeat's counter at time \<open>t\<close>. While it changes within every three
  periods, no check at any sequence of times ever fails. When it stops at a value seen first
  at \<open>t0\<close>, exactly the checks three periods or more after \<open>t0\<close> fail.\<close>

theorem heartbeat_check:
  assumes "sorted ts" and "\<And>a b. a + HEARTBEAT_DEADLINE_MS \<le> b \<Longrightarrow> hb a \<noteq> hb b"
    and "c \<noteq> U64_MAX" and "last_beat_seen m \<noteq> c"
  shows "list_all (\<lambda>ok. ok) (liveness_run (map (\<lambda>t. (t, hb t)) ts) statics_init) \<and>
    liveness_run ((t0, c) # map (\<lambda>t. (t, c)) ts) m = True # map (\<lambda>t. t < t0 + HEARTBEAT_DEADLINE_MS) ts"
proof
  have "armed hb 0 statics_init" by (simp add: armed_def statics_init_def)
  from liveness_run_beating [OF this, of ts] assms(1,2)
  show "list_all (\<lambda>ok. ok) (liveness_run (map (\<lambda>t. (t, hb t)) ts) statics_init)" by simp
  let ?m = "m\<lparr>liveness := c, last_beat_seen := c, beat_deadline_at := t0 + HEARTBEAT_DEADLINE_MS\<rparr>"
  have "check_liveness t0 (m\<lparr>liveness := c\<rparr>) = (True, ?m)"
    using assms(4) by (simp add: check_liveness_def)
  with liveness_run_still [of ?m c ts] assms(3)
  show "liveness_run ((t0, c) # map (\<lambda>t. (t, c)) ts) m =
      True # map (\<lambda>t. t < t0 + HEARTBEAT_DEADLINE_MS) ts"
    by simp
qed

theorem heartbeat_check_witness:
  "list_all (\<lambda>ok. ok) (liveness_run (map (\<lambda>t. (t, t div 10000)) [5, 20000, 61000]) statics_init) \<and>
   liveness_run ((0, 4) # map (\<lambda>t. (t, 4)) [5, 20000, 61000]) statics_init = [True, True, True, False]"
proof -
  have "a div 10000 \<noteq> b div 10000" if "a + HEARTBEAT_DEADLINE_MS \<le> b" for a b :: nat
    using that by (simp add: HEARTBEAT_DEADLINE_MS_def HEARTBEAT_PERIOD_MS_def)
  then show ?thesis
    using heartbeat_check [of "[5, 20000, 61000]" "\<lambda>t. t div 10000" 4 statics_init 0]
    by (simp add: statics_init_def HEARTBEAT_DEADLINE_MS_def HEARTBEAT_PERIOD_MS_def)
qed

section \<open>Histograms\<close>

text \<open>The bucket of a duration in microseconds, by its bounds.\<close>

lemma bucket_of_bounds:
  "bucket_of us = (if us \<le> 10 then 0 else if us \<le> 100 then 1 else if us \<le> 1000 then 2
    else if us \<le> 10000 then 3 else if us \<le> 100000 then 4 else if us \<le> 1000000 then 5 else 6)"
  by (simp add: bucket_of_def HISTO_THRESHOLDS_def HISTO_BUCKETS_def)

lemma histogram_fold:
  assumes "length h = HISTO_BUCKETS" and "\<forall>i < HISTO_BUCKETS. h ! i + length samples < U64"
  shows "fold histogram_record samples h =
    map (\<lambda>i. h ! i + length (filter (\<lambda>us. bucket_of us = i) samples)) [0..<HISTO_BUCKETS]"
  using assms
proof (induction samples arbitrary: h)
  case Nil
  then show ?case by (intro nth_equalityI) simp_all
next
  case (Cons us samples)
  let ?h = "histogram_record us h"
  have b: "bucket_of us < HISTO_BUCKETS" by (rule bucket_of_less)
  then have "bump (h ! bucket_of us) = h ! bucket_of us + 1"
    using Cons.prems(2) [rule_format, OF b] by (simp add: bump_def)
  then have nth: "?h ! i = h ! i + (if bucket_of us = i then 1 else 0)" if "i < HISTO_BUCKETS" for i
    using that b Cons.prems(1) by (simp add: histogram_record_def nth_list_update)
  have "\<forall>i < HISTO_BUCKETS. ?h ! i + length samples < U64"
    using Cons.prems(2) nth by fastforce
  with Cons.IH [of ?h] Cons.prems(1) nth show ?case by (auto intro!: map_cong)
qed

text \<open>Bucket by bucket, a histogram holds the number of samples recorded that fall within the
  bucket's bounds; the counts add up to the number of samples.\<close>

theorem histogram_counts:
  assumes "length samples < U64"
  defines "h \<equiv> fold histogram_record samples histogram_new"
  shows "h = map (\<lambda>i. length (filter (\<lambda>us. bucket_of us = i) samples)) [0..<HISTO_BUCKETS] \<and>
    sum_list h = length samples"
proof
  show h: "h = map (\<lambda>i. length (filter (\<lambda>us. bucket_of us = i) samples)) [0..<HISTO_BUCKETS]"
    using histogram_fold [of histogram_new samples] assms
    by (simp add: h_def histogram_new_def)
  have "(\<Sum>i \<leftarrow> [0..<HISTO_BUCKETS]. length (filter (\<lambda>us. bucket_of us = i) samples)) = length samples"
  proof (induction samples)
    case (Cons us samples)
    have "(\<Sum>i \<leftarrow> [0..<HISTO_BUCKETS]. length (filter (\<lambda>x. bucket_of x = i) (us # samples))) =
        (\<Sum>i \<leftarrow> [0..<HISTO_BUCKETS]. if bucket_of us = i then 1 else 0) +
        (\<Sum>i \<leftarrow> [0..<HISTO_BUCKETS]. length (filter (\<lambda>x. bucket_of x = i) samples))"
      by (subst sum_list_addf [symmetric]) (auto intro!: arg_cong [where f = sum_list] map_cong)
    also have "(\<Sum>i \<leftarrow> [0..<HISTO_BUCKETS]. if bucket_of us = i then 1 else 0) = (1 :: nat)"
      using bucket_of_less [of us]
      by (simp add: sum_list_distinct_conv_sum_set)
    finally show ?case using Cons by simp
  qed simp
  then show "sum_list h = length samples" by (simp only: h)
qed

theorem histogram_counts_witness:
  "fold histogram_record [7, 50, 10, 2000000] histogram_new = [2, 1, 0, 0, 0, 0, 1]"
  using histogram_counts [of "[7, 50, 10, 2000000]"]
  by (simp add: bucket_of_bounds HISTO_BUCKETS_def upt_rec)

text \<open>The percentile a reader expects: the first bucket at which the running count reaches the
  target.\<close>

definition first_reaching :: "nat \<Rightarrow> nat list \<Rightarrow> nat" where
  "first_reaching target s =
     (case position (\<lambda>k. target \<le> sum_list (take (Suc k) s)) [0..<length s] of
        None \<Rightarrow> 0 | Some k \<Rightarrow> k)"

lemma first_reaching_Least:
  assumes "target \<le> sum_list s" and "s \<noteq> []"
  shows "first_reaching target s < length s \<and> target \<le> sum_list (take (Suc (first_reaching target s)) s) \<and>
    (\<forall>j < first_reaching target s. sum_list (take (Suc j) s) < target)"
proof -
  let ?P = "\<lambda>k. target \<le> sum_list (take (Suc k) s)"
  have "?P (length s - 1)" using assms by simp
  then have "position ?P [0..<length s] \<noteq> None"
    using assms(2) by (auto simp: position_None intro!: bexI [of _ "length s - 1"])
  then obtain k where "position ?P [0..<length s] = Some k" by blast
  then show ?thesis
    using position_Some [of ?P "[0..<length s]" k] by (auto simp: first_reaching_def not_le)
qed

lemma summary_loop_bucket:
  assumes "target \<le> sum_list (c # s)" and "s \<noteq> []"
  shows "summary_loop 0 0 [(target, 0)] (c # s) = [(target, max 1 (first_reaching target (c # s)))]"
proof -
  let ?k = "first_reaching target (c # s)"
  have f: "?k < Suc (length s)" "target \<le> sum_list (take (Suc ?k) (c # s))"
    "\<forall>j < ?k. sum_list (take (Suc j) (c # s)) < target"
    using first_reaching_Least [OF assms(1)] by simp_all
  have "summary_loop (Suc 0) c [(target, 0)] s = [(target, Suc 0 + (?k - 1))]"
  proof (rule summary_loop_first)
    show "?k - 1 < length s" using f(1) assms(2) by (cases ?k) auto
    show "target \<le> c + sum_list (take (Suc (?k - 1)) s)"
    proof (cases ?k)
      case 0
      with f(2) show ?thesis by simp
    next
      case (Suc k)
      with f(2) show ?thesis by simp
    qed
    show "\<forall>j < ?k - 1. c + sum_list (take (Suc j) s) < target"
      using f(3) by (metis One_nat_def less_diff_conv add.commute plus_1_eq_Suc sum_list_simps(2) take_Suc_Cons)
  qed simp
  then show ?thesis by (simp add: max_def)
qed

text \<open>C33. The percentiles of a summary are the buckets that first reach 50, 95 and 99 percent of
  the samples, with one exception: bucket 0 also means "not found yet" to the loop, so it is
  never reported, and the bucket after it is named instead.\<close>

theorem summary_percentiles:
  assumes "length s = HISTO_BUCKETS" and "0 < sum_list s"
  shows "histogram_summary s = Summary (sum_list s)
    (bucket_label (max 1 (first_reaching (sum_list s * 50 div 100) s)))
    (bucket_label (max 1 (first_reaching (sum_list s * 95 div 100) s)))
    (bucket_label (max 1 (first_reaching (sum_list s * 99 div 100) s)))"
proof -
  obtain c s' where s: "s = c # s'" "s' \<noteq> []"
    using assms(1) by (cases s; cases "tl s") (auto simp: HISTO_BUCKETS_def)
  have "summary_loop 0 0 [(t, 0)] s = [(t, max 1 (first_reaching t s))]" if "t \<le> sum_list s" for t
    using summary_loop_bucket [of t c s'] s that by simp
  then have "summary_loop 0 0 ([(sum_list s * 50 div 100, 0)] @ [(sum_list s * 95 div 100, 0)] @
      [(sum_list s * 99 div 100, 0)]) s =
     [(sum_list s * 50 div 100, max 1 (first_reaching (sum_list s * 50 div 100) s)),
      (sum_list s * 95 div 100, max 1 (first_reaching (sum_list s * 95 div 100) s)),
      (sum_list s * 99 div 100, max 1 (first_reaching (sum_list s * 99 div 100) s))]"
    unfolding summary_loop_append by simp
  then show ?thesis using assms(2) by (simp add: histogram_summary_def Let_def del: sum_list_eq_0_iff)
qed

theorem summary_percentiles_witness:
  "histogram_summary [100, 0, 0, 0, 0, 0, 0] = Summary 100 ''<=100'' ''<=100'' ''<=100''"
  using summary_percentiles [of "[100, 0, 0, 0, 0, 0, 0]"]
  by (simp add: HISTO_BUCKETS_def first_reaching_def bucket_label_def upt_rec)

section \<open>Errors\<close>

lemma story_append: "c \<noteq> [] \<Longrightarrow> story (ms @ c) = concat (map (\<lambda>m. m @ '': '') ms) @ story c"
proof (induction ms)
  case (Cons m ms)
  then show ?case by (cases "ms @ c") simp_all
qed simp

text \<open>An error that passes through calls of \<open>ctx\<close> tells its whole story when logged: the
  failed operations from the outermost to the innermost, each with the file and line of its
  call, then the cause; the line reads back as a number. A success passes unchanged.\<close>

theorem ctx_story:
  assumes "cause \<noteq> []"
  shows "map_sum story id (ctx_layers layers (Inl cause :: chain + 'a)) = Inl (concat (map (\<lambda>(file, line, what).
      what @ '' (at '' @ file @ '':'' @ decimal line @ ''): '') (rev layers)) @ story cause) \<and>
    (\<forall>(file, line, what) \<in> set layers. digits_value (decimal line) = line) \<and>
    ctx_layers layers (Inr x) = (Inr x :: chain + 'a)"
proof -
  have "concat (map (\<lambda>m. m @ '': '') (rev (map (\<lambda>(file, line, what). located file line what) layers))) =
      concat (map (\<lambda>(file, line, what). what @ '' (at '' @ file @ '':'' @ decimal line @ ''): '') (rev layers))"
    by (simp add: rev_map comp_def case_prod_unfold located_def)
  then show ?thesis
    using assms by (auto simp: ctx_layers_Inl ctx_layers_Inr story_append digits_value_decimal)
qed

theorem ctx_story_witness:
  "map_sum story id (ctx_layers [(''src/db.rs'', 7, ''commit''), (''src/main.rs'', 12, ''serve'')]
     (Inl [''reset''] :: chain + unit)) =
   Inl ''serve (at src/main.rs:12): commit (at src/db.rs:7): reset''"
proof -
  have "decimal 7 = ''7''" "decimal 12 = ''12''" by code_simp+
  then show ?thesis
    using ctx_story [of "[''reset'']" "[(''src/db.rs'', 7, ''commit''), (''src/main.rs'', 12, ''serve'')]"
        "() :: unit"]
    by simp
qed

section \<open>Routing reads\<close>

text \<open>The verdict on the standby at a state: the cached one for half a second.\<close>

definition fresh_verdict :: "db \<Rightarrow> bool" where
  "fresh_verdict s =
     (case freshness_checked_at s of
        None \<Rightarrow> replica_fresh s
      | Some t \<Rightarrow> if mono_now s - t < FRESHNESS_TTL_MS then freshness_cached s else replica_fresh s)"

lemma choose_standby_verdict:
  assumes "replica s = Some sb"
  obtains s1 where "choose_standby s = (if fresh_verdict s then Some sb else None, s1)"
    and "stats s1 = stats s" and "tabs s1 = tabs s" and "fates s1 = fates s" and "replica s1 = Some sb"
proof (rule that)
  let ?s1 = "snd (choose_standby s)"
  show "choose_standby s = (if fresh_verdict s then Some sb else None, ?s1)"
    and "stats ?s1 = stats s" and "tabs ?s1 = tabs s" and "fates ?s1 = fates s" and "replica ?s1 = Some sb"
    using assms
    by (auto simp: choose_standby_def replica_fresh_cached_def fresh_verdict_def Let_def split: option.split)
qed

lemma record_latency_counts [simp]:
  "replica_read_count (stats (record_latency s)) = replica_read_count (stats s)"
  "replica_fallback_count (stats (record_latency s)) = replica_fallback_count (stats s)"
  by (simp_all add: record_latency_def)

lemma pg_exec_stats: "pg_exec step f s = (r, s') \<Longrightarrow> stats s' = stats s"
  by (auto simp: pg_exec_def run_stmt_def Let_def split: list.splits fate.splits option.splits)

lemma getattr_primary_counts:
  assumes "getattr_primary p n s = (r, s')"
  shows "replica_read_count (stats s') = replica_read_count (stats s)"
    and "replica_fallback_count (stats s') = replica_fallback_count (stats s)"
  using assms
  by (auto simp: getattr_primary_def db_bind_def split: prod.splits sum.splits dest!: pg_exec_stats)

text \<open>C29. Where \<open>getattr\<close> reads when a standby is configured. While the verdict is fresh the
  standby answers, from its own tables, whatever the primary holds by now, and an error of
  the standby is the result with no second try; otherwise the primary answers. Each read is
  counted once, as a standby read or as a fallback, and no table changes.\<close>

theorem getattr_routing:
  assumes "replica s = Some sb" and "keys_ok (sb_tabs sb)" and "keys_ok (tabs s)"
    and run: "getattr p n s = (r, s')"
  shows "tabs s' = tabs s \<and>
    (if fresh_verdict s
     then replica_read_count (stats s') = bump (replica_read_count (stats s)) \<and>
       replica_fallback_count (stats s') = replica_fallback_count (stats s) \<and>
       r = (if sb_fates sb = [] \<or> hd (sb_fates sb) = Served then meta_opt (ent (sb_tabs sb) (p, n))
            else Inl (Query_failed Get_attributes))
     else replica_read_count (stats s') = replica_read_count (stats s) \<and>
       replica_fallback_count (stats s') = bump (replica_fallback_count (stats s)) \<and>
       r = (if fates s = [] \<or> hd (fates s) = Served then meta_opt (ent (tabs s) (p, n))
            else Inl (Query_failed Get_attributes)))"
proof -
  obtain s1 where c: "choose_standby s = (if fresh_verdict s then Some sb else None, s1)"
    and s1: "stats s1 = stats s" "tabs s1 = tabs s" "fates s1 = fates s" "replica s1 = Some sb"
    using assms(1) by (rule choose_standby_verdict)
  have t: "tabs s' = tabs s" using quiet_getattr run by (metis quiet_def snd_conv)
  have row: "sql_opt (select_entry (p, n)) t = Some (ent t (p, n), t)" if "keys_ok t" for t
    using sql_opt_entry [OF that] .
  show ?thesis
  proof (cases "fresh_verdict s")
    case True
    with run c row [OF assms(2)] t s1 show ?thesis
      by (auto simp: getattr_def standby_query_def db_bind_def count_replica_read_def Let_def
          split: list.splits if_splits)
  next
    case False
    let ?u = "record_replica_fallback_if_configured s1"
    have u: "stats ?u = (stats s)\<lparr>replica_fallback_count := bump (replica_fallback_count (stats s)),
        replica_fallback_warned := True\<rparr>" "tabs ?u = tabs s" "fates ?u = fates s"
      using s1 by (simp_all add: record_replica_fallback_if_configured_def)
    have g: "getattr_primary p n ?u = (r, s')" using run c False by (simp add: getattr_def)
    have "r = (if fates s = [] \<or> hd (fates s) = Served then meta_opt (ent (tabs s) (p, n))
        else Inl (Query_failed Get_attributes))"
      using g u row [OF assms(3)]
      by (auto simp: getattr_primary_def db_bind_def pg_exec_def run_stmt_def Let_def
          split: list.splits fate.splits)
    with False t getattr_primary_counts [OF g] u show ?thesis by simp
  qed
qed

definition two_nodes :: db where
  "two_nodes = (db_with demo [])\<lparr>replica := Some (stale_standby\<lparr>sb_fates := []\<rparr>), freshness_cached := True,
     freshness_checked_at := Some 0, mono_now := 499\<rparr>"

theorem getattr_routing_witness:
  "\<not> replica_fresh two_nodes \<and> fst (getattr '''' ''docs'' two_nodes) = Inr None \<and>
   fst (getattr_primary '''' ''docs'' two_nodes) \<noteq> Inr None"
proof -
  have v: "fresh_verdict two_nodes"
    by (simp add: fresh_verdict_def two_nodes_def FRESHNESS_TTL_MS_def)
  have k: "keys_ok (sb_tabs (stale_standby\<lparr>sb_fates := []\<rparr>))"
    by (simp add: stale_standby_def keys_ok_def)
  have "meta_opt (ent (sb_tabs (stale_standby\<lparr>sb_fates := []\<rparr>)) ('''', ''docs'')) = Inr None"
    by (simp add: stale_standby_def ent_def meta_opt_def)
  then have "fst (getattr '''' ''docs'' two_nodes) = Inr None"
    using getattr_routing [of two_nodes "stale_standby\<lparr>sb_fates := []\<rparr>" "''''" "''docs''"] v k demo_keys
    by (cases "getattr '''' ''docs'' two_nodes") (simp add: two_nodes_def)
  moreover have "\<not> replica_fresh two_nodes"
    by (simp add: replica_fresh_def two_nodes_def stale_standby_def)
  moreover have "fst (getattr_primary '''' ''docs'' two_nodes) \<noteq> Inr None"
    using getattr_primary_calm [of two_nodes] demo_keys
    by (simp add: two_nodes_def meta_opt_def ent_def demo_defs entry_key_def row_to_meta_def)
  ultimately show ?thesis by blast
qed

end
