(* ===== verification/Listing_Correct.thy ===== *)
theory Listing_Correct
  imports Sessions_Correct
begin

text \<open>
  What \<open>readdir\<close> lists and what \<open>create\<close> hands out, for any request that is answered, whatever
  the database connection did.
\<close>

section \<open>Listing a directory\<close>

lemma list_primary_result:
  assumes "rows_ok (tabs s)" and "list_primary p s = (Inr ms, s')"
  shows "ms = map entry_meta (select_children p (tabs s))"
proof -
  have "fst (list_primary p v) = Inr (map entry_meta (select_children p (tabs s)))"
    if "fates v = []" "tabs v = tabs s" for v
    using list_primary_calm [OF that(1)] meta_all_children [OF assms(1)] that(2) by simp
  from lp.result_of_calm [OF this assms(2)] show ?thesis by simp
qed

lemma list_dir_primary: "replica s = None \<Longrightarrow> list_dir p s = list_primary p s"
  by (simp add: list_dir_def choose_standby_def record_replica_fallback_if_configured_def)

text \<open>The kind and name of every entry of a directory, in the order of the reply.\<close>

definition listing :: "tables \<Rightarrow> string \<Rightarrow> (file_type \<times> string) list" where
  "listing t path = (Directory, ''.'') # (Directory, ''..'') #
     map (\<lambda>r. (if e_kind r = ''file'' then RegularFile else Directory, e_name r)) (select_children path t)"

lemma kinds_of_entry [simp]:
  "(case m_kind (entry_meta r) of Dir \<Rightarrow> Directory | File \<Rightarrow> RegularFile) =
    (if e_kind r = ''file'' then RegularFile else Directory)"
  "m_name (entry_meta r) = e_name r"
  by (simp_all add: entry_meta_def)

lemma length_number_all: "length (fst (number_all alloc ps s)) = length ps"
proof (induction ps arbitrary: s)
  case (Cons p ps)
  then show ?case by (simp add: Let_def case_prod_unfold)
qed simp

text \<open>The entries the body of \<open>readdir\<close> builds from the kinds and names of the children and
  their inodes, and the part of them in the reply.\<close>

definition dir_entries :: "nat \<Rightarrow> nat \<Rightarrow> (file_type \<times> string) list \<Rightarrow> nat list \<Rightarrow> (nat \<times> file_type \<times> string) list" where
  "dir_entries ino up kns is = (ino, Directory, ''.'') # (up, Directory, ''..'') #
     map (\<lambda>((k, n), i). (i, k, n)) (zip kns is)"

lemma dir_entries_names:
  "length is = length kns \<Longrightarrow> map (\<lambda>(i, k, n). (k, n)) (dir_entries ino up kns is) =
    (Directory, ''.'') # (Directory, ''..'') # kns"
proof -
  assume "length is = length kns"
  then have "map fst (zip kns is) = kns" by simp
  then show ?thesis by (simp add: dir_entries_def comp_def case_prod_unfold)
qed

lemma dir_entries_resolve:
  assumes "inodes_ok m \<and> root_ok m" and "number_all ino_for (map (\<lambda>(k, n). join path n) kns) m = (is, m')"
    and "2 \<le> j" and "j < length (dir_entries ino up kns is)" and "dir_entries ino up kns is ! j = (i, k, n)"
  shows "path_of_ino m' i = Some (join path n)"
proof -
  define l where "l = j - 2"
  have len: "length is = length kns"
    using length_number_all [of ino_for "map (\<lambda>(k, n). join path n) kns" m] assms(2) by simp
  have j: "j = Suc (Suc l)" using assms(3) by (simp add: l_def)
  then have l: "l < length kns" "is ! l = i" "snd (kns ! l) = n"
    using assms(4,5) len by (auto simp: dir_entries_def case_prod_unfold)
  have "map (path_of_ino m') is = map Some (map (\<lambda>(k, n). join path n) kns)"
    using it.number_all_resolve [OF assms(1), of "map (\<lambda>(k, n). join path n) kns"] assms(2) by simp
  from arg_cong [OF this, of "\<lambda>xs. xs ! l"] l len show ?thesis by (simp add: case_prod_unfold)
qed

definition reply_part :: "nat \<Rightarrow> nat \<Rightarrow> (nat \<times> file_type \<times> string) list \<Rightarrow> (nat \<times> nat \<times> file_type \<times> string) list" where
  "reply_part offset room listed = take room (drop offset
     (map (\<lambda>(i, e). (case e of (child_ino, k, name) \<Rightarrow> (child_ino, i + 1, k, name))) (enumerate 0 listed)))"

lemma reply_part_nth:
  "j < length (reply_part offset room listed) \<Longrightarrow> reply_part offset room listed ! j =
    (case listed ! (offset + j) of (i, k, n) \<Rightarrow> (i, offset + j + 1, k, n)) \<and> offset + j < length listed"
proof -
  assume "j < length (reply_part offset room listed)"
  then have "offset + j < length listed" "j < room" "offset \<le> length listed" by (auto simp: reply_part_def)
  then show ?thesis by (simp add: reply_part_def nth_enumerate_eq case_prod_unfold)
qed

lemma length_reply_part: "length (reply_part offset room listed) = min room (length listed - offset)"
  by (simp add: reply_part_def min.commute)

lemma reply_part_parts:
  "map (\<lambda>(i, o', k, n). (k, n)) (reply_part offset room listed) =
    take room (drop offset (map (\<lambda>(i, k, n). (k, n)) listed))"
  "map (\<lambda>(i, o', k, n). o') (reply_part offset room listed) =
    map (\<lambda>j. offset + j + 1) [0..<length (reply_part offset room listed)]"
proof -
  have "map (\<lambda>x. snd (snd x)) (enumerate 0 listed) = map snd (map snd (enumerate 0 listed))"
    by (simp only: map_map comp_def)
  then have "map (\<lambda>x. snd (snd x)) (enumerate 0 listed) = map snd listed" by simp
  then show "map (\<lambda>(i, o', k, n). (k, n)) (reply_part offset room listed) =
      take room (drop offset (map (\<lambda>(i, k, n). (k, n)) listed))"
    by (simp add: reply_part_def take_map [symmetric] drop_map [symmetric] comp_def case_prod_unfold)
  show "map (\<lambda>(i, o', k, n). o') (reply_part offset room listed) =
      map (\<lambda>j. offset + j + 1) [0..<length (reply_part offset room listed)]"
    by (rule nth_equalityI) (simp_all add: reply_part_nth [THEN conjunct1] case_prod_unfold)
qed

lemma reply_part_in:
  assumes "(i, o', k, n) \<in> set (reply_part offset room listed)"
  obtains j where "o' = Suc j" and "j < length listed" and "listed ! j = (i, k, n)"
proof -
  obtain l where "l < length (reply_part offset room listed)"
    "reply_part offset room listed ! l = (i, o', k, n)"
    using assms by (auto simp: in_set_conv_nth)
  with reply_part_nth [of l offset room listed] that [of "offset + l"] show ?thesis
    by (cases "listed ! (offset + l)") auto
qed

lemma children_entries:
  "(ino, Directory, ''.'') # (up, Directory, ''..'') # map (\<lambda>(child, child_ino). (child_ino,
     case m_kind child of Dir \<Rightarrow> Directory | File \<Rightarrow> RegularFile, m_name child))
     (zip (map entry_meta rows) is) =
   dir_entries ino up (map (\<lambda>r. (if e_kind r = ''file'' then RegularFile else Directory, e_name r)) rows) is"
  by (simp add: dir_entries_def zip_map1 comp_def case_prod_unfold)

lemma readdir_answer:
  assumes "fs_inv s" and "rows_ok (tabs (fs_db s))" and "replica (fs_db s) = None"
    and "path_of_ino (inos s) ino = Some path" and "offset < 2 ^ 63"
    and run: "handle (Readdir ino (int offset) room) s = (R_directory es, s')"
    and kns: "kns = map (\<lambda>r. (if e_kind r = ''file'' then RegularFile else Directory, e_name r))
      (select_children path (tabs (fs_db s)))"
  shows "\<exists>up m ns. inodes_ok m \<and> root_ok m \<and> path_of_ino m up = Some (fst (split_path path)) \<and>
    number_all ino_for (map (\<lambda>(k, n). join path n) kns) m = (ns, inos s') \<and>
    es = reply_part offset room (dir_entries ino up kns ns)"
proof -
  have awake: "\<not> stalled s" using served_awake [OF _ run] by simp
  from run show ?thesis
    unfolding handle.simps fuse_readdir_def
  proof (rule callback_runs [OF awake])
    fix u v
    assume body: "with_path ino (\<lambda>path s. case parent_ino path (inos s) of (up, m) \<Rightarrow>
           on_db (list_dir path) (\<lambda>children s.
             case number_all ino_for (map (\<lambda>child. join path (m_name child)) children) (inos s) of
               (child_inos, m') \<Rightarrow>
                 let listed = (ino, Directory, ''.'') # (up, Directory, ''..'') #
                       map (\<lambda>(child, child_ino).
                         (child_ino, case m_kind child of Dir \<Rightarrow> Directory | File \<Rightarrow> RegularFile,
                          m_name child)) (zip children child_inos)
                 in (R_directory (take room (drop (i64_as_u64 (int offset))
                       (map (\<lambda>(i, e). (case e of (child_ino, k, name) \<Rightarrow> (child_ino, i + 1, k, name)))
                         (enumerate 0 listed)))), s\<lparr>inos := m'\<rparr>))
             (s\<lparr>inos := m\<rparr>)) u = (R_directory es, v)"
      and u: "core u = core s" "tabs (fs_db u) = tabs (fs_db s)" "replica (fs_db u) = replica (fs_db s)"
      and s': "s' = record_fuse_latency v"
    have i: "inos u = inos s" using u(1) by (simp add: core_def)
    obtain up m where up: "parent_ino path (inos s) = (up, m)" by force
    have m: "inodes_ok m \<and> root_ok m"
      using assms(1) it.alloc_good [of "inos s" "fst (split_path path)"] up
      by (simp add: fs_inv_def parent_ino_def)
    have parent: "path_of_ino m up = Some (fst (split_path path))"
      using assms(1) it.alloc_resolve [of "inos s" "fst (split_path path)"] up
      by (simp add: fs_inv_def parent_ino_def)
    have off: "i64_as_u64 (int offset) = offset" using assms(5) by (simp add: i64_as_u64_nonneg)
    obtain ms d where ld: "list_dir path (fs_db u) = (Inr ms, d)"
      using body assms(4) i up
      by (auto simp: with_path_def on_db_def split: prod.splits sum.splits dest: log_no_reply)
    then have ms: "ms = map entry_meta (select_children path (tabs (fs_db s)))"
      using list_primary_result [of "fs_db u"] list_dir_primary u(2,3) assms(2,3) by simp
    obtain ns m' where n: "number_all ino_for (map (\<lambda>(k, n). join path n) kns) m = (ns, m')" by force
    have "es = reply_part offset room (dir_entries ino up kns ns)" and "inos v = m'"
      using body [folded reply_part_def] assms(4) i up ld n
      by (auto simp: with_path_def on_db_def ms comp_def off children_entries kns)
    with m parent n s' show ?thesis by (auto simp: stable_record)
  qed (simp add: tally_def vitals_def idle_counts_def)
qed

text \<open>C20. A \<open>readdir\<close> that is answered, with no standby configured, lists from the offset asked for
  what the room allows of: the directory itself, its parent, and exactly its children in the
  order of their names, each with its kind; the entries are numbered for the next call, so
  that a listing can be resumed after any of them. The first entry has the inode asked for, the
  second one that stands for the path of the parent, and every child one that stands for the
  child's path.\<close>

theorem readdir_lists:
  assumes "fs_inv s" and "rows_ok (tabs (fs_db s))" and "replica (fs_db s) = None"
    and "path_of_ino (inos s) ino = Some path" and "offset < 2 ^ 63"
    and run: "handle (Readdir ino (int offset) room) s = (R_directory es, s')"
  shows "map (\<lambda>(i, o', k, n). (k, n)) es = take room (drop offset (listing (tabs (fs_db s)) path)) \<and>
    map (\<lambda>(i, o', k, n). o') es = map (\<lambda>j. offset + j + 1) [0..<length es] \<and>
    (\<forall>(i, o', k, n) \<in> set es. if o' = 1 then i = ino
       else path_of_ino (inos s') i = Some (if o' = 2 then fst (split_path path) else join path n))"
proof -
  let ?kns = "map (\<lambda>r. (if e_kind r = ''file'' then RegularFile else Directory, e_name r))
    (select_children path (tabs (fs_db s)))"
  from readdir_answer [OF assms refl] obtain up m ns where m: "inodes_ok m \<and> root_ok m"
    and up: "path_of_ino m up = Some (fst (split_path path))"
    and n: "number_all ino_for (map (\<lambda>(k, n). join path n) ?kns) m = (ns, inos s')"
    and es: "es = reply_part offset room (dir_entries ino up ?kns ns)" by blast
  have len: "length ns = length ?kns"
    using length_number_all [of ino_for "map (\<lambda>(k, n). join path n) ?kns" m] n by simp
  have "map (\<lambda>(i, o', k, n). (k, n)) es = take room (drop offset (listing (tabs (fs_db s)) path))"
    unfolding es reply_part_parts listing_def by (simp only: dir_entries_names [OF len])
  moreover have "map (\<lambda>(i, o', k, n). o') es = map (\<lambda>j. offset + j + 1) [0..<length es]"
    unfolding es by (rule reply_part_parts)
  moreover have "if o' = 1 then i = ino
      else path_of_ino (inos s') i = Some (if o' = 2 then fst (split_path path) else join path n)"
    if at: "(i, o', k, n) \<in> set es" for i o' k n
  proof -
    have up': "path_of_ino (inos s') up = Some (fst (split_path path))"
      using it.number_all_stable [OF m up, of "map (\<lambda>(k, n). join path n) ?kns"] by (simp only: n snd_conv)
    obtain j where j: "o' = Suc j" "j < length (dir_entries ino up ?kns ns)"
      "dir_entries ino up ?kns ns ! j = (i, k, n)"
      using reply_part_in [OF at [unfolded es]] by blast
    consider "j = 0" | "j = 1" | "2 \<le> j" by linarith
    then show ?thesis
    proof cases
      case 3
      with j dir_entries_resolve [OF m n, of j ino up i k n] show ?thesis by simp
    qed (use j up' in \<open>simp_all add: dir_entries_def\<close>)
  qed
  ultimately show ?thesis by auto
qed

theorem readdir_lists_witness:
  "\<exists>es s'. handle (Readdir 1 2 5) (demo_fs []) = (R_directory es, s') \<and>
     map (\<lambda>(i, o', k, n). (o', k, n)) es = [(3, Directory, ''docs'')] \<and>
     list_all (\<lambda>(i, o', k, n). path_of_ino (inos s') i = Some ''docs'') es"
proof -
  have rows: "rows_ok demo" using demo_well_formed by (simp add: well_formed_def tree_rows_ok)
  have child: "select_children '''' demo = [demo_entry '''' ''docs'' ''dir'' 0]"
    by (simp add: select_children_def demo_defs)
  have check: "check_liveness 0 statics_init = (True, statics_init\<lparr>last_beat_seen := 0,
      beat_deadline_at := HEARTBEAT_DEADLINE_MS\<rparr>)"
    by (simp add: check_liveness_def statics_init_def)
  have list: "list_dir '''' s = (Inr [entry_meta (demo_entry '''' ''docs'' ''dir'' 0)], record_latency s)"
    if "replica s = None" "tabs s = demo" "fates s = []" for s
    using list_dir_primary [OF that(1)] list_primary_calm [OF that(3)] meta_all_children [OF rows] that(2) child
    by simp
  obtain es s' where run: "handle (Readdir 1 (int 2) 5) (demo_fs []) = (R_directory es, s')"
    using check
    by (simp add: fuse_readdir_def callback_def latency_guard_def callback_preamble_def
        maybe_dump_state_def with_path_def on_db_def on_stats_def set_stats_def list Let_def case_prod_unfold)
  from readdir_lists [OF _ _ _ _ _ run, of "''''"] rows
  have "map (\<lambda>(i, o', k, n). (k, n)) es = [(Directory, ''docs'')]"
    and o: "map (\<lambda>(i, o', k, n). o') es = map (\<lambda>j. 2 + j + 1) [0..<length es]"
    and i: "\<forall>(i, o', k, n) \<in> set es. if o' = 1 then i = 1
      else path_of_ino (inos s') i = Some (if o' = 2 then fst (split_path []) else join [] n)"
    by (simp_all add: demo_fs_inv listing_def child demo_entry_def)
  then obtain i o' where "es = [(i, o', Directory, ''docs'')]" by (auto simp: map_eq_Cons_conv)
  with o i run show ?thesis by (auto simp: join_def)
qed

section \<open>Creating a file\<close>

lemma getattr_found_none:
  assumes "getattr_primary p n d = (Inr None, d1)" and "keys_ok (tabs d)" and "rows_ok (tabs d)"
  shows "tabs d1 = tabs d \<and> pg_now d1 = pg_now d \<and> ent (tabs d) (p, n) = None"
proof -
  have "getattr_primary p n (calm d) = (Inr None, calm d1)"
    using assms(1) by (rule ga.success_is_calm)
  then have c: "meta_opt (ent (tabs d) (p, n)) = Inr None" "record_latency (calm d) = calm d1"
    using getattr_primary_calm [of "calm d" p n] assms(2) by simp_all
  from arg_cong [OF c(2), of pg_now] c(1) meta_opt_entry [OF assms(3), of "(p, n)"]
    ga.tabs_same [of p n d] assms(1) show ?thesis by simp
qed

lemma fresh_handle: "fs_inv s \<Longrightarrow> map_of (open_handles s) (next_fh s) = None"
proof (cases "map_of (open_handles s) (next_fh s)")
  case (Some h)
  assume "fs_inv s"
  with Some have "next_fh s < next_fh s" unfolding fs_inv_def handles_ok_def by blast
  then show ?thesis by simp
qed

text \<open>A \<open>create\<close> that is answered with a file, whatever the network did, found the name free,
  inserted one empty file under it and nothing else, opened a handle on exactly that file with a
  number not used before, and its inode stands for the path.\<close>

theorem create_reply:
  assumes "fs_inv s" and "well_formed (tabs (fs_db s))" and "path_of_ino (inos s) parent = Some p"
    and "dir_path (tabs (fs_db s)) p" and "utf8_valid p" and "name_ok n"
    and run: "handle (Create parent n) s = (R_created ttl a fh, s')"
  shows "ent (tabs (fs_db s)) (p, n) = None \<and>
    inserted (tabs (fs_db s)) (p, n) ''file'' (pg_now (fs_db s)) (tabs (fs_db s')) \<and>
    well_formed (tabs (fs_db s')) \<and> a_size a = 0 \<and> a_kind a = RegularFile \<and>
    map_of (open_handles s) fh = None \<and> map_of (open_handles s') fh = Some (handle_new p n) \<and>
    path_of_ino (inos s') (a_ino a) = Some (join p n)"
proof -
  have awake: "\<not> stalled s" using served_awake [OF _ run] by simp
  let ?t = "tabs (fs_db s)"
  have keys: "keys_ok ?t" and rows: "rows_ok ?t"
    using assms(2) by (simp_all add: well_formed_def tree_keys_ok tree_rows_ok)
  from run show ?thesis
    unfolding handle.simps fuse_create_def
  proof (rule callback_runs [OF awake])
    fix u v
    assume body: "with_key parent n (\<lambda>p n. on_db (getattr_primary p n) (\<lambda>found s. case found of
           Some _ \<Rightarrow> (R_error EEXIST, s)
         | None \<Rightarrow> on_db (create p n) (\<lambda>_ s. case open_handle p n s of
             (fh, s1) \<Rightarrow> (case number (join p n) s1 of (ino, s2) \<Rightarrow>
               (R_created (attr_ttl s2) (file_attr ino 0 (wall_clock s2) (owner s2)) fh, s2))) s)) u =
         (R_created ttl a fh, v)"
      and u: "core u = core s" "tabs (fs_db u) = ?t" "pg_now (fs_db u) = pg_now (fs_db s)"
      and s': "s' = record_fuse_latency v"
    have at_u: "inos u = inos s" "next_fh u = next_fh s" "open_handles u = open_handles s"
      using u(1) by (simp_all add: core_def)
    then have "to_str n = Some n \<and> path_of_ino (inos u) parent = Some p"
      using body assms(3) by (auto simp: with_key_def resolve_def to_str_def split: if_splits)
    then have key: "with_key parent n k u = k p n u" for k by (simp add: with_key_def resolve_def)
    obtain d1 d2 where d1: "getattr_primary p n (fs_db u) = (Inr None, d1)"
      and d2: "create p n d1 = (Inr (), d2)"
      and v: "(case open_handle p n (u\<lparr>fs_db := d2\<rparr>) of (fh, s1) \<Rightarrow> (case number (join p n) s1 of (ino, s2) \<Rightarrow>
          (R_created (attr_ttl s2) (file_attr ino 0 (wall_clock s2) (owner s2)) fh, s2))) = (R_created ttl a fh, v)"
      using body unfolding key
      by (auto simp: on_db_def split: prod.splits sum.splits option.splits dest: log_no_reply)
    have t: "tabs d1 = ?t" "pg_now d1 = pg_now (fs_db s)" "ent ?t (p, n) = None"
      using getattr_found_none [OF d1] keys rows u(2,3) by simp_all
    let ?w = "snd (open_handle p n (u\<lparr>fs_db := d2\<rparr>))"
    have "core (u\<lparr>fs_db := d2\<rparr>) = core s" using u(1) by simp
    then have w: "fs_inv ?w" using assms(1) stableD [OF stable_inv] by (intro inv_open_handle) blast
    have "fh = next_fh s" "v = snd (number (join p n) ?w)"
      "a = file_attr (fst (number (join p n) ?w)) 0 (wall_clock v) (owner v)"
      using v at_u by (auto simp: open_handle_def split: prod.splits)
    moreover have "map_of (open_handles s) (next_fh s) = None" using assms(1) by (rule fresh_handle)
    moreover have "map_of (open_handles v) (next_fh s) = Some (handle_new p n)" "fs_db v = d2"
      using \<open>v = _\<close> at_u by (simp_all add: number_def open_handle_def update_conv' split: prod.split)
    moreover have "well_formed (tabs d2)" "inserted ?t (p, n) ''file'' (pg_now (fs_db s)) (tabs d2)"
      using insert_op_correct [OF _ _ assms(5,6) _ create_def cr.atomic_op_axioms d2] assms(2,4) t by simp_all
    ultimately show ?thesis
      using t(3) number_resolves [OF w, of "join p n"] s'
      by (simp add: stable_record) (simp add: file_attr_def)
    qed (simp add: tally_def vitals_def idle_counts_def)
qed


theorem create_reply_witness:
  "\<exists>ttl a s'. handle (Create 1 ''b'') (demo_fs []) = (R_created ttl a 1, s') \<and>
     inserted demo ('''', ''b'') ''file'' 0 (tabs (fs_db s')) \<and>
     map_of (open_handles s') 1 = Some (handle_new '''' ''b'')"
proof -
  have check: "check_liveness 0 statics_init = (True, statics_init\<lparr>last_beat_seen := 0,
      beat_deadline_at := HEARTBEAT_DEADLINE_MS\<rparr>)"
    by (simp add: check_liveness_def statics_init_def)
  have none: "ent demo ('''', ''b'') = None" by (simp add: ent_def demo_defs entry_key_def)
  have calm: "getattr_primary '''' ''b'' s = (Inr None, record_latency s)"
    "\<exists>s'. create '''' ''b'' s = (Inr (), s')" if "fates s = []" "tabs s = demo" for s
    using getattr_primary_calm [OF that(1)] create_calm [OF that(1)] that(2) demo_keys none
    by (simp_all add: meta_opt_def)
  let ?d = "\<lambda>s. record_latency (fs_db (on_stats (\<lambda>m. m\<lparr>create_count := bump (create_count m)\<rparr>) s))"
  obtain r s' where run: "handle (Create 1 ''b'') (demo_fs []) = (r, s')" by force
  have "\<exists>ttl a. r = R_created ttl a 1"
    using run check calm(2)
      [of "?d (set_stats (statics_init\<lparr>last_beat_seen := 0, beat_deadline_at := HEARTBEAT_DEADLINE_MS\<rparr>) (demo_fs []))"]
    by (auto simp: fuse_create_def callback_def latency_guard_def callback_preamble_def
        maybe_dump_state_def with_key_def resolve_def to_str_def byte_in_def on_db_def
        on_stats_def set_stats_def calm(1) open_handle_def demo_fs_def with_attr_ttl_def
        Let_def root_resolves [unfolded One_nat_def] inodes_init_def path_of_ino_def ROOT_INO_def ROOT_PATH_def
        split: prod.splits)
  then obtain ttl a where r: "r = R_created ttl a 1" by blast
  have "dir_path demo ''''" "name_ok ''b''"
    by (simp_all add: dir_path_def name_ok_def plain_name_def byte_in_def)
  with create_reply [OF _ _ _ _ _ _ run [unfolded r], of "''''"] run r demo_well_formed show ?thesis
    by (simp add: demo_fs_inv)
qed

end
