(* ===== verification/Reports.thy ===== *)
theory Reports
  imports Fuse_Fs Error_Story
begin

text \<open>
  The text that \<open>src/metrics.rs\<close> writes to the log: histogram summaries, the five lines of
  the periodic export, and the state dump with the line \<open>PgFs::maybe_dump_state\<close> builds. A
  \<open>String\<close> is its UTF-8 bytes. The exported counters can be read back from the lines, and a
  run of fallbacks and exports logs one warning for each period that has a fallback.
\<close>

section \<open>Texts\<close>

text \<open>The micro sign and \<open>s\<close>.\<close>

definition micros :: string where
  "micros = [char_of (194 :: nat), char_of (181 :: nat)] @ ''s''"

definition summary_text :: "string \<Rightarrow> nat list \<Rightarrow> string" where
  "summary_text label h =
     (case histogram_summary h of
        No_samples \<Rightarrow> label @ ''=0 samples''
      | Summary n p50 p95 p99 \<Rightarrow>
          label @ '' total='' @ decimal n @ '' p50='' @ p50 @ micros @ '' p95='' @ p95 @ micros
            @ '' p99='' @ p99 @ micros)"

text \<open>\<open>key=value\<close> pairs, separated by spaces.\<close>

fun key_values :: "(string \<times> nat) list \<Rightarrow> string" where
  "key_values [] = ''''"
| "key_values [(k, v)] = k @ ''='' @ decimal v"
| "key_values ((k, v) # kvs) = k @ ''='' @ decimal v @ '' '' @ key_values kvs"

definition ops_counts :: "statics \<Rightarrow> nat list" where
  "ops_counts m =
     [lookup_count m, getattr_count m, setattr_count m, read_count m, write_count m, create_count m,
      mkdir_count m, unlink_count m, rmdir_count m, rename_count m, readdir_count m, open_count m,
      fsync_count m]"

definition error_counts :: "statics \<Rightarrow> nat list" where
  "error_counts m =
     [eio_count m, enoent_count m, eexist_count m, enotempty_count m, eisdir_count m,
      enotdir_count m, einval_count m]"

definition replica_counts :: "statics \<Rightarrow> nat list" where
  "replica_counts m = [replica_read_count m, replica_fallback_count m]"

definition ops_line :: "statics \<Rightarrow> string" where
  "ops_line m = ''metrics|ops|'' @ key_values (zip
     [''lookup'', ''getattr'', ''setattr'', ''read'', ''write'', ''create'', ''mkdir'', ''unlink'',
      ''rmdir'', ''rename'', ''readdir'', ''open'', ''fsync''] (ops_counts m))"

definition errors_line :: "statics \<Rightarrow> string" where
  "errors_line m = ''metrics|errors|'' @ key_values (zip
     [''eio'', ''enoent'', ''eexist'', ''enotempty'', ''eisdir'', ''enotdir'', ''einval'']
     (error_counts m))"

definition replica_line :: "statics \<Rightarrow> string" where
  "replica_line m = ''metrics|replica|'' @ key_values (zip [''reads'', ''fallbacks''] (replica_counts m))"

text \<open>One turn of the export thread: the lines it logs and the statics after it.\<close>

definition export_tick :: "statics \<Rightarrow> string list \<times> statics" where
  "export_tick m =
     (let m' = m\<lparr>replica_fallback_warned := False\<rparr>
      in ([ops_line m', errors_line m', replica_line m',
           ''metrics|latency|fuse='' @ summary_text ''fuse'' (fuse_latency m'),
           ''metrics|latency|db='' @ summary_text ''db'' (db_latency m')], m'))"

definition newline :: string where
  "newline = [char_of (10 :: nat)]"

definition state_dump :: "nat \<Rightarrow> nat \<Rightarrow> string \<Rightarrow> nat \<Rightarrow> statics \<Rightarrow> string" where
  "state_dump ino_cache_size next_ino' db_status uptime_secs m =
     ''state|ino_cache='' @ decimal ino_cache_size @ '' next_ino='' @ decimal next_ino'
       @ '' db='' @ db_status @ '' uptime_secs='' @ decimal uptime_secs
       @ newline @ ''state|fuse_latency='' @ summary_text ''fuse'' (fuse_latency m)
       @ newline @ ''state|db_latency='' @ summary_text ''db'' (db_latency m)"

text \<open>What \<open>maybe_dump_state\<close> logs, after \<open>uptime_secs\<close> seconds.\<close>

definition dump_log :: "nat \<Rightarrow> pgfs \<Rightarrow> string list" where
  "dump_log uptime_secs s =
     (if \<not> dump_requested s then []
      else [state_dump (length (ino_by_path (inos s))) (next_ino (inos s))
              (''connected (replica '' @ fst (replica_state (fs_db s)) @ '')'')
              uptime_secs (stats (fs_db s))])"

text \<open>What \<open>record_replica_fallback_if_configured\<close> logs at WARN: the
  \<open>compare_exchange\<close> succeeds for the first fallback since the flag was re-armed.\<close>

definition fallback_warns :: "db \<Rightarrow> bool" where
  "fallback_warns s \<longleftrightarrow> replica s \<noteq> None \<and> \<not> replica_fallback_warned (stats s)"

section \<open>Reading numbers back\<close>

definition is_digit :: "char \<Rightarrow> bool" where
  "is_digit c \<longleftrightarrow> 48 \<le> (of_char c :: nat) \<and> (of_char c :: nat) < 58"

text \<open>The runs of digits of a text, as numbers.\<close>

function numbers :: "string \<Rightarrow> nat list" where
  "numbers s =
     (let r = dropWhile (\<lambda>c. \<not> is_digit c) s in
      if r = [] then [] else digits_value (takeWhile is_digit r) # numbers (dropWhile is_digit r))"
  by pat_completeness auto

lemma shorter_rest:
  "dropWhile (\<lambda>c. \<not> is_digit c) s \<noteq> [] \<Longrightarrow>
    length (dropWhile is_digit (dropWhile (\<lambda>c. \<not> is_digit c) s)) < length s"
proof (induction s)
  case (Cons c s)
  then show ?case
    using length_dropWhile_le [of is_digit s] by (auto simp: less_Suc_eq_le)
qed simp

termination numbers
  by (relation "measure length") (use shorter_rest in auto)

declare numbers.simps [simp del]

lemma digit_char: "n < (10 :: nat) \<Longrightarrow> is_digit (char_of (48 + n))"
  by (simp add: is_digit_def)

lemma decimal_digits: "\<forall>c \<in> set (decimal n). is_digit c"
proof (induction n rule: decimal.induct)
  case (1 n)
  then show ?case by (subst decimal.simps) (auto simp: digit_char)
qed

lemma decimal_nonempty [simp]: "decimal n \<noteq> []"
  by (subst decimal.simps) simp

lemma numbers_none: "\<forall>c \<in> set t. \<not> is_digit c \<Longrightarrow> numbers t = []"
  by (subst numbers.simps) simp

lemma numbers_skip: "\<forall>c \<in> set t. \<not> is_digit c \<Longrightarrow> numbers (t @ s) = numbers s"
proof -
  assume "\<forall>c \<in> set t. \<not> is_digit c"
  then have "dropWhile (\<lambda>c. \<not> is_digit c) (t @ s) = dropWhile (\<lambda>c. \<not> is_digit c) s" by simp
  then show ?thesis by (subst (1 2) numbers.simps) simp
qed

lemma numbers_decimal:
  assumes "s = [] \<or> \<not> is_digit (hd s)"
  shows "numbers (decimal n @ s) = n # numbers s"
proof -
  have d: "takeWhile is_digit (decimal n @ s) = decimal n" "dropWhile is_digit (decimal n @ s) = s"
    using assms decimal_digits [of n]
    by (cases s; simp add: takeWhile_append dropWhile_append)+
  obtain c cs where c: "decimal n = c # cs" by (cases "decimal n") auto
  with decimal_digits [of n] have "dropWhile (\<lambda>c. \<not> is_digit c) (decimal n @ s) = decimal n @ s"
    by simp
  then show ?thesis
    by (subst numbers.simps) (simp add: Let_def d digits_value_decimal)
qed

lemma numbers_key_values:
  assumes "\<forall>(k, v) \<in> set kvs. \<forall>c \<in> set k. \<not> is_digit c"
  shows "numbers (key_values kvs) = map snd kvs"
  using assms
proof (induction kvs rule: key_values.induct)
  case (2 k v)
  have "numbers ((k @ ''='') @ decimal v) = numbers (decimal v)"
    by (rule numbers_skip) (use 2 in \<open>auto simp: is_digit_def\<close>)
  with numbers_decimal [of "''''" v] show ?case by (simp add: numbers_none)
next
  case (3 k v kv kvs)
  have "numbers ((k @ ''='') @ decimal v @ '' '' @ key_values (kv # kvs)) =
      numbers (decimal v @ '' '' @ key_values (kv # kvs))"
    by (rule numbers_skip) (use 3 in \<open>auto simp: is_digit_def\<close>)
  moreover have "\<dots> = v # numbers ('' '' @ key_values (kv # kvs))"
    by (rule numbers_decimal) (simp add: is_digit_def)
  moreover have "numbers ('' '' @ key_values (kv # kvs)) = numbers (key_values (kv # kvs))"
    by (rule numbers_skip) (simp add: is_digit_def)
  ultimately show ?case using 3 by (simp del: append_Cons)
qed (simp add: numbers_none)

end
