(* ===== verification/Reports_Correct.thy ===== *)
theory Reports_Correct
  imports Reports Sessions_Correct
begin

text \<open>
  What the log tells about the daemon: the exported lines carry the counters, a period with
  fallbacks logs one warning, and five of the error counters never move.
\<close>

section \<open>The exported counters\<close>

lemma numbers_line:
  assumes "\<forall>c \<in> set pre. \<not> is_digit c" and "\<forall>k \<in> set ks. \<forall>c \<in> set k. \<not> is_digit c"
    and "length ks = length vs"
  shows "numbers (pre @ key_values (zip ks vs)) = vs"
proof -
  have "\<forall>(k, v) \<in> set (zip ks vs). \<forall>c \<in> set k. \<not> is_digit c"
    using assms(2) by (auto dest: set_zip_leftD)
  with assms show ?thesis by (simp add: numbers_skip numbers_key_values)
qed

lemma numbers_errors: "numbers (errors_line m) = error_counts m"
  unfolding errors_line_def by (rule numbers_line) (simp_all add: is_digit_def error_counts_def)

section \<open>Reading a line\<close>

text \<open>What a reader of the log does with an exported line: cut it at the bars, the last part at
  the spaces, and each field at its equals sign.\<close>

fun cut :: "char \<Rightarrow> string \<Rightarrow> string list" where
  "cut c [] = [[]]"
| "cut c (x # xs) = (if x = c then [] # cut c xs else (x # hd (cut c xs)) # tl (cut c xs))"

definition read_field :: "string \<Rightarrow> string \<times> nat" where
  "read_field w = (hd (cut CHR ''='' w), digits_value (last (cut CHR ''='' w)))"

definition read_line :: "string \<Rightarrow> string list \<times> (string \<times> nat) list" where
  "read_line s =
     (butlast (cut CHR ''|'' s), map read_field (cut CHR '' '' (last (cut CHR ''|'' s))))"

lemma cut_none: "c \<notin> set s \<Longrightarrow> cut c s = [s]"
  by (induction s) auto

lemma cut_at: "c \<notin> set s \<Longrightarrow> cut c (s @ c # t) = s # cut c t"
  by (induction s) auto

definition plain_key :: "string \<Rightarrow> bool" where
  "plain_key k \<longleftrightarrow> CHR '' '' \<notin> set k \<and> CHR ''='' \<notin> set k \<and> CHR ''|'' \<notin> set k"

lemma decimal_plain: "plain_key (decimal n)"
proof -
  have "\<not> is_digit CHR '' ''" "\<not> is_digit CHR ''=''" "\<not> is_digit CHR ''|''"
    by (simp_all add: is_digit_def)
  with decimal_digits [of n] show ?thesis unfolding plain_key_def by blast
qed

lemma read_field_key: "plain_key k \<Longrightarrow> read_field (k @ CHR ''='' # decimal v) = (k, v)"
  using decimal_plain [of v]
  by (simp add: read_field_def plain_key_def cut_at cut_none digits_value_decimal)

lemma read_key_values:
  "kvs \<noteq> [] \<Longrightarrow> \<forall>kv \<in> set kvs. plain_key (fst kv) \<Longrightarrow>
    map read_field (cut CHR '' '' (key_values kvs)) = kvs \<and> CHR ''|'' \<notin> set (key_values kvs)"
proof (induction kvs rule: key_values.induct)
  case (2 k v)
  then show ?case
    using read_field_key [of k v] decimal_plain [of v] by (simp add: plain_key_def cut_none)
next
  case (3 k v kv kvs)
  have "CHR '' '' \<notin> set (k @ CHR ''='' # decimal v)" "CHR ''|'' \<notin> set (k @ CHR ''='' # decimal v)"
    using 3(3) decimal_plain [of v] by (simp_all add: plain_key_def)
  with 3 read_field_key [of k v]
    cut_at [of "CHR '' ''" "k @ CHR ''='' # decimal v" "key_values (kv # kvs)"] show ?case by simp
qed simp

lemma read_metrics_line:
  assumes "kvs \<noteq> []" and "list_all (\<lambda>kv. plain_key (fst kv)) kvs" and "CHR ''|'' \<notin> set part"
  shows "read_line (''metrics|'' @ part @ CHR ''|'' # key_values kvs) = ([''metrics'', part], kvs)"
  using read_key_values [OF assms(1)] assms(2) cut_at [OF assms(3), of "key_values kvs"]
  by (simp add: read_line_def cut_none list_all_iff)

lemma read_ops: "read_line (ops_line m) = ([''metrics'', ''ops''],
    zip [''lookup'', ''getattr'', ''setattr'', ''read'', ''write'', ''create'', ''mkdir'', ''unlink'',
      ''rmdir'', ''rename'', ''readdir'', ''open'', ''fsync''] (ops_counts m))" (is "_ = (_, ?kvs)")
  using read_metrics_line [of ?kvs "''ops''"]
  by (simp add: ops_line_def ops_counts_def plain_key_def del: key_values.simps)

lemma read_errors: "read_line (errors_line m) = ([''metrics'', ''errors''],
    zip [''eio'', ''enoent'', ''eexist'', ''enotempty'', ''eisdir'', ''enotdir'', ''einval'']
      (error_counts m))" (is "_ = (_, ?kvs)")
  using read_metrics_line [of ?kvs "''errors''"]
  by (simp add: errors_line_def error_counts_def plain_key_def del: key_values.simps)

lemma read_replica: "read_line (replica_line m) = ([''metrics'', ''replica''],
    zip [''reads'', ''fallbacks''] (replica_counts m))" (is "_ = (_, ?kvs)")
  using read_metrics_line [of ?kvs "''replica''"]
  by (simp add: replica_line_def replica_counts_def plain_key_def del: key_values.simps)

text \<open>C32. A reader of the first three lines of an export finds in them every counter under its
  name: the thirteen operations, the seven errors, the reads of the standby and the fallbacks.
  The export changes nothing but the flag that lets the next fallback be reported.\<close>

theorem exports_read_back:
  "map read_line (take 3 (fst (export_tick m))) =
     [([''metrics'', ''ops''],
       [(''lookup'', lookup_count m), (''getattr'', getattr_count m), (''setattr'', setattr_count m),
        (''read'', read_count m), (''write'', write_count m), (''create'', create_count m),
        (''mkdir'', mkdir_count m), (''unlink'', unlink_count m), (''rmdir'', rmdir_count m),
        (''rename'', rename_count m), (''readdir'', readdir_count m), (''open'', open_count m),
        (''fsync'', fsync_count m)]),
      ([''metrics'', ''errors''],
       [(''eio'', eio_count m), (''enoent'', enoent_count m), (''eexist'', eexist_count m),
        (''enotempty'', enotempty_count m), (''eisdir'', eisdir_count m), (''enotdir'', enotdir_count m),
        (''einval'', einval_count m)]),
      ([''metrics'', ''replica''],
       [(''reads'', replica_read_count m), (''fallbacks'', replica_fallback_count m)])] \<and>
   snd (export_tick m) = m\<lparr>replica_fallback_warned := False\<rparr>"
  by (simp add: export_tick_def Let_def numeral_3_eq_3 read_ops read_errors read_replica)
    (simp add: ops_counts_def error_counts_def replica_counts_def)

section \<open>Warnings of fallbacks\<close>

datatype log_event = Fallback | Export

text \<open>The warnings that a run of fallbacks and exports logs.\<close>

fun warnings :: "log_event list \<Rightarrow> db \<Rightarrow> nat" where
  "warnings [] s = 0"
| "warnings (Fallback # es) s =
     (if fallback_warns s then 1 else 0) + warnings es (record_replica_fallback_if_configured s)"
| "warnings (Export # es) s = warnings es (s\<lparr>stats := snd (export_tick (stats s))\<rparr>)"

text \<open>The run cut at its exports.\<close>

fun periods :: "log_event list \<Rightarrow> log_event list list" where
  "periods [] = [[]]"
| "periods (Export # es) = [] # periods es"
| "periods (Fallback # es) = (Fallback # hd (periods es)) # tl (periods es)"

lemma warnings_single: "replica s = None \<Longrightarrow> warnings es s = 0"
  by (induction es s rule: warnings.induct)
    (simp_all add: fallback_warns_def record_replica_fallback_if_configured_def)

lemma periods_nonempty [simp]: "periods es \<noteq> []"
  by (cases es rule: periods.cases) simp_all

lemma warnings_periods:
  "replica s \<noteq> None \<Longrightarrow>
    warnings es s = length (filter (\<lambda>p. Fallback \<in> set p)
      (if replica_fallback_warned (stats s) then tl (periods es) else periods es))"
proof (induction es s rule: warnings.induct)
  case (2 es s)
  let ?s' = "record_replica_fallback_if_configured s"
  have "replica ?s' \<noteq> None" "replica_fallback_warned (stats ?s')"
    using 2(2) by (auto simp: record_replica_fallback_if_configured_def)
  with 2 have "warnings es ?s' = length (filter (\<lambda>p. Fallback \<in> set p) (tl (periods es)))" by simp
  with 2(2) show ?case by (auto simp: fallback_warns_def)
next
  case (3 es s)
  then show ?case by (cases "periods es") (simp_all add: export_tick_def Let_def)
qed simp

text \<open>However fallbacks and exports alternate, each period between two exports in which
  a read fell back logs exactly one warning, the period under way included unless it has
  been reported before; without a standby there is no warning.\<close>

theorem one_warning_per_period:
  "warnings es s =
     (if replica s = None then 0
      else length (filter (\<lambda>p. Fallback \<in> set p)
        (if replica_fallback_warned (stats s) then tl (periods es) else periods es)))"
  using warnings_single warnings_periods by simp

section \<open>Counters that never move\<close>

lemma idle_counts_on_stats:
  "idle_counts (heartbeat m) = idle_counts m"
  "idle_counts (m\<lparr>replica_fallback_warned := b\<rparr>) = idle_counts m"
  by (simp_all add: idle_counts_def heartbeat_def)

lemma release_idle: "fuse_release ino fh s = (r, s') \<Longrightarrow> idle_counts (st s') = idle_counts (st s)"
proof -
  assume run: "fuse_release ino fh s = (r, s')"
  obtain h_id x u where f: "flush_at h_id s = (x, u)" and "fs_db s' = fs_db u"
    using run by (fastforce simp: fuse_release_def Let_def intro: prod.collapse [symmetric])
  with accounts_flush_at [OF f] show ?thesis by (simp add: vitals_def)
qed

lemma step_idle: "fs_step s ev s' \<Longrightarrow> idle_counts (st s') = idle_counts (st s)"
proof (induction rule: fs_step.induct)
  case (serve rq s r s')
  show ?case
  proof (cases "checked rq")
    case True
    with watched_handle serve(2) show ?thesis unfolding watched_def by blast
  next
    case False
    then obtain ino fh where "rq = Release ino fh" by (cases rq) auto
    with serve(2) release_idle show ?thesis by simp
  qed
qed (simp_all add: on_stats_def set_stats_def idle_counts_on_stats)

lemma run_idle: "fs_run s evs s' \<Longrightarrow> idle_counts (st s') = idle_counts (st s)"
  by (induction rule: fs_run.induct) (simp_all add: step_idle)

lemma five: "replicate 5 (0 :: nat) = [0, 0, 0, 0, 0]"
  by (simp add: numeral_eq_Suc)

text \<open>Whatever errors a session replies to its requests, the exported error line shows
  zero for \<open>EEXIST\<close>, \<open>ENOTEMPTY\<close>, \<open>EISDIR\<close>, \<open>ENOTDIR\<close> and \<open>EINVAL\<close>: nothing increments those
  counters.\<close>

theorem unused_counters:
  assumes "idle_counts (stats (fs_db s)) = replicate 5 0" and "fs_run s evs s'"
  shows "numbers (errors_line (stats (fs_db s'))) =
    [eio_count (stats (fs_db s')), enoent_count (stats (fs_db s')), 0, 0, 0, 0, 0]"
  using run_idle [OF assms(2)] assms(1)
  by (simp add: numbers_errors error_counts_def idle_counts_def five)

theorem unused_counters_witness:
  "\<exists>s'. fs_run (demo_fs []) [(Rename 1 ''docs'' 1 ''d'' 1, R_error EINVAL)] s' \<and>
     drop 2 (numbers (errors_line (stats (fs_db s')))) = [0, 0, 0, 0, 0]"
proof -
  obtain s' where "handle (Rename 1 ''docs'' 1 ''d'' 1) (demo_fs []) = (R_error EINVAL, s')"
    by (simp add: fuse_rename_def callback_def latency_guard_def callback_preamble_def
        maybe_dump_state_def on_stats_def set_stats_def check_liveness_def statics_init_def)
  then have "fs_step (demo_fs []) (Some (Rename 1 ''docs'' 1 ''d'' 1, R_error EINVAL)) s'"
    by (intro fs_step.serve) (simp_all add: to_str_def byte_in_def)
  then have run: "fs_run (demo_fs []) [(Rename 1 ''docs'' 1 ''d'' 1, R_error EINVAL)] s'"
    by (rule fs_run.answered) (rule fs_run.over)
  have "idle_counts (stats (fs_db (demo_fs []))) = replicate 5 0"
    by (simp add: idle_counts_def statics_init_def five)
  from unused_counters [OF this run] have "drop 2 (numbers (errors_line (stats (fs_db s')))) = [0, 0, 0, 0, 0]"
    by (simp only: drop_Suc_Cons drop_0 numeral_2_eq_2)
  with run show ?thesis by blast
qed

end
