(* ===== verification/Db_Connect.thy ===== *)
theory Db_Connect
  imports Postgres
begin

text \<open>
  How the daemon gets its \<open>Db\<close>: \<open>DbCustomizer::on_acquire\<close>, which creates the schema on
  every new connection of the primary pool, \<open>DbPool::connect_opts\<close>, \<open>DbPool::get\<close> and
  \<open>Db::connect_opts\<close>. The \<open>postgres\<close> and \<open>r2d2\<close> crates are arguments: \<open>parse\<close> reads a
  connection string, \<open>build\<close> builds a pool from the customizer's flag, the size and a
  configuration, \<open>acquire\<close> takes a connection, \<open>prepare\<close> prepares a statement on one.
\<close>

section \<open>The schema\<close>

text \<open>A table of the server: whether it is \<open>UNLOGGED\<close>, and its rows.\<close>

type_synonym 'r table = "(bool \<times> 'r list) option"

record schema =
  entries_table :: "entry table"
  blocks_table :: "block table"

text \<open>\<open>CREATE [UNLOGGED] TABLE IF NOT EXISTS\<close>\<close>

definition create_table :: "bool \<Rightarrow> 'r table \<Rightarrow> 'r table" where
  "create_table unlogged t = (case t of None \<Rightarrow> Some (unlogged, []) | Some rows \<Rightarrow> Some rows)"

text \<open>
  The batch is one transaction and a \<open>SET\<close> after it. It is refused as a whole, or carried
  out; then its error, if any, comes after the commit. The result is whether the
  connection may join the pool.
\<close>

definition on_acquire :: "bool \<Rightarrow> fate \<Rightarrow> schema \<Rightarrow> bool \<times> schema" where
  "on_acquire unlogged fate sc =
     (let created = sc\<lparr>entries_table := create_table unlogged (entries_table sc),
                       blocks_table := create_table unlogged (blocks_table sc)\<rparr>
      in case fate of
           Served \<Rightarrow> (True, created)
         | Refused \<Rightarrow> (False, sc)
         | Reply_lost \<Rightarrow> (False, created))"

text \<open>The connections a pool opens over its life, whatever becomes of each.\<close>

definition acquisitions :: "(bool \<times> fate) list \<Rightarrow> schema \<Rightarrow> schema" where
  "acquisitions cs sc = fold (\<lambda>(unlogged, fate) sc. snd (on_acquire unlogged fate sc)) cs sc"

section \<open>Pools\<close>

datatype connect_error =
    Invalid_conn_string string
  | No_primary_pool
  | No_primary_connection
  | Prepare_failed string

record 'pool db_pool =
  primary_pool :: 'pool
  replica_pool :: "'pool option"

definition pool_connect_opts ::
  "(string \<Rightarrow> 'cfg option) \<Rightarrow> (bool option \<Rightarrow> nat \<Rightarrow> 'cfg \<Rightarrow> 'pool option) \<Rightarrow>
    string \<Rightarrow> string option \<Rightarrow> bool \<Rightarrow> nat \<Rightarrow> connect_error + 'pool db_pool"
where
  "pool_connect_opts parse build conn_str replica_conn unlogged max_size =
     (case parse conn_str of
        None \<Rightarrow> Inl (Invalid_conn_string conn_str)
      | Some config \<Rightarrow>
          (case build (Some unlogged) max_size config of
             None \<Rightarrow> Inl No_primary_pool
           | Some primary \<Rightarrow>
               Inr \<lparr>primary_pool = primary,
                    replica_pool =
                      (case replica_conn of
                         Some s \<Rightarrow> (case parse s of Some c \<Rightarrow> build None max_size c | None \<Rightarrow> None)
                       | None \<Rightarrow> None)\<rparr>))"

section \<open>Statements\<close>

text \<open>The empty SQL literal.\<close>

definition no_bytes :: string where
  "no_bytes = [CHR 0x27, CHR 0x27]"

text \<open>The statements \<open>DbPool::get\<close> prepares, in order: the name and the text of each.\<close>

definition statements :: "(string \<times> string) list" where
  "statements =
     [(''stmt_getattr'',
       ''SELECT name, kind, size, mtime FROM entries WHERE parent = $1 AND name = $2''),
      (''stmt_create'',
       ''INSERT INTO entries (parent, name, kind, data, size) VALUES ($1, $2, 'file', '' @ no_bytes @ '', 0) ON CONFLICT (parent, name) DO NOTHING''),
      (''stmt_mkdir'',
       ''INSERT INTO entries (parent, name, kind, data, size) VALUES ($1, $2, 'dir', '' @ no_bytes @ '', 0) ON CONFLICT (parent, name) DO NOTHING''),
      (''stmt_unlink'', ''DELETE FROM entries WHERE parent = $1 AND name = $2''),
      (''stmt_rmdir'', ''DELETE FROM entries WHERE parent = $1 AND name = $2''),
      (''stmt_list'',
       ''SELECT name, kind, size, mtime FROM entries WHERE parent = $1 ORDER BY name''),
      (''stmt_read_blocks'',
       ''SELECT block_no, data FROM blocks WHERE parent = $1 AND name = $2 AND block_no >= $3 AND block_no <= $4 ORDER BY block_no''),
      (''stmt_upsert_block'',
       ''INSERT INTO blocks (parent, name, block_no, data) VALUES ($1, $2, $3, $4) ON CONFLICT (parent, name, block_no) DO UPDATE SET data = EXCLUDED.data''),
      (''stmt_prune_blocks'',
       ''DELETE FROM blocks WHERE parent = $1 AND name = $2 AND block_no > $3''),
      (''stmt_delete_blocks'', ''DELETE FROM blocks WHERE parent = $1 AND name = $2'')]"

fun prepare_all ::
  "('conn \<Rightarrow> string \<Rightarrow> bool) \<Rightarrow> 'conn \<Rightarrow> (string \<times> string) list \<Rightarrow> connect_error option"
where
  "prepare_all prepare client [] = None"
| "prepare_all prepare client ((stmt, sql) # rest) =
     (if prepare client sql then prepare_all prepare client rest else Some (Prepare_failed stmt))"

text \<open>\<open>struct Db\<close> as it is built: its connections and the empty freshness cache.\<close>

record 'conn db_clients =
  client :: 'conn
  replica_client :: "'conn option"
  cached_verdict :: bool
  checked_at :: "nat option"

definition pool_get ::
  "('pool \<Rightarrow> 'conn option) \<Rightarrow> ('conn \<Rightarrow> string \<Rightarrow> bool) \<Rightarrow> 'pool db_pool \<Rightarrow>
    connect_error + 'conn db_clients"
where
  "pool_get acquire prepare pool =
     (case acquire (primary_pool pool) of
        None \<Rightarrow> Inl No_primary_connection
      | Some c \<Rightarrow>
          (case prepare_all prepare c statements of
             Some e \<Rightarrow> Inl e
           | None \<Rightarrow>
               Inr \<lparr>client = c,
                    replica_client =
                      (case replica_pool pool of Some p \<Rightarrow> acquire p | None \<Rightarrow> None),
                    cached_verdict = False, checked_at = None\<rparr>))"

definition db_connect_opts ::
  "(string \<Rightarrow> 'cfg option) \<Rightarrow> (bool option \<Rightarrow> nat \<Rightarrow> 'cfg \<Rightarrow> 'pool option) \<Rightarrow>
    ('pool \<Rightarrow> 'conn option) \<Rightarrow> ('conn \<Rightarrow> string \<Rightarrow> bool) \<Rightarrow>
    string \<Rightarrow> string option \<Rightarrow> bool \<Rightarrow> connect_error + 'conn db_clients"
where
  "db_connect_opts parse build acquire prepare conn_str replica_conn unlogged =
     (case pool_connect_opts parse build conn_str replica_conn unlogged 10 of
        Inl e \<Rightarrow> Inl e
      | Inr pool \<Rightarrow> pool_get acquire prepare pool)"

section \<open>The schema survives\<close>

lemma create_table_twice [simp]: "create_table u (create_table v t) = create_table v t"
  by (cases t) (simp_all add: create_table_def)

lemma create_table_exists [simp]: "create_table u (Some rows) = Some rows"
  by (simp add: create_table_def)

lemma create_table_not_None [simp]: "create_table u t \<noteq> None"
  by (simp add: create_table_def split: option.split)

text \<open>The first connection whose batch is carried out decides; the others change nothing.\<close>

definition decisive :: "(bool \<times> fate) list \<Rightarrow> bool option" where
  "decisive cs = map_option fst (find (\<lambda>(_, fate). fate \<noteq> Refused) cs)"

lemma acquisitions_created:
  assumes "entries_table sc = Some es" and "blocks_table sc = Some bs"
  shows "acquisitions cs sc = sc"
  using assms
proof (induction cs)
  case (Cons c cs)
  obtain u f where "c = (u, f)" by force
  moreover from Cons.prems have "snd (on_acquire u f sc) = sc"
    by (cases f) (simp_all add: on_acquire_def)
  ultimately show ?case using Cons by (simp add: acquisitions_def)
qed (simp add: acquisitions_def)

lemma acquisitions_decisive:
  "acquisitions cs sc =
     (case decisive cs of
        None \<Rightarrow> sc
      | Some u \<Rightarrow> sc\<lparr>entries_table := create_table u (entries_table sc),
                   blocks_table := create_table u (blocks_table sc)\<rparr>)"
proof (induction cs)
  case (Cons c cs)
  obtain u f where c: "c = (u, f)" by force
  show ?case
  proof (cases "f = Refused")
    case True
    with c Cons show ?thesis
      by (simp add: acquisitions_def decisive_def on_acquire_def)
  next
    case False
    let ?sc = "sc\<lparr>entries_table := create_table u (entries_table sc),
        blocks_table := create_table u (blocks_table sc)\<rparr>"
    have "acquisitions (c # cs) sc = acquisitions cs ?sc"
      using c False by (cases f) (simp_all add: acquisitions_def on_acquire_def)
    also have "\<dots> = ?sc"
      by (rule acquisitions_created [of _ "the (entries_table ?sc)" "the (blocks_table ?sc)"])
        (simp_all add: create_table_def split: option.split)
    finally show ?thesis using c False by (simp add: decisive_def)
  qed
qed (simp add: acquisitions_def decisive_def)

lemma acquisitions_ready:
  "fst (on_acquire u f (acquisitions cs sc)) \<Longrightarrow>
    \<exists>es bs. entries_table (snd (on_acquire u f (acquisitions cs sc))) = Some es \<and>
      blocks_table (snd (on_acquire u f (acquisitions cs sc))) = Some bs"
  by (cases f) (auto simp: on_acquire_def create_table_def split: option.split)

text \<open>C30. However many connections the pools open, in whatever order they fail or succeed and
  whatever flag each carries, tables that exist keep their rows and their persistence; a
  missing table is created, empty, by the first batch that is carried out, and that batch
  alone decides whether it is \<open>UNLOGGED\<close>.\<close>

theorem schema_kept:
  "acquisitions cs sc =
     (case decisive cs of
        None \<Rightarrow> sc
      | Some unlogged \<Rightarrow>
          \<lparr>entries_table =
             Some (case entries_table sc of None \<Rightarrow> (unlogged, []) | Some t \<Rightarrow> t),
           blocks_table =
             Some (case blocks_table sc of None \<Rightarrow> (unlogged, []) | Some t \<Rightarrow> t)\<rparr>)"
  by (cases sc) (simp add: acquisitions_decisive create_table_def split: option.split)

text \<open>A standby never decides whether the daemon starts: connecting with one fails or
  succeeds exactly as connecting without, with the same primary connection; the standby's
  connection is there exactly when its string parses, its pool builds and a connection is to
  be had, and its pool runs no DDL.\<close>

theorem connect_with_standby:
  "db_connect_opts parse build acquire prepare conn_str replica_conn unlogged =
     (case db_connect_opts parse build acquire prepare conn_str None unlogged of
        Inl e \<Rightarrow> Inl e
      | Inr d \<Rightarrow>
          Inr (d\<lparr>replica_client :=
            Option.bind replica_conn (\<lambda>s. Option.bind (parse s) (\<lambda>c.
              Option.bind (build None 10 c) acquire))\<rparr>))"
  by (simp add: db_connect_opts_def pool_connect_opts_def pool_get_def split: option.split)


end
