(* ===== verification/Profiling.thy ===== *)
theory Profiling
  imports Error_Story
begin

text \<open>
  Files under \<open>/tmp\<close> as the daemon writes and removes them, and the profiler switch of
  \<open>src/profiling.rs\<close> in both builds. The sampler itself (\<open>pprof\<close>) is an argument.
\<close>

section \<open>Files\<close>

type_synonym files = "string \<rightharpoonup> string"

text \<open>What becomes of a file that is created and then written: all of it is there, it could
  not be opened, or an error came after the first bytes.\<close>

datatype write_fate = Written | Not_opened | Cut_short nat

definition write_file :: "string \<Rightarrow> string \<Rightarrow> write_fate \<Rightarrow> files \<Rightarrow> bool \<times> files" where
  "write_file path contents fate fs =
     (case fate of
        Written \<Rightarrow> (True, fs(path \<mapsto> contents))
      | Not_opened \<Rightarrow> (False, fs)
      | Cut_short n \<Rightarrow> (False, fs(path \<mapsto> take n contents)))"

definition remove_file :: "string \<Rightarrow> bool \<Rightarrow> files \<Rightarrow> files" where
  "remove_file path permitted fs = (if permitted then fs(path := None) else fs)"

lemma write_file_other: "q \<noteq> path \<Longrightarrow> snd (write_file path contents fate fs) q = fs q"
  by (cases fate) (simp_all add: write_file_def)

lemma write_file_written [simp]: "write_file path contents Written fs = (True, fs(path \<mapsto> contents))"
  by (simp add: write_file_def)

section \<open>The switch\<close>

text \<open>
  What one call meets: the sampler it may start, the clock (\<^term>\<open>None\<close> before 1970), the
  report a running sampler gives (flamegraph and stacks), and the fates of both files.
\<close>

record 'guard toggle_env =
  built :: "'guard option"
  since_epoch :: "nat option"
  report :: "'guard \<Rightarrow> (string \<times> string) option"
  svg_fate :: write_fate
  stacks_fate :: write_fate

definition profile_path :: "nat \<Rightarrow> string \<Rightarrow> string" where
  "profile_path ts suffix = ''/tmp/pgfs-profile-'' @ decimal ts @ suffix"

text \<open>\<open>toggle\<close> of the profiling build: the path it returns, the slot, the files.\<close>

definition toggle ::
  "'guard toggle_env \<Rightarrow> 'guard option \<Rightarrow> files \<Rightarrow> string option \<times> 'guard option \<times> files"
where
  "toggle env slot fs =
     (case slot of
        None \<Rightarrow>
          (case built env of
             Some guard \<Rightarrow> (None, Some guard, fs)
           | None \<Rightarrow> (None, None, fs))
      | Some guard \<Rightarrow>
          (let ts = (case since_epoch env of Some d \<Rightarrow> d | None \<Rightarrow> 0);
               svg_path = profile_path ts ''.svg'';
               stacks_path = profile_path ts ''.stacks''
           in case report env guard of
                Some (flamegraph, stacks) \<Rightarrow>
                  (Some svg_path, None,
                   snd (write_file stacks_path stacks (stacks_fate env)
                     (snd (write_file svg_path flamegraph (svg_fate env) fs))))
              | None \<Rightarrow> (None, None, fs)))"

text \<open>\<open>toggle\<close> of the default build.\<close>

definition toggle_stub ::
  "'guard toggle_env \<Rightarrow> 'guard option \<Rightarrow> files \<Rightarrow> string option \<times> 'guard option \<times> files"
where
  "toggle_stub env slot fs = (None, slot, fs)"

section \<open>What the switch does\<close>

lemma toggle_other:
  assumes "toggle env slot fs = (p, slot', fs')" and "\<And>ts suffix. q \<noteq> profile_path ts suffix"
  shows "fs' q = fs q"
  using assms by (auto simp: toggle_def Let_def write_file_other split: option.splits)

lemma profile_path_inject:
  "profile_path ts ''.svg'' \<noteq> profile_path ts' ''.stacks''"
proof
  assume "profile_path ts ''.svg'' = profile_path ts' ''.stacks''"
  then have "last (profile_path ts ''.svg'') = last (profile_path ts' ''.stacks'')" by simp
  then show False by (simp add: profile_path_def)
qed

text \<open>A profile that is switched on and later off leaves the sampler off, whatever goes
  wrong while it is rendered; when the files can be written, the path returned holds the
  flamegraph of that very sampler and its sibling the stacks, and no other file changes.\<close>

theorem toggle_twice:
  assumes "toggle on None fs = (p, slot, fs1)" and "built on = Some g"
    and "toggle off slot fs1 = (q, slot', fs2)" and "since_epoch off = Some ts"
  shows "p = None \<and> fs1 = fs \<and> slot' = None \<and>
    (case report off g of
       None \<Rightarrow> q = None \<and> fs2 = fs
     | Some (flamegraph, stacks) \<Rightarrow>
         q = Some (profile_path ts ''.svg'') \<and>
         (svg_fate off = Written \<and> stacks_fate off = Written \<longrightarrow>
            fs2 = fs(profile_path ts ''.svg'' \<mapsto> flamegraph, profile_path ts ''.stacks'' \<mapsto> stacks)))"
proof -
  have on: "p = None" "slot = Some g" "fs1 = fs" using assms(1,2) by (simp_all add: toggle_def)
  show ?thesis
  proof (cases "report off g")
    case None
    with assms(3) on show ?thesis by (simp add: toggle_def Let_def)
  next
    case (Some r)
    with assms(3,4) on show ?thesis by (cases r) (auto simp: toggle_def Let_def)
  qed
qed

theorem toggle_twice_witness:
  "\<exists>fs2. fs2 ''/tmp/pgfs-profile-7.svg'' = Some ''<svg/>'' \<and>
     toggle \<lparr>built = None, since_epoch = Some 7, report = \<lambda>g. Some (''<svg/>'', ''main 1''),
       svg_fate = Written, stacks_fate = Written\<rparr> (Some ()) Map.empty =
     (Some ''/tmp/pgfs-profile-7.svg'', None, fs2)"
proof -
  let ?on = "\<lparr>built = Some (), since_epoch = Some 0, report = \<lambda>g. None, svg_fate = Written,
    stacks_fate = Written\<rparr>"
  let ?off = "\<lparr>built = None, since_epoch = Some 7, report = \<lambda>g. Some (''<svg/>'', ''main 1''),
    svg_fate = Written, stacks_fate = Written\<rparr>"
  obtain q slot' fs2 where off: "toggle ?off (Some ()) Map.empty = (q, slot', fs2)"
    by (cases "toggle ?off (Some ()) Map.empty")
  have on: "toggle ?on None Map.empty = (None, Some (), Map.empty)" by (simp add: toggle_def)
  have path: "profile_path 7 ''.svg'' = ''/tmp/pgfs-profile-7.svg''"
    by code_simp
  show ?thesis
    using toggle_twice [OF on _ off, of "()" 7] off profile_path_inject [of 7 7]
    by (simp add: path [symmetric])
qed

end
