(* ===== verification/Daemon.thy ===== *)
theory Daemon
  imports Reports Db_Connect Profiling Fuse_Steps
begin

text \<open>
  The process of \<open>src/main.rs\<close>: its start, the health files, the watchdog and
  signal-waiter threads, and the ways it ends, with the FUSE session of theory
  \<open>Fuse_Steps\<close> served in between. A thread's turn is a function on the process; the step
  relation interleaves them.
\<close>

section \<open>Health files\<close>

definition hex_digit :: "nat \<Rightarrow> char" where
  "hex_digit d = char_of (if d < 10 then 48 + d else 87 + d)"

text \<open>\<open>{:016x}\<close> of a \<open>u64\<close>.\<close>

definition hex16 :: "nat \<Rightarrow> string" where
  "hex16 n = map (\<lambda>i. hex_digit (n div 16 ^ (15 - i) mod 16)) [0..<16]"

text \<open>\<open>hasher\<close> is the 64-bit \<open>DefaultHasher\<close> of the standard library on a string.\<close>

definition mountpoint_hash :: "(string \<Rightarrow> nat) \<Rightarrow> string \<Rightarrow> string" where
  "mountpoint_hash hasher mountpoint = hex16 (hasher mountpoint)"

definition pid_path :: "string \<Rightarrow> string" where
  "pid_path h = ''/tmp/pgfs-'' @ h @ ''.pid''"

definition ready_path :: "string \<Rightarrow> string" where
  "ready_path h = ''/tmp/pgfs-'' @ h @ ''.ready''"

text \<open>\<open>write_atomic\<close> only warns when the write fails.\<close>

definition write_atomic :: "string \<Rightarrow> string \<Rightarrow> write_fate \<Rightarrow> files \<Rightarrow> files" where
  "write_atomic path contents fate fs = snd (write_file path contents fate fs)"

text \<open>\<open>FileGuard::drop\<close>; \<open>permitted\<close> says which paths the process can remove.\<close>

definition drop_guard :: "(string \<Rightarrow> bool) \<Rightarrow> string \<Rightarrow> files \<Rightarrow> files" where
  "drop_guard permitted path = remove_file path (permitted path)"

section \<open>The process\<close>

datatype run_error = Connecting connect_error | Mounting | Serving

datatype ending =
    Clean
  | Failed run_error
  | Watchdog_gave_up
  | Unwound
  | Aborted

datatype watchdog = Polling | Unmounting nat | Watchdog_done

datatype waiter = Waiting | Waiter_done

datatype signal = SIGINT | SIGTERM | SIGHUP | SIGUSR1 | SIGUSR2

text \<open>The settings of a process: the arguments and the build, and what the system lets it do.\<close>

record settings =
  mountpoint :: string
  hasher :: "string \<Rightarrow> nat"
  process_id :: nat
  panic_aborts :: bool
  profiling :: bool
  permitted :: "string \<Rightarrow> bool"

record 'guard daemon =
  served :: pgfs
  mounted :: bool
  watchdog :: watchdog
  waiter :: waiter
  pending :: "signal list"
  profiler :: "'guard option"
  files :: files
  ended :: "ending option"

definition the_pid_path :: "settings \<Rightarrow> string" where
  "the_pid_path e = pid_path (mountpoint_hash (hasher e) (mountpoint e))"

definition the_ready_path :: "settings \<Rightarrow> string" where
  "the_ready_path e = ready_path (mountpoint_hash (hasher e) (mountpoint e))"

text \<open>Leaving \<open>run\<close> drops the guards, the readiness file's first.\<close>

definition drop_guards :: "settings \<Rightarrow> files \<Rightarrow> files" where
  "drop_guards e fs =
     drop_guard (permitted e) (the_pid_path e) (drop_guard (permitted e) (the_ready_path e) fs)"

text \<open>\<open>run\<close> up to the start of the threads: the database, the pid file, the mount, the
  readiness file. An error returns from \<open>run\<close>.\<close>

definition startup ::
  "settings \<Rightarrow> connect_error + pgfs \<Rightarrow> write_fate \<Rightarrow> bool \<Rightarrow> write_fate \<Rightarrow> files \<Rightarrow>
    run_error \<times> files + 'guard daemon"
where
  "startup e connected pid_fate mounts ready_fate fs =
     (case connected of
        Inl err \<Rightarrow> Inl (Connecting err, fs)
      | Inr s \<Rightarrow>
          (let fs1 = write_atomic (the_pid_path e) (decimal (process_id e)) pid_fate fs in
           if \<not> mounts then Inl (Mounting, drop_guards e fs1)
           else Inr \<lparr>served = s, mounted = True, watchdog = Polling, waiter = Waiting,
                     pending = [], profiler = None,
                     files = write_atomic (the_ready_path e) ''ready'' ready_fate fs1,
                     ended = None\<rparr>))"

section \<open>The watchdog\<close>

definition watchdog_polls :: "'guard daemon \<Rightarrow> 'guard daemon" where
  "watchdog_polls d =
     (if deadlock_detected (stats (fs_db (served d))) then d\<lparr>watchdog := Unmounting 0\<rparr> else d)"

text \<open>One turn of the unmount loop: the result of \<open>unmount\<close>, then the count of failures,
  with \<open>std::process::exit(1)\<close>, which drops no guard, after the fifth.\<close>

definition watchdog_unmounts :: "bool \<Rightarrow> 'guard daemon \<Rightarrow> 'guard daemon" where
  "watchdog_unmounts unmounted d =
     (case watchdog d of
        Unmounting attempts \<Rightarrow>
          if unmounted then d\<lparr>mounted := False, watchdog := Watchdog_done\<rparr>
          else if attempts + 1 \<ge> 5 then d\<lparr>ended := Some Watchdog_gave_up\<rparr>
          else d\<lparr>watchdog := Unmounting (attempts + 1)\<rparr>
      | _ \<Rightarrow> d)"

text \<open>The loop alone, on the results of its unmounts in turn.\<close>

fun watchdog_loop :: "bool list \<Rightarrow> 'guard daemon \<Rightarrow> 'guard daemon" where
  "watchdog_loop [] d = d"
| "watchdog_loop (unmounted # results) d =
     (if ended d \<noteq> None \<or> watchdog d = Watchdog_done then d
      else watchdog_loop results (watchdog_unmounts unmounted d))"

section \<open>The signal waiter\<close>

text \<open>A signal taken from the pending ones by \<open>sigwait\<close>. An unmount that fails is logged, and
  the loop is left all the same.\<close>

definition waiter_takes ::
  "settings \<Rightarrow> signal \<Rightarrow> bool \<Rightarrow> 'guard toggle_env \<Rightarrow> 'guard daemon \<Rightarrow> 'guard daemon"
where
  "waiter_takes e sig unmounted env d =
     (let d1 = d\<lparr>pending := remove1 sig (pending d)\<rparr> in
      case sig of
        SIGUSR1 \<Rightarrow> d1\<lparr>served := (served d1)\<lparr>dump_requested := True\<rparr>\<rparr>
      | SIGUSR2 \<Rightarrow>
          (case (if profiling e then toggle else toggle_stub) env (profiler d1) (files d1) of
             (_, slot, fs) \<Rightarrow> d1\<lparr>profiler := slot, files := fs\<rparr>)
      | _ \<Rightarrow> d1\<lparr>mounted := mounted d1 \<and> \<not> unmounted, waiter := Waiter_done\<rparr>)"

text \<open>A blocked signal becomes pending; one that is pending already is merged.\<close>

definition signal_arrives :: "signal \<Rightarrow> 'guard daemon \<Rightarrow> 'guard daemon" where
  "signal_arrives sig d =
     (if sig \<in> set (pending d) then d else d\<lparr>pending := pending d @ [sig]\<rparr>)"

section \<open>The end of the main thread\<close>

definition leave_run :: "settings \<Rightarrow> ending \<Rightarrow> 'guard daemon \<Rightarrow> 'guard daemon" where
  "leave_run e how d = d\<lparr>ended := Some how, files := drop_guards e (files d)\<rparr>"

text \<open>\<open>session.run()\<close> returns; with success the last state dump is logged.\<close>

definition session_ends :: "settings \<Rightarrow> bool \<Rightarrow> 'guard daemon \<Rightarrow> 'guard daemon" where
  "session_ends e ok d = leave_run e (if ok then Clean else Failed Serving) (d\<lparr>mounted := False\<rparr>)"

definition final_dump :: "nat \<Rightarrow> statics \<Rightarrow> string" where
  "final_dump uptime_secs m = state_dump 0 0 ''disconnected'' uptime_secs m"

text \<open>A panic in a callback: \<open>panic = "abort"\<close> in a release build, unwinding through
  \<open>run\<close> otherwise.\<close>

definition callback_panics :: "settings \<Rightarrow> 'guard daemon \<Rightarrow> 'guard daemon" where
  "callback_panics e d =
     (if panic_aborts e then d\<lparr>ended := Some Aborted\<rparr> else leave_run e Unwound (d\<lparr>mounted := False\<rparr>))"

fun exit_code :: "ending \<Rightarrow> nat option" where
  "exit_code Clean = Some 0"
| "exit_code (Failed _) = Some 1"
| "exit_code Watchdog_gave_up = Some 1"
| "exit_code Unwound = Some 101"
| "exit_code Aborted = None"

section \<open>Crash reports\<close>

text \<open>The version that \<open>build.rs\<close> records: the trimmed output of \<open>rustc --version\<close> when it
  could be run, succeeded and printed UTF-8. \<open>trim\<close> is \<open>str::trim\<close>.\<close>

definition rustc_version :: "(string \<Rightarrow> string) \<Rightarrow> (bool \<times> string) option \<Rightarrow> string" where
  "rustc_version trim output =
     (case output of
        None \<Rightarrow> ''unknown''
      | Some (success, stdout) \<Rightarrow>
          if \<not> success then ''unknown''
          else case to_str stdout of None \<Rightarrow> ''unknown'' | Some s \<Rightarrow> trim s)"

datatype payload = Static_str string | Owned_string string | Other_payload

fun payload_text :: "payload \<Rightarrow> string" where
  "payload_text (Static_str s) = s"
| "payload_text (Owned_string s) = s"
| "payload_text Other_payload = ''<non-string payload>''"

definition panic_location :: "(string \<times> nat) option \<Rightarrow> string" where
  "panic_location loc =
     (case loc of Some (file, line) \<Rightarrow> file @ '':'' @ decimal line | None \<Rightarrow> ''unknown:0'')"

text \<open>What the panic hook prints on the error stream, for what the environment says of the
  build and the platform.\<close>

definition crash_report ::
  "(string \<times> nat) option \<Rightarrow> payload \<Rightarrow> string option \<Rightarrow> string option \<Rightarrow> string \<Rightarrow> string \<Rightarrow>
    string option \<Rightarrow> string \<Rightarrow> string"
where
  "crash_report loc pl version rustc os arch backtrace_env bt =
     ''pgfs (panic): '' @ panic_location loc @ '': '' @ payload_text pl @ newline
       @ ''pgfs v'' @ (case version of Some v \<Rightarrow> v | None \<Rightarrow> ''unknown'')
       @ '' on '' @ os @ ''/'' @ arch
       @ '', built with '' @ (case rustc of Some v \<Rightarrow> v | None \<Rightarrow> ''unknown'')
       @ '', RUST_BACKTRACE='' @ (case backtrace_env of Some v \<Rightarrow> v | None \<Rightarrow> ''unset'') @ newline
       @ ''Backtrace:'' @ newline @ bt"

section \<open>Interleaving\<close>

text \<open>
  The steps of a process that has not ended. The main thread serves requests while the file
  system is mounted; the heartbeat and export threads and the outside world move the
  state; anyone may unmount it from outside.
\<close>

inductive daemon_step :: "settings \<Rightarrow> 'guard daemon \<Rightarrow> 'guard daemon \<Rightarrow> bool" for e where
  serves: "ended d = None \<Longrightarrow> mounted d \<Longrightarrow> request_ok rq \<Longrightarrow> handle rq (served d) = (r, s) \<Longrightarrow>
    r \<noteq> R_panic \<Longrightarrow> daemon_step e d (d\<lparr>served := s\<rparr>)"
| panics: "ended d = None \<Longrightarrow> mounted d \<Longrightarrow> request_ok rq \<Longrightarrow> handle rq (served d) = (R_panic, s) \<Longrightarrow>
    daemon_step e d (callback_panics e (d\<lparr>served := s\<rparr>))"
| beats: "ended d = None \<Longrightarrow> daemon_step e d (d\<lparr>served := on_stats heartbeat (served d)\<rparr>)"
| exports: "ended d = None \<Longrightarrow>
    daemon_step e d (d\<lparr>served := on_stats (\<lambda>m. snd (export_tick m)) (served d)\<rparr>)"
| world: "ended d = None \<Longrightarrow> stats b = stats (fs_db (served d)) \<Longrightarrow>
    mono_now (fs_db (served d)) \<le> mono_now b \<Longrightarrow>
    daemon_step e d (d\<lparr>served := (served d)\<lparr>fs_db := b, wall_clock := now\<rparr>\<rparr>)"
| signalled: "ended d = None \<Longrightarrow> daemon_step e d (signal_arrives sig d)"
| taken: "ended d = None \<Longrightarrow> waiter d = Waiting \<Longrightarrow> sig \<in> set (pending d) \<Longrightarrow>
    daemon_step e d (waiter_takes e sig unmounted env d)"
| sigwait_fails: "ended d = None \<Longrightarrow> waiter d = Waiting \<Longrightarrow> daemon_step e d (d\<lparr>waiter := Waiter_done\<rparr>)"
| polls: "ended d = None \<Longrightarrow> watchdog d = Polling \<Longrightarrow> daemon_step e d (watchdog_polls d)"
| tries: "ended d = None \<Longrightarrow> watchdog d = Unmounting n \<Longrightarrow> daemon_step e d (watchdog_unmounts ok d)"
| unmounted_outside: "ended d = None \<Longrightarrow> daemon_step e d (d\<lparr>mounted := False\<rparr>)"
| returns: "ended d = None \<Longrightarrow> mounted d \<longrightarrow> \<not> ok \<Longrightarrow> daemon_step e d (session_ends e ok d)"

inductive daemon_run :: "settings \<Rightarrow> 'guard daemon \<Rightarrow> 'guard daemon \<Rightarrow> bool" for e where
  stays: "daemon_run e d d"
| goes: "daemon_run e d d' \<Longrightarrow> daemon_step e d' d'' \<Longrightarrow> daemon_run e d d''"

inductive_cases daemon_moves: "daemon_step e d d'"

end
