(* ===== verification/Fuse_Dump.thy ===== *)
theory Fuse_Dump
  imports Fuse_Steps
begin

text \<open>
  The flag by which the signal waiter asks for a state dump: every callback with the preamble
  takes it down, and no other code of the file system touches it.
\<close>

section \<open>Steady handlers\<close>

definition flag_steady :: "handler \<Rightarrow> bool" where
  "flag_steady h \<longleftrightarrow> (\<forall>s. dump_requested (snd (h s)) = dump_requested s)"

lemma flag_steadyI: "(\<And>s r s'. h s = (r, s') \<Longrightarrow> dump_requested s' = dump_requested s) \<Longrightarrow> flag_steady h"
  unfolding flag_steady_def by (metis prod.collapse)

lemma flag_steadyD: "flag_steady h \<Longrightarrow> h s = (r, s') \<Longrightarrow> dump_requested s' = dump_requested s"
  unfolding flag_steady_def by (metis snd_conv)

lemma flag_steady_reply: "(\<And>s. dump_requested (f s) = dump_requested s) \<Longrightarrow> flag_steady (\<lambda>s. (r s, f s))"
  by (simp add: flag_steady_def)

lemma dump_on_stats [simp]: "dump_requested (on_stats f s) = dump_requested s"
  "dump_requested (set_stats m s) = dump_requested s"
  by (simp_all add: on_stats_def set_stats_def)

lemma flag_steady_log: "flag_steady (log_and_reply e)"
  by (simp add: flag_steady_def log_and_reply_def)

lemma flag_steady_on_db: "(\<And>x. flag_steady (k x)) \<Longrightarrow> flag_steady (on_db op k)"
  using flag_steady_log by (auto simp: flag_steady_def on_db_def split: sum.split prod.split)

lemma flag_steady_with_key: "(\<And>p n. flag_steady (k p n)) \<Longrightarrow> flag_steady (with_key parent name k)"
  by (auto simp: flag_steady_def with_key_def split: sum.split)

lemma flag_steady_with_path: "(\<And>p. flag_steady (k p)) \<Longrightarrow> flag_steady (with_path ino k)"
  by (auto simp: flag_steady_def with_path_def split: option.split)

lemma flag_steady_if: "flag_steady h \<Longrightarrow> flag_steady h' \<Longrightarrow> flag_steady (if b then h else h')"
  "flag_steady h \<Longrightarrow> flag_steady h' \<Longrightarrow> flag_steady (\<lambda>s. if b then h s else h' s)"
  by (cases b; simp)+

lemma flag_steady_option:
  "flag_steady h \<Longrightarrow> (\<And>x. flag_steady (k x)) \<Longrightarrow> flag_steady (case z of None \<Rightarrow> h | Some x \<Rightarrow> k x)"
  "flag_steady h \<Longrightarrow> (\<And>x. flag_steady (k x)) \<Longrightarrow> flag_steady (\<lambda>s. case z of None \<Rightarrow> h s | Some x \<Rightarrow> k x s)"
  by (cases z; simp)+

lemma flag_steady_split:
  "(\<And>a b. flag_steady (h a b)) \<Longrightarrow> flag_steady (case z of (a, b) \<Rightarrow> h a b)"
  "(\<And>a b. flag_steady (h a b)) \<Longrightarrow> flag_steady (\<lambda>s. case z of (a, b) \<Rightarrow> h a b s)"
  by (cases z; simp)+

lemma flag_steady_at: "flag_steady h \<Longrightarrow> (\<And>s. dump_requested (f s) = dump_requested s) \<Longrightarrow> flag_steady (\<lambda>s. h (f s))"
  by (simp add: flag_steady_def)

lemma dump_number [simp]: "dump_requested (snd (number path s)) = dump_requested s"
  by (simp add: number_def split: prod.split)

lemma flag_steady_number: "flag_steady (\<lambda>s. case number path s of (ino, s') \<Rightarrow> (r ino s', s'))"
  by (simp add: flag_steady_def case_prod_unfold)

lemma dump_flush_at [simp]: "dump_requested (snd (flush_at fh s)) = dump_requested s"
  by (simp add: flush_at_def split: prod.split)

lemma flag_steady_flush_reply: "flag_steady (flush_reply ino fh)"
proof (rule flag_steadyI)
  fix s r s'
  assume run: "flush_reply ino fh s = (r, s')"
  have "dump_requested u = dump_requested s" if "flush_at h s = (x, u)" for h x u
    using dump_flush_at [of h s] that by simp
  then show "dump_requested s' = dump_requested s"
    using run flag_steadyD [OF flag_steady_log]
    by (auto simp: flush_reply_def split: option.splits sum.splits prod.splits)
qed

lemma flag_steady_do_rename: "flag_steady (do_rename old new)"
  unfolding do_rename_def by (intro flag_steady_on_db flag_steady_reply) simp

lemma flag_steady_rename_onto: "flag_steady (rename_onto k old new)"
proof (rule flag_steadyI)
  fix s r s'
  assume run: "rename_onto k old new s = (r, s')"
  have "flag_steady (on_db (list_primary (join (fst new) (snd new))) (\<lambda>children.
      if children \<noteq> [] then (\<lambda>s. (R_error ENOTEMPTY, s)) else do_rename old new))"
    by (intro flag_steady_on_db flag_steady_if flag_steady_reply flag_steady_do_rename) simp
  note steps = flag_steadyD [OF this] flag_steadyD [OF flag_steady_do_rename]
  show "dump_requested s' = dump_requested s"
    using run
    by (auto simp: rename_onto_def Let_def split: sum.splits option.splits kind.splits prod.splits
        dest!: steps)
qed

lemma flag_steady_reply_attr: "flag_steady (reply_attr ino parent name)"
  unfolding reply_attr_def by (intro flag_steady_on_db flag_steady_option flag_steady_reply) simp_all

lemmas flag_steady_intros = flag_steady_on_db flag_steady_with_key flag_steady_with_path flag_steady_if flag_steady_option flag_steady_split
  flag_steady_number flag_steady_reply flag_steady_reply_attr flag_steady_rename_onto flag_steady_flush_reply

section \<open>Every callback answers the flag\<close>

text \<open>The flag is down after a callback with the preamble.\<close>

definition lowers :: "handler \<Rightarrow> bool" where
  "lowers h \<longleftrightarrow> (\<forall>s. \<not> dump_requested (snd (h s)))"

lemma lowersD: "lowers h \<Longrightarrow> h s = (r, s') \<Longrightarrow> \<not> dump_requested s'"
  unfolding lowers_def by (metis snd_conv)

lemma lowers_preamble:
  assumes "flag_steady body"
  shows "lowers (callback_preamble body)"
proof -
  have d: "\<not> dump_requested (maybe_dump_state s)" for s by (simp add: maybe_dump_state_def)
  have "\<not> dump_requested (snd (body (set_stats m (maybe_dump_state s))))" for m s
    using assms d unfolding flag_steady_def by simp
  with d show ?thesis
    by (simp add: lowers_def callback_preamble_def Let_def split: prod.split bool.split)
qed

lemma lowers_callback: "flag_steady body \<Longrightarrow> lowers (callback count body)"
proof -
  assume "flag_steady body"
  then have "lowers (callback_preamble (\<lambda>s. body (on_stats count s)))"
    by (intro lowers_preamble flag_steady_at [where f = "on_stats count"]) simp_all
  moreover have "dump_requested (record_fuse_latency s) = dump_requested s" for s
    by (simp add: record_fuse_latency_def Let_def)
  ultimately show ?thesis
    by (simp only: lowers_def callback_def latency_guard_def case_prod_unfold snd_conv not_False_eq_True simp_thms)
qed

lemma lowers_looks:
  "lowers (fuse_lookup parent name)" "lowers (fuse_getattr ino)" "lowers (fuse_readdir ino offset room)"
proof -
  have look: "flag_steady (\<lambda>s. case resolve parent name s of
      Inl e \<Rightarrow> (R_error e, on_stats (\<lambda>m. m\<lparr>enoent_count := bump (enoent_count m)\<rparr>) s)
    | Inr (p, n) \<Rightarrow> k p n s)" if "\<And>p n. flag_steady (k p n)" for k
    using that by (simp add: flag_steady_def split: sum.split prod.split)
  show "lowers (fuse_lookup parent name)"
    unfolding fuse_lookup_def by (intro lowers_callback look flag_steady_intros) simp
  show "lowers (fuse_getattr ino)"
    unfolding fuse_getattr_def by (intro lowers_callback flag_steady_intros) simp_all
  have listing: "flag_steady (\<lambda>s. case parent_ino path (inos s) of (up, m) \<Rightarrow>
      on_db (list_dir path) (k up) (s\<lparr>inos := m\<rparr>))" if "\<And>up x. flag_steady (k up x)" for k path
  proof -
    have "dump_requested (snd (on_db (list_dir path) (k up) s)) = dump_requested s" for up s
      using flag_steady_on_db [of "k up" "list_dir path"] that by (simp add: flag_steady_def)
    then show ?thesis by (simp add: flag_steady_def split: prod.split)
  qed
  show "lowers (fuse_readdir ino offset room)"
    unfolding fuse_readdir_def Let_def
    by (intro lowers_callback flag_steady_with_path listing) (simp add: flag_steady_def split: prod.split)
qed

lemma lowers_files:
  "lowers (fuse_read ino fh offset len)" "lowers (fuse_write ino fh offset data)"
  "lowers (fuse_open ino)" "lowers (fuse_flush ino fh)" "lowers (fuse_fsync ino fh)"
proof -
  have k: "flag_steady (with_path ino (\<lambda>path. case split_path path of (parent, name) \<Rightarrow>
      on_db (read_range parent name (i64_as_u64 offset) len) (\<lambda>found s.
        case found of None \<Rightarrow> (R_error ENOENT, s) | Some data \<Rightarrow> (R_data data, s))))"
    by (intro flag_steady_intros) simp_all
  show "lowers (fuse_read ino fh offset len)"
    unfolding fuse_read_def Let_def
    by (rule lowers_callback, rule flag_steady_at [OF k]) (simp split: option.split)
  have "flag_steady (with_path ino (\<lambda>path. case split_path path of (parent, name) \<Rightarrow>
      on_db (write_range parent name (i64_as_u64 offset) data)
        (\<lambda>_ s. (R_written (length data mod 2 ^ 32), s))))"
    by (intro flag_steady_intros) simp
  then show "lowers (fuse_write ino fh offset data)"
    unfolding fuse_write_def Let_def
    by (intro lowers_callback) (simp add: flag_steady_def split: option.split)
  show "lowers (fuse_open ino)"
    unfolding fuse_open_def
    by (intro lowers_callback flag_steady_with_path) (simp add: flag_steady_def open_handle_def split: prod.split)
  show "lowers (fuse_flush ino fh)" unfolding fuse_flush_def by (intro lowers_preamble flag_steady_intros)
  show "lowers (fuse_fsync ino fh)" unfolding fuse_fsync_def by (intro lowers_callback flag_steady_intros)
qed

lemma lowers_changes:
  "lowers (fuse_setattr ino new_size)" "lowers (fuse_create parent name)"
  "lowers (fuse_mkdir parent name)" "lowers (fuse_unlink parent name)"
  "lowers (fuse_rmdir parent name)" "lowers (fuse_rename parent name newparent newname flags)"
proof -
  show "lowers (fuse_setattr ino new_size)"
    unfolding fuse_setattr_def by (intro lowers_callback flag_steady_intros) simp_all
  have o: "flag_steady (\<lambda>s. case open_handle p n s of (fh, s1) \<Rightarrow> (case number path s1 of (ino, s2) \<Rightarrow>
    (R_created (attr_ttl s2) (file_attr ino 0 (wall_clock s2) (owner s2)) fh, s2)))" for p n path
    by (simp add: flag_steady_def open_handle_def case_prod_unfold)
  show "lowers (fuse_create parent name)"
    unfolding fuse_create_def by (intro lowers_callback o flag_steady_intros) simp_all
  show "lowers (fuse_mkdir parent name)"
    unfolding fuse_mkdir_def by (intro lowers_callback flag_steady_intros) simp_all
  show "lowers (fuse_unlink parent name)"
    unfolding fuse_unlink_def by (intro lowers_callback flag_steady_intros) (simp add: forget_def)
  show "lowers (fuse_rmdir parent name)"
    unfolding fuse_rmdir_def by (intro lowers_callback flag_steady_intros) (simp_all add: forget_def)
  show "lowers (fuse_rename parent name newparent newname flags)"
    unfolding fuse_rename_def Let_def by (intro lowers_callback flag_steady_intros) simp_all
qed

text \<open>\<open>release\<close> alone has no preamble.\<close>

lemma flag_steady_release: "flag_steady (fuse_release ino fh)"
  by (simp add: flag_steady_def fuse_release_def Let_def)

end
