(* ===== verification/Daemon_Correct.thy ===== *)
theory Daemon_Correct
  imports Daemon Fuse_Dump Errors_Correct
begin

text \<open>
  The process as a whole: the watchdog ends after at most five unmounts, a stalled heartbeat
  leads to it, the health files are there exactly while they should be, a signal to dump is
  answered by the next callback, and the signal waiter stops for good at the first
  terminating signal.
\<close>

section \<open>The watchdog\<close>

lemma watchdog_loop_over: "watchdog d = Watchdog_done \<or> ended d \<noteq> None \<Longrightarrow> watchdog_loop rs d = d"
  by (cases rs) auto

lemma watchdog_loop_from:
  assumes "watchdog d = Unmounting n" and "ended d = None" and "n \<le> 4"
  shows "watchdog_loop results d =
    (if True \<in> set (take (5 - n) results) then d\<lparr>mounted := False, watchdog := Watchdog_done\<rparr>
     else if 5 - n \<le> length results then d\<lparr>watchdog := Unmounting 4, ended := Some Watchdog_gave_up\<rparr>
     else d\<lparr>watchdog := Unmounting (n + length results)\<rparr>)"
  using assms
proof (induction results arbitrary: d n)
  case Nil
  then show ?case by simp
next
  case (Cons b results)
  have t: "take (5 - n) (b # results) = b # take (4 - n) results"
  proof -
    have "5 - n = Suc (4 - n)" using Cons.prems(3) by simp
    then show ?thesis by simp
  qed
  show ?case
  proof (cases "b \<or> n = 4")
    case True
    with Cons.prems t show ?thesis
      by (auto simp: watchdog_unmounts_def watchdog_loop_over)
  next
    case False
    let ?d = "d\<lparr>watchdog := Unmounting (Suc n)\<rparr>"
    have "watchdog_loop (b # results) d = watchdog_loop results ?d"
      using Cons.prems False by (simp add: watchdog_unmounts_def)
    with Cons.IH [of ?d "Suc n"] Cons.prems False t show ?thesis
      by (auto simp: Suc_diff_le)
  qed
qed

text \<open>C23. Once the watchdog has begun to unmount, it calls \<open>unmount\<close> at most five times: the
  first success among them unmounts and ends the thread, five failures end the process, and
  nothing else of the process changes. In no case does the loop go on.\<close>

theorem watchdog_ends:
  assumes "watchdog d = Unmounting 0" and "ended d = None" and "5 \<le> length results"
  shows "watchdog_loop results d =
    (if True \<in> set (take 5 results) then d\<lparr>mounted := False, watchdog := Watchdog_done\<rparr>
     else d\<lparr>watchdog := Unmounting 4, ended := Some Watchdog_gave_up\<rparr>)"
  using watchdog_loop_from [OF assms(1,2), of results] assms(3) by simp

section \<open>Runs\<close>

lemma run_trans: "daemon_run e d d' \<Longrightarrow> daemon_run e d' d'' \<Longrightarrow> daemon_run e d d''"
  by (rotate_tac, induction rule: daemon_run.induct) (auto intro: daemon_run.goes)

lemma run_one: "daemon_step e d d' \<Longrightarrow> daemon_run e d d'"
  by (rule daemon_run.goes [OF daemon_run.stays])

lemma run_ended: "daemon_run e d d' \<Longrightarrow> ended d' = None \<Longrightarrow> ended d = None"
  by (induction rule: daemon_run.induct) (auto elim: daemon_moves)

lemma loop_runs:
  "ended d = None \<Longrightarrow> daemon_run e d (watchdog_loop results d)"
proof (induction results d rule: watchdog_loop.induct)
  case (1 d)
  then show ?case by (simp add: daemon_run.stays)
next
  case (2 b results d)
  show ?case
  proof (cases "watchdog d")
    case (Unmounting n)
    have s: "daemon_run e d (watchdog_unmounts b d)"
      using 2(2) Unmounting by (intro run_one daemon_step.tries)
    show ?thesis
    proof (cases "ended (watchdog_unmounts b d)")
      case None
      with 2 Unmounting s show ?thesis by (auto intro: run_trans)
    next
      case (Some x)
      with 2(2) Unmounting s show ?thesis by (simp add: watchdog_loop_over)
    qed
  next
    case Polling
    then have "watchdog_unmounts b d = d" by (simp add: watchdog_unmounts_def)
    with 2 Polling show ?thesis by simp
  qed (use 2 in \<open>simp add: daemon_run.stays\<close>)
qed

section \<open>From the heartbeat to the unmount\<close>

abbreviation flagged :: "'guard daemon \<Rightarrow> bool" where
  "flagged d \<equiv> deadlock_detected (stats (fs_db (served d)))"

lemma release_vitals: "fuse_release ino fh s = (r, s') \<Longrightarrow> vitals (fs_db s') = vitals (fs_db s)"
proof -
  assume run: "fuse_release ino fh s = (r, s')"
  obtain h_id x u where f: "flush_at h_id s = (x, u)" and "fs_db s' = fs_db u"
    using run by (fastforce simp: fuse_release_def Let_def intro: prod.collapse [symmetric])
  with accounts_flush_at [OF f] show ?thesis by simp
qed

lemma handle_flag:
  assumes "handle rq s = (r, s')" and "deadlock_detected (st s)"
  shows "deadlock_detected (st s')"
proof (cases "checked rq")
  case True
  with watched_handle assms show ?thesis unfolding watched_def by metis
next
  case False
  then obtain ino fh where "rq = Release ino fh" by (cases rq) auto
  with assms release_vitals [of ino fh s r s'] show ?thesis by (simp add: vitals_def)
qed

lemma step_flag: "daemon_step e d d' \<Longrightarrow> flagged d \<Longrightarrow> flagged d'"
proof (induction rule: daemon_step.induct)
  case (serves d rq r s)
  then show ?case using handle_flag by simp
next
  case (panics d rq s)
  then have "deadlock_detected (st s)" using handle_flag by blast
  then show ?case by (simp add: callback_panics_def leave_run_def)
next
  case (taken d sig unmounted env)
  then show ?case
    by (cases sig) (simp_all add: waiter_takes_def Let_def split: prod.split)
qed (simp_all add: on_stats_def set_stats_def heartbeat_def export_tick_def Let_def signal_arrives_def
    watchdog_polls_def watchdog_unmounts_def session_ends_def leave_run_def split: watchdog.split)

lemma run_flag: "daemon_run e d d' \<Longrightarrow> flagged d \<Longrightarrow> flagged d'"
  by (induction rule: daemon_run.induct) (auto dest: step_flag)

text \<open>C21. A request that meets a stalled heartbeat is refused, and from then on, whatever the
  threads do in the meantime, the watchdog can go from its next poll to the end by itself:
  with the results of five unmounts it has unmounted or ended the process.\<close>

theorem stalled_daemon_unmounts:
  assumes "ended d = None" and "mounted d" and "stalled (served d)" and "checked rq" and "request_ok rq"
    and "handle rq (served d) = (r, s)"
    and "daemon_run e (d\<lparr>served := s\<rparr>) d1" and "ended d1 = None" and "watchdog d1 = Polling"
    and "5 \<le> length results"
  shows "r = R_error EIO \<and> daemon_step e d (d\<lparr>served := s\<rparr>) \<and>
    daemon_run e d1 (watchdog_loop results (watchdog_polls d1)) \<and>
    (let d2 = watchdog_loop results (watchdog_polls d1) in
     if True \<in> set (take 5 results) then \<not> mounted d2 else ended d2 = Some Watchdog_gave_up)"
proof -
  have r: "r = R_error EIO" and "deadlock_detected (st s)"
    using watched_handle [OF assms(4)] assms(3,6) by (auto simp: watched_def)
  then have "flagged d1" using run_flag [OF assms(7)] by simp
  then have p: "watchdog_polls d1 = d1\<lparr>watchdog := Unmounting 0\<rparr>" by (simp add: watchdog_polls_def)
  have "daemon_step e d (d\<lparr>served := s\<rparr>)"
    using assms(1,2,5,6) r by (intro daemon_step.serves) auto
  moreover have "daemon_run e d1 (watchdog_polls d1)"
    using assms(8,9) by (intro run_one daemon_step.polls)
  then have "daemon_run e d1 (watchdog_loop results (watchdog_polls d1))"
    by (rule run_trans) (rule loop_runs, simp add: p assms(8))
  ultimately show ?thesis
    using r watchdog_loop_from [of "watchdog_polls d1" 0 results] p assms(8,10) by (simp add: Let_def)
qed

section \<open>Health files\<close>

lemma hex_digit_not: "d < 16 \<Longrightarrow> hex_digit d \<noteq> CHR ''p''"
proof -
  assume "d < 16"
  then have "(of_char (hex_digit d) :: nat) = (if d < 10 then 48 + d else 87 + d)"
    by (simp add: hex_digit_def)
  with \<open>d < 16\<close> have "(of_char (hex_digit d) :: nat) \<noteq> of_char (CHR ''p'')" by auto
  then show ?thesis by metis
qed

lemma hex16_hd: "hd (hex16 n) \<noteq> CHR ''p''" "length (hex16 n) = 16"
proof -
  have "hex16 n \<noteq> [] \<and> hd (hex16 n) = hex_digit (n div 16 ^ 15 mod 16)"
    by (simp add: hex16_def upt_conv_Cons)
  then show "hd (hex16 n) \<noteq> CHR ''p''" using hex_digit_not by simp
  show "length (hex16 n) = 16" by (simp add: hex16_def)
qed

lemma health_paths:
  "the_pid_path e \<noteq> the_ready_path e"
  "the_pid_path e \<noteq> profile_path ts ext" "the_ready_path e \<noteq> profile_path ts ext"
proof -
  let ?h = "hex16 (hasher e (mountpoint e))"
  obtain c cs where h: "?h = c # cs" and "c \<noteq> CHR ''p''"
    using hex16_hd [of "hasher e (mountpoint e)"] by (cases ?h) auto
  then show "the_pid_path e \<noteq> profile_path ts ext" "the_ready_path e \<noteq> profile_path ts ext"
    by (auto simp: the_pid_path_def the_ready_path_def pid_path_def ready_path_def mountpoint_hash_def
        profile_path_def)
  show "the_pid_path e \<noteq> the_ready_path e"
    by (simp add: the_pid_path_def the_ready_path_def pid_path_def ready_path_def)
qed

text \<open>Both files are there, or neither is.\<close>

definition healthy :: "settings \<Rightarrow> files \<Rightarrow> bool" where
  "healthy e fs \<longleftrightarrow> fs (the_pid_path e) = Some (decimal (process_id e)) \<and>
     fs (the_ready_path e) = Some ''ready''"

definition cleaned :: "settings \<Rightarrow> files \<Rightarrow> bool" where
  "cleaned e fs \<longleftrightarrow> fs (the_pid_path e) = None \<and> fs (the_ready_path e) = None"

text \<open>The ends that drop no guard.\<close>

definition guards_stay :: "ending option \<Rightarrow> bool" where
  "guards_stay how \<longleftrightarrow> how = None \<or> how = Some Watchdog_gave_up \<or> how = Some Aborted"

definition files_inv :: "settings \<Rightarrow> 'guard daemon \<Rightarrow> bool" where
  "files_inv e d \<longleftrightarrow> (if guards_stay (ended d) then healthy e (files d) else cleaned e (files d))"

lemma drop_guards_cleaned:
  "permitted e (the_pid_path e) \<Longrightarrow> permitted e (the_ready_path e) \<Longrightarrow> cleaned e (drop_guards e fs)"
  using health_paths(1) [of e]
  by (simp add: cleaned_def drop_guards_def drop_guard_def remove_file_def)

lemma toggle_healthy:
  assumes "toggle env slot fs = (p, slot', fs')"
  shows "healthy e fs' = healthy e fs"
  using toggle_other [OF assms] health_paths [of e] by (simp add: healthy_def)

lemma step_files:
  assumes "daemon_step e d d'" and p: "permitted e (the_pid_path e)" "permitted e (the_ready_path e)"
    and "files_inv e d"
  shows "files_inv e d'"
  using assms(1,4)
proof (induction rule: daemon_step.induct)
  case (taken d sig unmounted env)
  then show ?case
    using toggle_healthy [of env "profiler d" "files d" _ _ _ e]
    by (cases sig) (auto simp: files_inv_def guards_stay_def waiter_takes_def Let_def toggle_stub_def split: prod.splits)
qed (use drop_guards_cleaned [OF p] in \<open>auto simp: files_inv_def guards_stay_def signal_arrives_def
    watchdog_polls_def watchdog_unmounts_def session_ends_def leave_run_def callback_panics_def\<close>)

text \<open>C24. When its writes and removals succeed, a process that has started has both health
  files, whatever its threads do: until it ends, and also after, if the watchdog gave up or
  a release build panicked. After every other end neither file is left.\<close>

theorem health_files:
  assumes "startup e (Inr s) Written True Written fs = Inr d0" and "daemon_run e d0 d"
    and "permitted e (the_pid_path e)" and "permitted e (the_ready_path e)"
  shows "if guards_stay (ended d) then healthy e (files d) else cleaned e (files d)"
proof -
  have "files_inv e d0"
    using assms(1) health_paths(1) [of e]
    by (auto simp: startup_def files_inv_def guards_stay_def healthy_def write_atomic_def Let_def)
  with assms(2) have "files_inv e d"
    by (induction rule: daemon_run.induct) (auto intro: step_files assms(3,4))
  then show ?thesis by (simp add: files_inv_def)
qed

section \<open>Signals\<close>

lemma handle_dump:
  assumes "handle rq s = (r, s')"
  shows "if checked rq then \<not> dump_requested s' else dump_requested s' = dump_requested s"
proof (cases "checked rq")
  case True
  then have "lowers (handle rq)" by (cases rq) (simp_all add: lowers_looks lowers_files lowers_changes)
  with True lowersD assms show ?thesis by simp
next
  case False
  then obtain ino fh where "rq = Release ino fh" by (cases rq) auto
  with assms flag_steadyD [OF flag_steady_release] False show ?thesis by simp
qed

text \<open>What only the signal waiter moves.\<close>

lemma step_waiter_done:
  assumes "daemon_step e d d'" and "waiter d = Waiter_done"
  shows "waiter d' = Waiter_done \<and> set (pending d) \<subseteq> set (pending d') \<and> profiler d' = profiler d \<and>
    (dump_requested (served d') \<longrightarrow> dump_requested (served d))"
  using assms
proof (induction rule: daemon_step.induct)
  case (serves d rq r s)
  with handle_dump [OF serves(4)] show ?case by (simp split: if_splits)
next
  case (panics d rq s)
  with handle_dump [OF panics(4)] show ?case
    by (simp add: callback_panics_def leave_run_def split: if_splits)
qed (auto simp: signal_arrives_def watchdog_polls_def watchdog_unmounts_def session_ends_def
    leave_run_def split: watchdog.split)

lemma run_waiter_done:
  assumes "daemon_run e d d'" and "waiter d = Waiter_done"
  shows "waiter d' = Waiter_done \<and> set (pending d) \<subseteq> set (pending d') \<and> profiler d' = profiler d \<and>
    (dump_requested (served d') \<longrightarrow> dump_requested (served d))"
  using assms
proof (induction rule: daemon_run.induct)
  case (goes d d' d'')
  then have "waiter d' = Waiter_done" by simp
  with goes.IH [OF goes.prems] step_waiter_done [OF goes.hyps(2)] show ?case by auto
qed simp

text \<open>C27. The signal waiter ends with the first terminating signal it takes, although the
  unmount failed and the file system is still mounted: from then on no signal is taken any
  more, pending ones stay pending for ever, no state dump is asked for and the profiler is
  not switched again.\<close>

theorem first_signal_is_last:
  assumes "sig = SIGINT \<or> sig = SIGTERM \<or> sig = SIGHUP"
    and "daemon_run e (waiter_takes e sig False env d) d'"
  shows "mounted (waiter_takes e sig False env d) = mounted d \<and> waiter d' = Waiter_done \<and>
    set (remove1 sig (pending d)) \<subseteq> set (pending d') \<and> profiler d' = profiler d \<and>
    (dump_requested (served d') \<longrightarrow> dump_requested (served d))"
proof -
  have t: "waiter_takes e sig False env d = d\<lparr>pending := remove1 sig (pending d), waiter := Waiter_done\<rparr>"
    using assms(1) by (auto simp: waiter_takes_def)
  with run_waiter_done [OF assms(2)] show ?thesis by simp
qed

lemma step_dump:
  assumes "daemon_step e d d'" and "dump_requested (served d)" and "\<not> dump_requested (served d')"
  shows "\<exists>rq r s. checked rq \<and> request_ok rq \<and> handle rq (served d) = (r, s) \<and>
    (d' = d\<lparr>served := s\<rparr> \<or> d' = callback_panics e (d\<lparr>served := s\<rparr>))"
  using assms
proof (induction rule: daemon_step.induct)
  case (serves d rq r s)
  with handle_dump [OF serves(4)] show ?case by (cases "checked rq") auto
next
  case (panics d rq s)
  then have "\<not> dump_requested s" by (simp add: callback_panics_def leave_run_def split: if_splits)
  with panics handle_dump [OF panics(4)] show ?case by (cases "checked rq") auto
next
  case (taken d sig unmounted env)
  then show ?case by (cases sig) (simp_all add: waiter_takes_def Let_def split: prod.splits)
qed (simp_all add: on_stats_def set_stats_def signal_arrives_def watchdog_polls_def
    watchdog_unmounts_def session_ends_def leave_run_def split: watchdog.splits if_splits)

text \<open>The first state of a trace where a predicate no longer holds.\<close>

lemma first_change:
  assumes "P (xs ! 0)" and "\<not> P (xs ! j)"
  obtains i where "i < j" and "\<forall>k \<le> i. P (xs ! k)" and "\<not> P (xs ! Suc i)"
proof -
  obtain k where k: "\<not> P (xs ! k)" "\<forall>m < k. P (xs ! m)" "k \<le> j"
    using LeastI [of "\<lambda>k. \<not> P (xs ! k)" j] Least_le [of "\<lambda>k. \<not> P (xs ! k)" j] assms(2)
      not_less_Least [of _ "\<lambda>k. \<not> P (xs ! k)"] by blast
  from k(1) assms(1) obtain i where i: "k = Suc i" by (cases k) auto
  with k that [of i] show ?thesis by (auto simp: less_Suc_eq_le Suc_le_eq)
qed

text \<open>C26. In every trace of the daemon that starts when \<open>SIGUSR1\<close> is taken, whatever its threads
  do in between: if the state dump is no longer asked for at some state, then it was asked for
  without a break up to a step of the trace that serves a request other than \<open>release\<close>; that
  request logs exactly one dump, and it takes the flag down, as every such request does. So no
  thread drops the request for a dump unanswered.\<close>

theorem dump_is_answered:
  assumes "xs = waiter_takes e SIGUSR1 b env d # ds" and "successively (daemon_step e) xs"
    and "j < length xs" and "\<not> dump_requested (served (xs ! j))"
  shows "\<exists>i rq r s. i < j \<and> (\<forall>k \<le> i. dump_requested (served (xs ! k))) \<and>
    checked rq \<and> request_ok rq \<and> handle rq (served (xs ! i)) = (r, s) \<and>
    (xs ! Suc i = (xs ! i)\<lparr>served := s\<rparr> \<or> xs ! Suc i = callback_panics e ((xs ! i)\<lparr>served := s\<rparr>)) \<and>
    (\<forall>t. length (dump_log t (served (xs ! i))) = 1) \<and> (\<forall>t. dump_log t s = [])"
proof -
  have "dump_requested (served (xs ! 0))" using assms(1) by (simp add: waiter_takes_def)
  then obtain i where i: "i < j" "\<forall>k \<le> i. dump_requested (served (xs ! k))"
    "\<not> dump_requested (served (xs ! Suc i))"
    using first_change [of "\<lambda>d. dump_requested (served d)" xs j] assms(4) by blast
  have "daemon_step e (xs ! i) (xs ! Suc i)"
    by (rule successively_nth [OF assms(2)]) (use assms(3) i(1) in simp)
  from step_dump [OF this _ i(3)] i(2) obtain rq r s where rq: "checked rq" "request_ok rq"
    "handle rq (served (xs ! i)) = (r, s)"
    "xs ! Suc i = (xs ! i)\<lparr>served := s\<rparr> \<or> xs ! Suc i = callback_panics e ((xs ! i)\<lparr>served := s\<rparr>)"
    by blast
  moreover have "\<not> dump_requested s" using handle_dump [OF rq(3)] rq(1) by simp
  ultimately show ?thesis using i(1,2) unfolding dump_log_def by fastforce
qed

section \<open>A process\<close>

definition demo_settings :: settings where
  "demo_settings = \<lparr>mountpoint = ''mnt'', hasher = (\<lambda>_. 255), process_id = 42, panic_aborts = False,
     profiling = False, permitted = (\<lambda>_. True)\<rparr>"

definition demo_process :: "pgfs \<Rightarrow> unit daemon" where
  "demo_process s = \<lparr>served = s, mounted = True, watchdog = Polling, waiter = Waiting, pending = [],
     profiler = None,
     files = [the_pid_path demo_settings \<mapsto> decimal 42, the_ready_path demo_settings \<mapsto> ''ready''],
     ended = None\<rparr>"

lemma demo_startup:
  "startup demo_settings (Inr s) Written True Written Map.empty = Inr (demo_process s)"
  by (simp add: startup_def demo_process_def write_atomic_def demo_settings_def)

lemma demo_process_simps [simp]:
  "served (demo_process s) = s" "mounted (demo_process s)" "watchdog (demo_process s) = Polling"
  "waiter (demo_process s) = Waiting" "ended (demo_process s) = None" "pending (demo_process s) = []"
  "permitted demo_settings p"
  by (simp_all add: demo_process_def demo_settings_def)

theorem watchdog_ends_witness:
  "ended (watchdog_loop (replicate 5 False) ((demo_process stuck_fs)\<lparr>watchdog := Unmounting 0\<rparr>)) =
     Some Watchdog_gave_up"
  using watchdog_ends [of "(demo_process stuck_fs)\<lparr>watchdog := Unmounting 0\<rparr>" "replicate 5 False"] by simp

theorem stalled_daemon_unmounts_witness:
  "\<exists>s. fst (handle (Mkdir 1 ''tmp'') stuck_fs) = R_error EIO \<and>
     \<not> mounted (watchdog_loop [False, True, True, True, True]
          (watchdog_polls ((demo_process stuck_fs)\<lparr>served := s\<rparr>)))"
proof -
  obtain r s where h: "handle (Mkdir 1 ''tmp'') stuck_fs = (r, s)" by force
  have "stalled stuck_fs"
    by (simp add: stalled_def stuck_fs_def set_stats_def statics_init_def)
  with stalled_daemon_unmounts [of "demo_process stuck_fs" "Mkdir 1 ''tmp''" r s demo_settings
      "(demo_process stuck_fs)\<lparr>served := s\<rparr>" "[False, True, True, True, True]"] h
  show ?thesis by (intro exI [of _ s]) (simp add: daemon_run.stays Let_def)
qed

theorem health_files_witness:
  "\<exists>d. daemon_run demo_settings (demo_process (demo_fs [])) d \<and> ended d = Some Clean \<and>
     cleaned demo_settings (files d)"
proof -
  let ?d0 = "demo_process (demo_fs [])"
  let ?d1 = "waiter_takes demo_settings SIGTERM True undefined (signal_arrives SIGTERM ?d0)"
  let ?last = "session_ends demo_settings True ?d1"
  have d1: "ended ?d1 = None" "\<not> mounted ?d1"
    by (simp_all add: waiter_takes_def signal_arrives_def)
  have "daemon_run demo_settings ?d0 (signal_arrives SIGTERM ?d0)"
    by (intro run_one daemon_step.signalled) simp
  then have "daemon_run demo_settings ?d0 ?d1"
    by (rule daemon_run.goes) (intro daemon_step.taken, simp_all add: signal_arrives_def)
  moreover have "daemon_step demo_settings ?d1 ?last"
    by (rule daemon_step.returns) (simp_all add: d1)
  ultimately have run: "daemon_run demo_settings ?d0 ?last" by (rule daemon_run.goes)
  have "ended ?last = Some Clean" by (simp add: session_ends_def leave_run_def)
  with health_files [OF demo_startup run] run show ?thesis
    by (intro exI [of _ ?last]) (simp add: guards_stay_def)
qed

theorem first_signal_is_last_witness:
  "\<exists>d. daemon_run demo_settings (demo_process (demo_fs [])) d \<and> mounted d \<and>
     waiter d = Waiter_done \<and> pending d = [SIGTERM]"
proof -
  let ?d0 = "demo_process (demo_fs [])"
  let ?d1 = "waiter_takes demo_settings SIGTERM False undefined (signal_arrives SIGTERM ?d0)"
  let ?last = "signal_arrives SIGTERM ?d1"
  have d: "?d1 = ?d0\<lparr>waiter := Waiter_done\<rparr>"
    by (simp add: waiter_takes_def signal_arrives_def)
  have "daemon_run demo_settings ?d0 (signal_arrives SIGTERM ?d0)"
    by (intro run_one daemon_step.signalled) simp
  then have "daemon_run demo_settings ?d0 ?d1"
    by (rule daemon_run.goes) (intro daemon_step.taken, simp_all add: signal_arrives_def)
  moreover have last: "daemon_run demo_settings ?d1 ?last"
    by (rule run_one, rule daemon_step.signalled) (simp add: d)
  ultimately have "daemon_run demo_settings ?d0 ?last" by (rule run_trans)
  moreover have "waiter ?last = Waiter_done"
    using first_signal_is_last [OF _ last] by simp
  moreover have "mounted ?last" "pending ?last = [SIGTERM]"
    unfolding d by (simp_all add: signal_arrives_def)
  ultimately show ?thesis by blast
qed

theorem dump_is_answered_witness:
  "\<exists>(x :: unit daemon) y rq r s. daemon_step demo_settings x y \<and> dump_requested (served x) \<and>
     \<not> dump_requested (served y) \<and> handle rq (served x) = (r, s) \<and> checked rq \<and>
     length (dump_log 0 (served x)) = 1 \<and> dump_log 0 s = []"
proof -
  let ?d0 = "demo_process (demo_fs [])"
  let ?d1 = "waiter_takes demo_settings SIGUSR1 True undefined (signal_arrives SIGUSR1 ?d0)"
  have sv: "served ?d1 = (demo_fs [])\<lparr>dump_requested := True\<rparr>" "ended ?d1 = None" "mounted ?d1"
    by (simp_all add: waiter_takes_def signal_arrives_def)
  obtain a ttl s where h: "handle (Getattr 1) (served ?d1) = (R_attr ttl a, s)"
    by (simp add: sv fuse_getattr_def callback_def latency_guard_def callback_preamble_def ROOT_INO_def
        maybe_dump_state_def replica_state_def db_with_def on_stats_def set_stats_def check_liveness_def
        statics_init_def Let_def)
  have s: "\<not> dump_requested s" using handle_dump [OF h] by simp
  have step: "daemon_step demo_settings ?d1 (?d1\<lparr>served := s\<rparr>)"
    by (rule daemon_step.serves [OF sv(2,3) _ h]) simp_all
  then have "successively (daemon_step demo_settings) [?d1, ?d1\<lparr>served := s\<rparr>]" by simp
  from dump_is_answered [OF refl this, of 1] s obtain rq r s' where
    "dump_requested (served ?d1)" "handle rq (served ?d1) = (r, s')" "checked rq"
    "length (dump_log 0 (served ?d1)) = 1" "dump_log 0 s' = []"
    by auto
  moreover have "\<not> dump_requested (served (?d1\<lparr>served := s\<rparr>))" using s by simp
  ultimately show ?thesis using step by blast
qed

end
