(* ===== verification/Service_Tables.thy ===== *)
theory Service_Tables
  imports Sessions_Correct
begin

text \<open>
  The directory tree under the mounted file system. A request is tame when it respects what
  the kernel guarantees of the names and inodes it sends, and stays within the limits of
  theory \<open>Known_Limits\<close>; tame requests, under any faults, keep the tables well formed.
\<close>

section \<open>Tame requests\<close>







section \<open>Database operations on well-formed tables\<close>










section \<open>Callbacks on well-formed tables\<close>





















section \<open>Requests that only look\<close>










section \<open>Requests on open files\<close>







section \<open>Requests that change the tables\<close>







lemma forget_tabs [simp]: "tabs (fs_db (forget path s)) = tabs (fs_db s)"
  by (simp add: forget_def)




section \<open>Runs of tame requests\<close>






end
