(* ===== verification/Two_Clients.thy ===== *)
theory Two_Clients
  imports Contents_Correct
begin

text \<open>
  Two daemons on one database. Each has its own connection; they share the tables, and
  between the statements of one those of the other may run. \<open>write_range\<close> looks up the
  size outside its transaction, so another write can come between.
\<close>

text \<open>The client \<open>b\<close> finds the tables as \<open>a\<close> has left them.\<close>

definition next_to :: "db \<Rightarrow> db \<Rightarrow> db" where
  "next_to a b = b\<lparr>tabs := tabs a\<rparr>"

lemma next_to_simps [simp]:
  "tabs (next_to a b) = tabs a" "fates (next_to a b) = fates b" "calm (next_to a b) = next_to a (calm b)"
  by (simp_all add: next_to_def calm_def)

lemma steady_commit: "steady (write_range_commit parent name offset data meta)"
  unfolding write_range_commit_def Let_def by (intro steady_intros steady_write_range_txn)

lemma atomic_commit: "atomic (write_range_commit parent name offset data meta)"
  unfolding write_range_commit_def Let_def
  by (intro atomic_txn_then steady_write_range_txn quiet_timed)

interpretation wc: atomic_op "write_range_commit parent name offset data meta"
  for parent name offset data meta
  by unfold_locales (rule steady_commit atomic_commit)+

lemma getattr_primary_found:
  assumes "keys_ok (tabs a)" and "is_file (tabs a) (p, n) sz"
    and "getattr_primary p n a = (Inr meta, a')"
  shows "\<exists>m. meta = Some m \<and> m_size m = sz" and "tabs a' = tabs a"
proof -
  obtain m where m: "meta_opt (ent (tabs a) (p, n)) = Inr (Some m)" "m_size m = sz"
    using meta_opt_file [OF assms(2)] by blast
  have "getattr_primary p n (calm a) = (Inr meta, calm a')"
    using steady_getattr_primary assms(3) unfolding steady_def by blast
  then show "\<exists>m. meta = Some m \<and> m_size m = sz"
    using m getattr_primary_calm [of "calm a" p n] assms(1) by auto
  show "tabs a' = tabs a"
    using quiet_getattr_primary [of p n] assms(3) unfolding quiet_def by (metis snd_conv)
qed

text \<open>C35. Between the look of a write at the size and its transaction, another client's write
  is carried out. Both report success and the bytes of both are stored, the last one's where
  they overlap; but the size is set from the look, as if the other write had never been, so
  what that has appended beyond is past the end of the file.\<close>

theorem overtaken_write_loses_size:
  assumes "keys_ok (tabs a)" and "is_file (tabs a) (p, n) sz" and "sz < 2 ^ 63"
    and "da \<noteq> []" and "oa + length da \<le> MAX_BYTES" and "db \<noteq> []" and "ob + length db \<le> MAX_BYTES"
    and look: "getattr_primary p n a = (Inr meta, a1)"
    and other: "write_range p n ob db (next_to a1 b) = (Inr (), b1)"
    and commit: "write_range_commit p n oa da meta (next_to b1 a1) = (Inr (), a2)"
  shows "is_file (tabs b1) (p, n) (max sz (ob + length db)) \<and>
    is_file (tabs a2) (p, n) (max sz (oa + length da)) \<and>
    (\<forall>x. byte_at (tabs a2) (p, n) x =
      (if oa \<le> x \<and> x < oa + length da then da ! (x - oa)
       else if ob \<le> x \<and> x < ob + length db then db ! (x - ob)
       else byte_at (tabs a) (p, n) x))"
proof -
  obtain m where m: "meta = Some m" "m_size m = sz" and a1: "tabs a1 = tabs a"
    using getattr_primary_found [OF assms(1,2) look] by blast
  obtain u where u: "write_range p n ob db (next_to a1 (calm b)) = (Inr (), u)"
    "wrote (p, n) sz ob db (tabs a) (tabs u)"
    using write_range_calm [of "next_to a1 (calm b)" p n sz db ob] assms(1-3,6,7) by (auto simp: a1)
  have b1: "tabs b1 = tabs u" using wr.success_tabs [OF other] by (simp add: u(1))
  obtain v where v: "write_range_commit p n oa da meta (next_to b1 (calm a1)) = (Inr (), v)"
    "wrote (p, n) sz oa da (tabs b1) (tabs v)"
    using write_range_commit_calm [of "next_to b1 (calm a1)" p n "max sz (ob + length db)" sz da oa m]
      u(2) m assms(3-5) by (auto simp: b1 wrote_def)
  have "tabs a2 = tabs v" using wc.success_tabs [OF commit] by (simp add: v(1))
  then show ?thesis using u(2) v(2) by (simp add: b1 wrote_def)
qed

theorem overtaken_write_loses_size_witness:
  "\<exists>meta a1 b1 a2. getattr_primary ''docs'' ''new'' (db_with demo []) = (Inr meta, a1) \<and>
     write_range ''docs'' ''new'' 0 [1, 2, 3] (next_to a1 (db_with demo [])) = (Inr (), b1) \<and>
     write_range_commit ''docs'' ''new'' 0 [9] meta (next_to b1 a1) = (Inr (), a2) \<and>
     is_file (tabs b1) (''docs'', ''new'') 3 \<and> is_file (tabs a2) (''docs'', ''new'') 1 \<and>
     byte_at (tabs a2) (''docs'', ''new'') 2 = 3"
proof -
  let ?a = "db_with demo []"
  obtain m where m: "meta_opt (ent demo (''docs'', ''new'')) = Inr (Some m)" "m_size m = 0"
    using meta_opt_file [OF demo_new] by blast
  then have look: "getattr_primary ''docs'' ''new'' ?a = (Inr (Some m), record_latency ?a)"
    using demo_keys by (simp add: getattr_primary_calm)
  let ?a1 = "record_latency ?a"
  obtain b1 where b1: "write_range ''docs'' ''new'' 0 [1, 2, 3] (next_to ?a1 ?a) = (Inr (), b1)"
    "wrote (''docs'', ''new'') 0 0 [1, 2, 3] demo (tabs b1)"
    using write_range_calm [of "next_to ?a1 ?a" "''docs''" "''new''" 0 "[1, 2, 3]" 0] demo_keys demo_new
    by auto
  have "is_file (tabs b1) (''docs'', ''new'') 3" "keys_ok (tabs b1)"
    using b1(2) by (simp_all add: wrote_def numeral_3_eq_3)
  then obtain a2 where a2: "write_range_commit ''docs'' ''new'' 0 [9] (Some m) (next_to b1 ?a1) = (Inr (), a2)"
    using write_range_commit_calm [of "next_to b1 ?a1" "''docs''" "''new''" 3 0 "[9]" 0 m] m(2) by auto
  from overtaken_write_loses_size [OF _ _ _ _ _ _ _ look b1(1) a2, of 0] demo_keys demo_new
  have "is_file (tabs b1) (''docs'', ''new'') 3 \<and> is_file (tabs a2) (''docs'', ''new'') 1 \<and>
      byte_at (tabs a2) (''docs'', ''new'') 2 = 3" by (simp add: numeral_3_eq_3)
  with look b1(1) a2 show ?thesis by blast
qed

end
