(* ===== verification/Db_Tests.thy ===== *)
theory Db_Tests
  imports Db_Writes Db_Namespace Error_Story "HOL-Library.Sublist"
begin

text \<open>
  The unit tests of \<open>src/db.rs\<close> that run against a database, as programs on the model: each
  makes a directory of its own below the root, works in it and removes it again. A failed
  assertion, an \<open>unwrap\<close> of an error and running out of fuel all end a test with an error, so
  a test has passed when its result is \<^term>\<open>Inr ()\<close>.
\<close>

section \<open>The vocabulary of the tests\<close>

definition assert_that :: "bool \<Rightarrow> unit dbm" where
  "assert_that b = (if b then db_return () else db_fail Panic)"

text \<open>\<open>assert!(p(m.unwrap()))\<close>\<close>

definition check :: "'a dbm \<Rightarrow> ('a \<Rightarrow> bool) \<Rightarrow> unit dbm" where
  "check m p = db_bind m (\<lambda>x. assert_that (p x))"

text \<open>\<open>assert!(p(m.unwrap_err()))\<close>\<close>

definition check_err :: "'a dbm \<Rightarrow> (db_error \<Rightarrow> bool) \<Rightarrow> unit dbm" where
  "check_err m p s =
     (case m s of
        (Inl e, s') \<Rightarrow> if e = Panic then (Inl Panic, s') else assert_that (p e) s'
      | (Inr _, s') \<Rightarrow> (Inl Panic, s'))"

text \<open>\<open>if let Ok(x) = m { f(x) }\<close> and \<open>m.ok()\<close>\<close>

definition if_ok :: "'a dbm \<Rightarrow> ('a \<Rightarrow> unit dbm) \<Rightarrow> unit dbm" where
  "if_ok m f s =
     (case m s of
        (Inr x, s') \<Rightarrow> f x s'
      | (Inl e, s') \<Rightarrow> (if e = Panic then Inl Panic else Inr (), s'))"

definition ignore :: "'a dbm \<Rightarrow> unit dbm" where
  "ignore m = if_ok m (\<lambda>_. db_return ())"

text \<open>Statements one after the other.\<close>

definition in_turn :: "unit dbm list \<Rightarrow> unit dbm" where
  "in_turn = db_for (\<lambda>m. m)"

text \<open>A byte string literal.\<close>

definition byte_string :: "string \<Rightarrow> bytes" where
  "byte_string = map of_char"

definition is_some :: "'a option \<Rightarrow> bool" where
  "is_some x \<longleftrightarrow> x \<noteq> None"

section \<open>The helpers\<close>

text \<open>The name from the process number and the nanoseconds since the epoch.\<close>

definition test_dir :: "nat \<Rightarrow> nat \<Rightarrow> string" where
  "test_dir pid nanos = ''_t_'' @ decimal pid @ ''_'' @ decimal nanos"

definition root_dir :: "string \<Rightarrow> string dbm" where
  "root_dir dir = db_bind (mkdir [] dir) (\<lambda>_. db_return dir)"

text \<open>The recursion of \<open>cleanup\<close>, with fuel for its depth.\<close>

fun remove_all :: "nat \<Rightarrow> string \<Rightarrow> unit dbm" where
  "remove_all 0 parent = db_fail Panic"
| "remove_all (Suc fuel) parent =
     if_ok (list_dir parent) (\<lambda>children.
       db_for (\<lambda>child.
         let child_path = join parent (m_name child) in
         case m_kind child of
           File \<Rightarrow> ignore (unlink parent (m_name child))
         | Dir \<Rightarrow>
             db_bind (remove_all fuel child_path) (\<lambda>_. ignore (rmdir parent (m_name child))))
         children)"

definition cleanup :: "nat \<Rightarrow> string \<Rightarrow> unit dbm" where
  "cleanup fuel root = db_bind (remove_all fuel root) (\<lambda>_. ignore (rmdir [] root))"

text \<open>The frame that the tests share.\<close>

definition in_test_dir :: "(string \<Rightarrow> unit dbm list) \<Rightarrow> nat \<Rightarrow> string \<Rightarrow> unit dbm" where
  "in_test_dir body fuel dir =
     db_bind (root_dir dir) (\<lambda>root. db_bind (in_turn (body root)) (\<lambda>_. cleanup fuel root))"

section \<open>Connection and blocks\<close>

definition connect_and_schema_exists :: "unit dbm" where
  "connect_and_schema_exists = check (list_dir []) (\<lambda>_. True)"

text \<open>The first check at \<^term>\<open>mono_now s\<close>, the second \<open>ms\<close> milliseconds later.\<close>

definition replica_freshness_caches_verdict :: "nat \<Rightarrow> db \<Rightarrow> bool" where
  "replica_freshness_caches_verdict ms s =
     (case replica_fresh_cached s of (fresh1, s1) \<Rightarrow>
        case replica_fresh_cached (s1\<lparr>mono_now := mono_now s1 + ms\<rparr>) of (fresh2, s2) \<Rightarrow>
          \<not> fresh1 \<and> freshness_checked_at s1 \<noteq> None \<and> \<not> fresh2 \<and>
          freshness_checked_at s2 = freshness_checked_at s1)"

definition block_storage_partial_write_and_read_range :: "nat \<Rightarrow> string \<Rightarrow> unit dbm" where
  "block_storage_partial_write_and_read_range = in_test_dir (\<lambda>root.
     [create root ''block.bin'',
      write_range root ''block.bin'' 0 (byte_string ''Hello ''),
      write_range root ''block.bin'' 6 (byte_string ''World!''),
      check (read_range root ''block.bin'' 0 12) (\<lambda>full. full = Some (byte_string ''Hello World!'')),
      check (read_range root ''block.bin'' 6 5) (\<lambda>slice. slice = Some (byte_string ''World''))])"

definition block_storage_truncate_prunes_blocks :: "nat \<Rightarrow> string \<Rightarrow> unit dbm" where
  "block_storage_truncate_prunes_blocks = in_test_dir (\<lambda>root.
     [create root ''trunc.bin'',
      write_range root ''trunc.bin'' 0 (replicate (100 * 1024) 1),
      db_truncate root ''trunc.bin'' 10,
      check (read_range root ''trunc.bin'' 0 100) (\<lambda>truncated. truncated = Some (replicate 10 1))])"

definition transaction_batching_multi_block_write :: "nat \<Rightarrow> string \<Rightarrow> unit dbm" where
  "transaction_batching_multi_block_write = in_test_dir (\<lambda>root.
     let payload = replicate (150 * 1024) 42 in
     [create root ''tx_batch.bin'',
      write_range root ''tx_batch.bin'' 0 payload,
      check (read_range root ''tx_batch.bin'' 0 (length payload)) (\<lambda>read_back. read_back = Some payload)])"

definition write_blocks_batch_flushes_dirty_blocks :: "nat \<Rightarrow> string \<Rightarrow> unit dbm" where
  "write_blocks_batch_flushes_dirty_blocks = in_test_dir (\<lambda>root.
     [create root ''buffered.bin'',
      write_blocks_batch root ''buffered.bin'' [(0, byte_string ''Hello Buffered '')] 15,
      check (read_range root ''buffered.bin'' 0 15)
        (\<lambda>content. content = Some (byte_string ''Hello Buffered ''))])"

definition no_replica_serves_primary :: "nat \<Rightarrow> string \<Rightarrow> unit dbm" where
  "no_replica_serves_primary fuel dir s =
     db_bind (assert_that (replica s = None)) (\<lambda>_. in_test_dir (\<lambda>root.
       [create root ''r.txt'',
        write_whole root ''r.txt'' (byte_string ''primary''),
        check (read_whole root ''r.txt'') (\<lambda>data. data = Some (byte_string ''primary''))]) fuel dir) s"

section \<open>Create, getattr, read, write\<close>

definition create_file_and_getattr :: "nat \<Rightarrow> string \<Rightarrow> unit dbm" where
  "create_file_and_getattr = in_test_dir (\<lambda>root.
     [create root ''hello.txt'',
      check (getattr root ''hello.txt'') (\<lambda>found. case found of
          None \<Rightarrow> False
        | Some meta \<Rightarrow> m_name meta = ''hello.txt'' \<and> m_kind meta = File \<and> m_size meta = 0),
      check (getattr root ''nope.txt'') (\<lambda>found. found = None)])"

definition getattr_root_level_file :: "nat \<Rightarrow> string \<Rightarrow> unit dbm" where
  "getattr_root_level_file = in_test_dir (\<lambda>root.
     [create root ''top.txt'',
      check (getattr root ''top.txt'') (\<lambda>found. case found of
          None \<Rightarrow> False
        | Some meta \<Rightarrow> m_name meta = ''top.txt'' \<and> m_kind meta = File)])"

definition read_empty_file :: "nat \<Rightarrow> string \<Rightarrow> unit dbm" where
  "read_empty_file = in_test_dir (\<lambda>root.
     [create root ''empty.bin'',
      check (read_whole root ''empty.bin'') (\<lambda>data. data = Some [])])"

definition write_and_read_roundtrip :: "nat \<Rightarrow> string \<Rightarrow> unit dbm" where
  "write_and_read_roundtrip = in_test_dir (\<lambda>root.
     [create root ''data.bin'',
      write_whole root ''data.bin'' (byte_string ''hello world''),
      check (read_whole root ''data.bin'') (\<lambda>data. data = Some (byte_string ''hello world'')),
      check (getattr root ''data.bin'') (\<lambda>found. map_option m_size found = Some 11)])"

definition write_overwrites_previous_content :: "nat \<Rightarrow> string \<Rightarrow> unit dbm" where
  "write_overwrites_previous_content = in_test_dir (\<lambda>root.
     [create root ''over.bin'',
      write_whole root ''over.bin'' (byte_string ''first''),
      write_whole root ''over.bin'' (byte_string ''second''),
      check (read_whole root ''over.bin'') (\<lambda>data. data = Some (byte_string ''second''))])"

definition read_nonexistent_file :: "nat \<Rightarrow> string \<Rightarrow> unit dbm" where
  "read_nonexistent_file = in_test_dir (\<lambda>root.
     [check (read_whole root ''ghost'') (\<lambda>data. data = None)])"

section \<open>Directories\<close>

definition mkdir_and_list_children :: "nat \<Rightarrow> string \<Rightarrow> unit dbm" where
  "mkdir_and_list_children = in_test_dir (\<lambda>root.
     [mkdir root ''sub'',
      check (list_dir root) (\<lambda>children. length children = 1 \<and>
        m_name (children ! 0) = ''sub'' \<and> m_kind (children ! 0) = Dir)])"

definition list_mixed_children_sorted_by_name :: "nat \<Rightarrow> string \<Rightarrow> unit dbm" where
  "list_mixed_children_sorted_by_name = in_test_dir (\<lambda>root.
     [mkdir root ''b_dir'', create root ''a_file'', create root ''c_file'',
      check (list_dir root) (\<lambda>children. map m_name children = [''a_file'', ''b_dir'', ''c_file''])])"

definition list_empty_directory :: "nat \<Rightarrow> string \<Rightarrow> unit dbm" where
  "list_empty_directory = in_test_dir (\<lambda>root. [check (list_dir root) (\<lambda>children. children = [])])"

definition getattr_directory :: "nat \<Rightarrow> string \<Rightarrow> unit dbm" where
  "getattr_directory = in_test_dir (\<lambda>root.
     [mkdir root ''mydir'',
      check (getattr root ''mydir'') (\<lambda>found. case found of
          None \<Rightarrow> False
        | Some meta \<Rightarrow> m_kind meta = Dir \<and> m_size meta = 0)])"

definition unlink_removes_file :: "nat \<Rightarrow> string \<Rightarrow> unit dbm" where
  "unlink_removes_file = in_test_dir (\<lambda>root.
     [create root ''gone.txt'', unlink root ''gone.txt'',
      check (getattr root ''gone.txt'') (\<lambda>found. found = None)])"

definition rmdir_empty_succeeds :: "nat \<Rightarrow> string \<Rightarrow> unit dbm" where
  "rmdir_empty_succeeds = in_test_dir (\<lambda>root.
     [mkdir root ''empty'', check (rmdir root ''empty'') (\<lambda>removed. removed),
      check (getattr root ''empty'') (\<lambda>found. found = None)])"

definition rmdir_not_empty_fails :: "nat \<Rightarrow> string \<Rightarrow> unit dbm" where
  "rmdir_not_empty_fails = in_test_dir (\<lambda>root.
     [mkdir root ''populated'', create (join root ''populated'') ''child.txt'',
      check (rmdir root ''populated'') (\<lambda>removed. \<not> removed),
      check (getattr root ''populated'') is_some])"

definition rmdir_nonexistent_returns_false :: "nat \<Rightarrow> string \<Rightarrow> unit dbm" where
  "rmdir_nonexistent_returns_false = in_test_dir (\<lambda>root.
     [check (rmdir root ''nope'') (\<lambda>removed. \<not> removed)])"

definition rmdir_nested_empty_dirs :: "nat \<Rightarrow> string \<Rightarrow> unit dbm" where
  "rmdir_nested_empty_dirs = in_test_dir (\<lambda>root.
     let a = join root ''a'' in
     [mkdir root ''a'', mkdir a ''b'',
      check (rmdir root ''a'') (\<lambda>removed. \<not> removed),
      check (rmdir a ''b'') (\<lambda>removed. removed),
      check (rmdir root ''a'') (\<lambda>removed. removed)])"

section \<open>Rename\<close>

text \<open>\<open>{:?}\<close> of a text whose characters are printable, but for those with an escape of their
  own.\<close>

definition escape_debug :: "char \<Rightarrow> string" where
  "escape_debug c =
     (if c = CHR 0x22 then [CHR 0x5C, CHR 0x22]
      else if c = CHR 0x5C then [CHR 0x5C, CHR 0x5C]
      else if c = CHR 0x0A then [CHR 0x5C, CHR ''n'']
      else if c = CHR 0x0D then [CHR 0x5C, CHR ''r'']
      else if c = CHR 0x09 then [CHR 0x5C, CHR ''t'']
      else if c = CHR 0x00 then [CHR 0x5C, CHR ''0'']
      else [c])"

definition debug_str :: "string \<Rightarrow> string" where
  "debug_str s = [CHR 0x22] @ concat (map escape_debug s) @ [CHR 0x22]"

text \<open>The messages of the failures that \<open>rename\<close> raises itself, as \<open>error::failure\<close> locates
  them; the other errors carry the driver's text.\<close>

fun rename_failure :: "db_error \<Rightarrow> chain option" where
  "rename_failure (No_source path) =
     Some (failure ''src/db.rs'' 818 (''rename source '' @ debug_str path @ '' does not exist''))"
| "rename_failure (Target_not_empty path) =
     Some (failure ''src/db.rs'' 843
       (''rename target directory '' @ debug_str path @ '' is not empty''))"
| "rename_failure (Zero_rows path) =
     Some (failure ''src/db.rs'' 904 (''rename of '' @ debug_str path @ '' updated zero rows''))"
| "rename_failure _ = None"

text \<open>\<open>format!("{err:#}").contains(text)\<close>\<close>

definition says :: "string \<Rightarrow> db_error \<Rightarrow> bool" where
  "says txt e = (case rename_failure e of None \<Rightarrow> False | Some err \<Rightarrow> sublist txt (story err))"

definition rename_file_simple :: "nat \<Rightarrow> string \<Rightarrow> unit dbm" where
  "rename_file_simple = in_test_dir (\<lambda>root.
     [create root ''old.txt'',
      write_whole root ''old.txt'' (byte_string ''payload''),
      rename root ''old.txt'' root ''new.txt'',
      check (getattr root ''old.txt'') (\<lambda>found. found = None),
      check (getattr root ''new.txt'') (\<lambda>found. map_option m_name found = Some ''new.txt''),
      check (read_whole root ''new.txt'') (\<lambda>data. data = Some (byte_string ''payload''))])"

definition rename_file_cross_directory :: "nat \<Rightarrow> string \<Rightarrow> unit dbm" where
  "rename_file_cross_directory = in_test_dir (\<lambda>root.
     [mkdir root ''src'', mkdir root ''dst'',
      create (join root ''src'') ''f.txt'',
      write_whole (join root ''src'') ''f.txt'' (byte_string ''x''),
      rename (join root ''src'') ''f.txt'' (join root ''dst'') ''f.txt'',
      check (getattr (join root ''src'') ''f.txt'') (\<lambda>found. found = None),
      check (getattr (join root ''dst'') ''f.txt'') is_some])"

definition rename_file_overwrite_existing_file :: "nat \<Rightarrow> string \<Rightarrow> unit dbm" where
  "rename_file_overwrite_existing_file = in_test_dir (\<lambda>root.
     [create root ''a.txt'', write_whole root ''a.txt'' (byte_string ''A''),
      create root ''b.txt'', write_whole root ''b.txt'' (byte_string ''B''),
      rename root ''a.txt'' root ''b.txt'',
      check (getattr root ''a.txt'') (\<lambda>found. found = None),
      check (read_whole root ''b.txt'') (\<lambda>data. data = Some (byte_string ''A''))])"

definition rename_dir_with_children_cascades :: "nat \<Rightarrow> string \<Rightarrow> unit dbm" where
  "rename_dir_with_children_cascades = in_test_dir (\<lambda>root.
     let src = join root ''src''; dest = join root ''dest'' in
     [mkdir root ''src'', mkdir src ''sub'', create src ''top.txt'',
      create (join src ''sub'') ''deep.txt'',
      rename root ''src'' root ''dest'',
      check (getattr root ''src'') (\<lambda>found. found = None),
      check (getattr root ''dest'') is_some,
      check (getattr dest ''top.txt'') is_some,
      check (getattr dest ''sub'') is_some,
      check (getattr (join dest ''sub'') ''deep.txt'') is_some])"

definition rename_dir_overwrite_empty_dir :: "nat \<Rightarrow> string \<Rightarrow> unit dbm" where
  "rename_dir_overwrite_empty_dir = in_test_dir (\<lambda>root.
     [mkdir root ''src'', create (join root ''src'') ''payload.txt'', mkdir root ''dst'',
      rename root ''src'' root ''dst'',
      check (getattr root ''src'') (\<lambda>found. found = None),
      check (getattr root ''dst'') is_some,
      check (getattr (join root ''dst'') ''payload.txt'') is_some])"

definition rename_nonexistent_source_errors :: "nat \<Rightarrow> string \<Rightarrow> unit dbm" where
  "rename_nonexistent_source_errors = in_test_dir (\<lambda>root.
     [check_err (rename root ''ghost'' root ''any'') (says ''does not exist'')])"

definition rename_over_non_empty_dir_errors :: "nat \<Rightarrow> string \<Rightarrow> unit dbm" where
  "rename_over_non_empty_dir_errors = in_test_dir (\<lambda>root.
     [mkdir root ''empty'', mkdir root ''full'', create (join root ''full'') ''guard.txt'',
      check_err (rename root ''empty'' root ''full'') (says ''not empty''),
      check (getattr (join root ''full'') ''guard.txt'') is_some])"

definition rename_onto_self_is_noop :: "nat \<Rightarrow> string \<Rightarrow> unit dbm" where
  "rename_onto_self_is_noop = in_test_dir (\<lambda>root.
     [create root ''self.txt'', write_whole root ''self.txt'' (byte_string ''hi''),
      rename root ''self.txt'' root ''self.txt'',
      check (read_whole root ''self.txt'') (\<lambda>data. data = Some (byte_string ''hi''))])"

section \<open>Creating what exists\<close>

definition create_existing_is_silent_noop :: "nat \<Rightarrow> string \<Rightarrow> unit dbm" where
  "create_existing_is_silent_noop = in_test_dir (\<lambda>root.
     [create root ''dup.txt'', create root ''dup.txt''])"

definition mkdir_existing_is_silent_noop :: "nat \<Rightarrow> string \<Rightarrow> unit dbm" where
  "mkdir_existing_is_silent_noop = in_test_dir (\<lambda>root. [mkdir root ''dup'', mkdir root ''dup''])"

section \<open>The suite\<close>

definition db_tests :: "(nat \<Rightarrow> string \<Rightarrow> unit dbm) list" where
  "db_tests =
     [block_storage_partial_write_and_read_range, block_storage_truncate_prunes_blocks,
      transaction_batching_multi_block_write, write_blocks_batch_flushes_dirty_blocks,
      no_replica_serves_primary, create_file_and_getattr, getattr_root_level_file, read_empty_file,
      write_and_read_roundtrip, write_overwrites_previous_content, read_nonexistent_file,
      mkdir_and_list_children, list_mixed_children_sorted_by_name, list_empty_directory,
      getattr_directory, unlink_removes_file, rmdir_empty_succeeds, rmdir_not_empty_fails,
      rmdir_nonexistent_returns_false, rmdir_nested_empty_dirs, rename_file_simple,
      rename_file_cross_directory, rename_file_overwrite_existing_file,
      rename_dir_with_children_cascades, rename_dir_overwrite_empty_dir,
      rename_nonexistent_source_errors, rename_over_non_empty_dir_errors, rename_onto_self_is_noop,
      create_existing_is_silent_noop, mkdir_existing_is_silent_noop]"

end
