(* ===== verification/Db_Locality.thy ===== *)
theory Db_Locality
  imports Contents_Correct Dir_Tree
begin

text \<open>
  Locality of the operations of \<open>Db\<close>. A predicate \<open>own\<close> on keys cuts the tables into the rows
  it holds of and the others. An operation is \<open>local\<close> when, under any fates, its result and
  the own rows after it are those of a run on the own rows alone, and the others stay as they
  are. Every operation is local when the rows it names are its own, so work below one
  directory neither sees nor disturbs the rest of the tree.
\<close>

section \<open>Own rows and others\<close>

definition only :: "(key \<Rightarrow> bool) \<Rightarrow> tables \<Rightarrow> tables" where
  "only own t = \<lparr>entries = filter (\<lambda>r. own (entry_key r)) (entries t),
                 blocks = filter (\<lambda>b. own (block_file b)) (blocks t)\<rparr>"

abbreviation others :: "(key \<Rightarrow> bool) \<Rightarrow> tables \<Rightarrow> tables" where
  "others own \<equiv> only (\<lambda>k. \<not> own k)"

definition own_part :: "(key \<Rightarrow> bool) \<Rightarrow> db \<Rightarrow> db" where
  "own_part own s = s\<lparr>tabs := only own (tabs s)\<rparr>"

text \<open>\<open>q\<close> is what the others are.\<close>

definition local_to :: "(key \<Rightarrow> bool) \<Rightarrow> tables \<Rightarrow> 'a dbm \<Rightarrow> bool" where
  "local_to own q m \<longleftrightarrow> (\<forall>s r s'. others own (tabs s) = q \<longrightarrow> m s = (r, s') \<longrightarrow>
     m (own_part own s) = (r, own_part own s') \<and> others own (tabs s') = q)"

definition local_stmt :: "(key \<Rightarrow> bool) \<Rightarrow> tables \<Rightarrow> 'a stmt \<Rightarrow> bool" where
  "local_stmt own q f \<longleftrightarrow> (\<forall>t. others own t = q \<longrightarrow>
     (case f t of
        None \<Rightarrow> f (only own t) = None
      | Some (r, t') \<Rightarrow> f (only own t) = Some (r, only own t') \<and> others own t' = q))"

lemma own_part_simps [simp]:
  "tabs (own_part own s) = only own (tabs s)" "fates (own_part own s) = fates s"
  "pg_now (own_part own s) = pg_now s" "replica (own_part own s) = replica s"
  "freshness_checked_at (own_part own s) = freshness_checked_at s"
  "freshness_cached (own_part own s) = freshness_cached s" "mono_now (own_part own s) = mono_now s"
  "(own_part own s)\<lparr>tabs := t\<rparr> = s\<lparr>tabs := t\<rparr>" "(own_part own s)\<lparr>fates := fs\<rparr> = own_part own (s\<lparr>fates := fs\<rparr>)"
  "own_part own (s\<lparr>tabs := t\<rparr>) = s\<lparr>tabs := only own t\<rparr>"
  "record_latency (own_part own s) = own_part own (record_latency s)"
  by (simp_all add: own_part_def record_latency_def)

lemma only_simps [simp]:
  "entries (only own t) = filter (\<lambda>r. own (entry_key r)) (entries t)"
  "blocks (only own t) = filter (\<lambda>b. own (block_file b)) (blocks t)"
  by (simp_all add: only_def)

lemma only_update [simp]:
  "only own (t\<lparr>entries := es\<rparr>) = (only own t)\<lparr>entries := filter (\<lambda>r. own (entry_key r)) es\<rparr>"
  "only own (t\<lparr>blocks := bs\<rparr>) = (only own t)\<lparr>blocks := filter (\<lambda>b. own (block_file b)) bs\<rparr>"
  by (simp_all add: only_def)

lemma only_same:
  "(only own t)\<lparr>entries := filter (\<lambda>r. own (entry_key r)) (entries t)\<rparr> = only own t"
  "(only own t)\<lparr>blocks := filter (\<lambda>b. own (block_file b)) (blocks t)\<rparr> = only own t"
  by (simp_all add: only_def)

lemma local_toD:
  assumes "local_to own q m" and "others own (tabs s) = q" and "m s = (r, s')"
  shows "m (own_part own s) = (r, own_part own s')" and "others own (tabs s') = q"
  using assms unfolding local_to_def by blast+

lemma local_toI:
  assumes "\<And>s r s'. others own (tabs s) = q \<Longrightarrow> m s = (r, s') \<Longrightarrow>
    m (own_part own s) = (r, own_part own s') \<and> others own (tabs s') = q"
  shows "local_to own q m"
  using assms unfolding local_to_def by blast

section \<open>Statements on own rows\<close>

lemma filter_own:
  assumes "\<And>x. x \<in> set xs \<Longrightarrow> P x \<Longrightarrow> own (key x)"
  shows "filter P (filter (\<lambda>x. own (key x)) xs) = filter P xs"
    and "filter (\<lambda>x. \<not> own (key x)) (filter (\<lambda>x. \<not> P x) xs) = filter (\<lambda>x. \<not> own (key x)) xs"
  using assms by (auto intro: filter_cong)

lemma filter_map_own:
  assumes "\<And>x. x \<in> set xs \<Longrightarrow> P x \<Longrightarrow> own (key x) \<and> own (key (f x))"
  shows "filter (\<lambda>x. own (key x)) (map (\<lambda>x. if P x then f x else x) xs) =
      map (\<lambda>x. if P x then f x else x) (filter (\<lambda>x. own (key x)) xs)"
    and "filter (\<lambda>x. \<not> own (key x)) (map (\<lambda>x. if P x then f x else x) xs) =
      filter (\<lambda>x. \<not> own (key x)) xs"
  using assms by (induction xs) auto

lemma list_ex_own:
  assumes "\<And>x. x \<in> set xs \<Longrightarrow> P x \<Longrightarrow> own (key x)"
  shows "list_ex P (filter (\<lambda>x. own (key x)) xs) = list_ex P xs"
  using assms by (auto simp: list_ex_iff)

text \<open>No other row has the parent: every child of it is an own row.\<close>

definition own_dir :: "tables \<Rightarrow> string \<Rightarrow> bool" where
  "own_dir q p \<longleftrightarrow> p \<notin> e_parent ` set (entries q)"

lemma own_dirD:
  assumes "own_dir q p" and "others own t = q" and "r \<in> set (entries t)" and "e_parent r = p"
  shows "own (entry_key r)"
  using assms unfolding own_dir_def by auto

lemma local_read:
  "(\<And>t. others own t = q \<Longrightarrow> f (only own t) = f t) \<Longrightarrow> local_stmt own q (sql_read f)"
  by (simp add: local_stmt_def sql_read_def)

lemma local_opt:
  "(\<And>t. others own t = q \<Longrightarrow> f (only own t) = f t) \<Longrightarrow> local_stmt own q (sql_opt f)"
  by (simp add: local_stmt_def sql_opt_def split: list.split)

lemma select_own [simp]:
  assumes "own k"
  shows "select_entry k (only own t) = select_entry k t"
    and "select_blocks k lo hi (only own t) = select_blocks k lo hi t"
  unfolding select_entry_def select_blocks_def only_simps
  using assms by (subst filter_own(1); auto)+

lemma select_children_own:
  assumes "own_dir q p" and "others own t = q"
  shows "select_children p (only own t) = select_children p t"
    and "select_one_child p (only own t) = select_one_child p t"
  unfolding select_children_def select_one_child_def only_simps
  using own_dirD [OF assms] by (subst filter_own(1); auto)+

lemmas select_children_others [simp] = select_children_own [OF _ refl]

lemma block_key_file: "block_key b = (k, no) \<Longrightarrow> block_file b = k"
  by (simp add: block_key_def block_file_def)

lemma block_keys_file: "block_key b = block_key c \<Longrightarrow> block_file b = block_file c"
  by (simp add: block_key_def block_file_def)

lemma local_keyed:
  assumes "own k"
  shows "local_stmt own q (insert_entry k kind now)" and "local_stmt own q (update_size k sz now)"
    and "local_stmt own q (delete_entry k)" and "local_stmt own q (upsert_block k no data)"
    and "local_stmt own q (prune_blocks k keep)" and "local_stmt own q (delete_blocks k)"
proof -
  have e: "list_ex (\<lambda>r. entry_key r = k) (filter (\<lambda>r. own (entry_key r)) rs) =
      list_ex (\<lambda>r. entry_key r = k) rs"
    "filter (\<lambda>r. entry_key r = k) (filter (\<lambda>r. own (entry_key r)) rs) = filter (\<lambda>r. entry_key r = k) rs"
    for rs using assms by (auto intro!: list_ex_own filter_cong)
  have b: "list_ex (\<lambda>b. block_key b = (k, no)) (filter (\<lambda>b. own (block_file b)) bs) =
      list_ex (\<lambda>b. block_key b = (k, no)) bs"
    "filter (\<lambda>b. block_file b = k \<and> P b) (filter (\<lambda>b. own (block_file b)) bs) =
      filter (\<lambda>b. block_file b = k \<and> P b) bs" for bs P
    using assms by (auto intro!: list_ex_own filter_cong dest: block_key_file)
  have key: "entry_key (r\<lparr>e_size := sz, e_mtime := now\<rparr>) = entry_key r"
    "block_file (c\<lparr>b_data := data\<rparr>) = block_file c" for r :: entry and c :: block
    by (simp_all add: entry_key_def block_file_def)
  have new: "entry_key \<lparr>e_parent = fst k, e_name = snd k, e_kind = kind, e_data = [], e_size = 0, e_mtime = now\<rparr> = k"
    "block_file \<lparr>b_parent = fst k, b_name = snd k, b_no = no, b_data = data\<rparr> = k"
    by (simp_all add: entry_key_def block_file_def)
  have map_e: "filter (\<lambda>r. own (entry_key r)) (map (\<lambda>r. if entry_key r = k then r\<lparr>e_size := sz, e_mtime := now\<rparr> else r) rs) =
      map (\<lambda>r. if entry_key r = k then r\<lparr>e_size := sz, e_mtime := now\<rparr> else r) (filter (\<lambda>r. own (entry_key r)) rs)"
    "filter (\<lambda>r. \<not> own (entry_key r)) (map (\<lambda>r. if entry_key r = k then r\<lparr>e_size := sz, e_mtime := now\<rparr> else r) rs) =
      filter (\<lambda>r. \<not> own (entry_key r)) rs" for rs
    using assms by (auto intro!: filter_map_own simp: key)
  have map_b: "filter (\<lambda>b. own (block_file b)) (map (\<lambda>b. if block_key b = (k, no) then b\<lparr>b_data := data\<rparr> else b) bs) =
      map (\<lambda>b. if block_key b = (k, no) then b\<lparr>b_data := data\<rparr> else b) (filter (\<lambda>b. own (block_file b)) bs)"
    "filter (\<lambda>b. \<not> own (block_file b)) (map (\<lambda>b. if block_key b = (k, no) then b\<lparr>b_data := data\<rparr> else b) bs) =
      filter (\<lambda>b. \<not> own (block_file b)) bs" for bs
    using assms by (auto intro!: filter_map_own simp: key dest: block_key_file)
  have drop: "filter (\<lambda>r. own (entry_key r)) (filter (\<lambda>r. entry_key r \<noteq> k) rs) =
      filter (\<lambda>r. entry_key r \<noteq> k) (filter (\<lambda>r. own (entry_key r)) rs)"
    "filter (\<lambda>r. \<not> own (entry_key r)) (filter (\<lambda>r. entry_key r \<noteq> k) rs) =
      filter (\<lambda>r. \<not> own (entry_key r)) rs"
    "filter (\<lambda>b. own (block_file b)) (filter (\<lambda>b. \<not> (block_file b = k \<and> P b)) bs) =
      filter (\<lambda>b. \<not> (block_file b = k \<and> P b)) (filter (\<lambda>b. own (block_file b)) bs)"
    "filter (\<lambda>b. \<not> own (block_file b)) (filter (\<lambda>b. \<not> (block_file b = k \<and> P b)) bs) =
      filter (\<lambda>b. \<not> own (block_file b)) bs" for rs bs P
    using assms by (auto simp: conj_commute intro: filter_cong)
  note simps = local_stmt_def only_same e b map_e map_b drop drop(3,4) [of "\<lambda>_. True", simplified simp_thms]
    b(2) [of "\<lambda>_. True", simplified simp_thms]
  show "local_stmt own q (insert_entry k kind now)"
    using assms by (auto simp: simps insert_entry_def new)
  show "local_stmt own q (update_size k sz now)"
    by (auto simp: simps update_size_def select_entry_def simp del: filter_filter)
  show "local_stmt own q (delete_entry k)"
    by (auto simp: simps delete_entry_def select_entry_def simp del: filter_filter)
  show "local_stmt own q (upsert_block k no data)"
    using assms by (auto simp: simps upsert_block_def new simp del: filter_filter)
  show "local_stmt own q (prune_blocks k keep)"
    by (auto simp: simps prune_blocks_def simp del: filter_filter de_Morgan_conj)
  show "local_stmt own q (delete_blocks k)"
    by (auto simp: simps delete_blocks_def simp del: filter_filter)
qed

text \<open>The updates of key columns, where own rows turn into own rows.\<close>

lemma update_keyed_own:
  assumes "\<And>r. r \<in> set rs \<Longrightarrow> P r \<Longrightarrow> own (kf r)" and "\<And>r. P r \<Longrightarrow> own (kf (f r))"
    and "\<And>p r. key p = key r \<Longrightarrow> kf p = kf r"
  shows "case update_keyed key P f done rs of
      None \<Rightarrow> update_keyed key P f (filter (\<lambda>r. own (kf r)) done) (filter (\<lambda>r. own (kf r)) rs) = None
    | Some rs' \<Rightarrow>
        update_keyed key P f (filter (\<lambda>r. own (kf r)) done) (filter (\<lambda>r. own (kf r)) rs) =
          Some (filter (\<lambda>r. own (kf r)) rs') \<and>
        filter (\<lambda>r. \<not> own (kf r)) rs' = filter (\<lambda>r. \<not> own (kf r)) (done @ rs)"
  using assms(1)
proof (induction rs arbitrary: "done")
  case (Cons r rs)
  show ?case
  proof (cases "P r")
    case True
    then have own: "own (kf r)" "own (kf (f r))" using Cons.prems assms(2) by auto
    let ?clash = "list_ex (\<lambda>p. key p = key (f r))"
    have clash: "?clash (filter (\<lambda>r. own (kf r)) xs) = ?clash xs" for xs
      by (rule list_ex_own) (metis own(2) assms(3))
    note IH = Cons.IH [of "done @ [f r]", OF Cons.prems [OF list.set_intros(2)]]
    show ?thesis
    proof (cases "?clash done \<or> ?clash rs")
      case True
      with \<open>P r\<close> own show ?thesis by (auto simp: clash)
    next
      case False
      with IH \<open>P r\<close> own show ?thesis
        by (cases "update_keyed key P f (done @ [f r]) rs") (simp_all add: clash)
    qed
  next
    case False
    note IH = Cons.IH [of "done @ [r]", OF Cons.prems [OF list.set_intros(2)]]
    with False show ?thesis
      by (cases "own (kf r)"; cases "update_keyed key P f (done @ [r]) rs") simp_all
  qed
qed simp

lemmas update_keyed_rows = update_keyed_own [where ?done = "[]", unfolded append_Nil list.simps filter.simps(1)]

text \<open>A rename of \<open>old\<close> to \<open>new\<close> rewrites only own rows, into own rows: its pattern matches no
  other row, and a row below the new path is an own row.\<close>

definition own_move :: "(key \<Rightarrow> bool) \<Rightarrow> tables \<Rightarrow> string \<Rightarrow> string \<Rightarrow> bool" where
  "own_move own q old_path new_path \<longleftrightarrow>
     (\<forall>r \<in> set (entries q). \<not> under old_path (e_parent r)) \<and>
     (\<forall>b \<in> set (blocks q). \<not> under old_path (b_parent b)) \<and>
     (\<forall>p n. prefix new_path p \<longrightarrow> own (p, n))"

lemma local_update:
  assumes "\<And>t. others own t = q \<Longrightarrow> case f (rows t) of
      None \<Rightarrow> f (rows (only own t)) = None
    | Some rs \<Rightarrow> f (rows (only own t)) = Some (filter (\<lambda>r. own (kf r)) rs) \<and>
        filter (\<lambda>r. \<not> own (kf r)) rs = filter (\<lambda>r. \<not> own (kf r)) (rows t)"
    and "\<And>t. others own t = q \<Longrightarrow> hits (only own t) = hits t"
    and "\<And>own t rs. only own (setr rs t) = setr (filter (\<lambda>r. own (kf r)) rs) (only own t)"
    and "\<And>own t. setr (filter (\<lambda>r. own (kf r)) (rows t)) (only own t) = only own t"
  shows "local_stmt own q (\<lambda>t. map_option (\<lambda>rs. (hits t, setr rs t)) (f (rows t)))"
  unfolding local_stmt_def
proof (intro allI impI)
  fix t
  assume q: "others own t = q"
  with assms(1) [OF this] assms(2) [OF this] assms(3) [of own] assms(3) [of "\<lambda>k. \<not> own k"]
    assms(4) [of "\<lambda>k. \<not> own k" t]
  show "case map_option (\<lambda>rs. (hits t, setr rs t)) (f (rows t)) of
      None \<Rightarrow> map_option (\<lambda>rs. (hits (only own t), setr rs (only own t))) (f (rows (only own t))) = None
    | Some (r, t') \<Rightarrow>
        map_option (\<lambda>rs. (hits (only own t), setr rs (only own t))) (f (rows (only own t))) =
          Some (r, only own t') \<and> others own t' = q"
    by (cases "f (rows t)") auto
qed

lemmas local_entries = local_update [where rows = entries and kf = entry_key and
    setr = "\<lambda>rs t. t\<lparr>entries := rs\<rparr>", OF _ _ only_update(1) only_same(1)]
lemmas local_blocks = local_update [where rows = blocks and kf = block_file and
    setr = "\<lambda>rs t. t\<lparr>blocks := rs\<rparr>", OF _ _ only_update(2) only_same(2)]

lemma local_rewrites:
  assumes "own_move own q old_path new_path"
  shows "local_stmt own q (rewrite_entries new_path n old_path)"
    and "local_stmt own q (rewrite_blocks new_path n old_path)"
proof -
  have new: "own (reparent new_path n p, m)" for p m
    using assms by (auto simp: own_move_def reparent_def)
  then have new_e: "own (entry_key (r\<lparr>e_parent := reparent new_path n (e_parent r)\<rparr>))"
    and new_b: "own (block_file (b\<lparr>b_parent := reparent new_path n (b_parent b)\<rparr>))" for r b
    by (simp_all add: entry_key_def block_file_def)
  have e: "own (entry_key r)" if "others own t = q" "r \<in> set (entries t)" "under old_path (e_parent r)" for t r
    using that assms by (auto simp: own_move_def)
  have b: "own (block_file b)" if "others own t = q" "b \<in> set (blocks t)" "under old_path (b_parent b)" for t b
    using that assms by (auto simp: own_move_def)
  show "local_stmt own q (rewrite_entries new_path n old_path)"
    unfolding rewrite_entries_def
  proof (rule local_entries)
    fix t
    assume q: "others own t = q"
    show "case update_keyed entry_key (\<lambda>r. under old_path (e_parent r))
          (\<lambda>r. r\<lparr>e_parent := reparent new_path n (e_parent r)\<rparr>) [] (entries t) of
        None \<Rightarrow> update_keyed entry_key (\<lambda>r. under old_path (e_parent r))
          (\<lambda>r. r\<lparr>e_parent := reparent new_path n (e_parent r)\<rparr>) [] (entries (only own t)) = None
      | Some rs \<Rightarrow> update_keyed entry_key (\<lambda>r. under old_path (e_parent r))
          (\<lambda>r. r\<lparr>e_parent := reparent new_path n (e_parent r)\<rparr>) [] (entries (only own t)) =
            Some (filter (\<lambda>r. own (entry_key r)) rs) \<and>
          filter (\<lambda>r. \<not> own (entry_key r)) rs = filter (\<lambda>r. \<not> own (entry_key r)) (entries t)"
      unfolding only_simps using e [OF q] new_e by (intro update_keyed_rows) auto
    show "length (filter (\<lambda>r. under old_path (e_parent r)) (entries (only own t))) =
        length (filter (\<lambda>r. under old_path (e_parent r)) (entries t))"
      unfolding only_simps using e [OF q] by (subst filter_own(1)) auto
  qed
  show "local_stmt own q (rewrite_blocks new_path n old_path)"
    unfolding rewrite_blocks_def
  proof (rule local_blocks)
    fix t
    assume q: "others own t = q"
    show "case update_keyed block_key (\<lambda>b. under old_path (b_parent b))
          (\<lambda>b. b\<lparr>b_parent := reparent new_path n (b_parent b)\<rparr>) [] (blocks t) of
        None \<Rightarrow> update_keyed block_key (\<lambda>b. under old_path (b_parent b))
          (\<lambda>b. b\<lparr>b_parent := reparent new_path n (b_parent b)\<rparr>) [] (blocks (only own t)) = None
      | Some rs \<Rightarrow> update_keyed block_key (\<lambda>b. under old_path (b_parent b))
          (\<lambda>b. b\<lparr>b_parent := reparent new_path n (b_parent b)\<rparr>) [] (blocks (only own t)) =
            Some (filter (\<lambda>r. own (block_file r)) rs) \<and>
          filter (\<lambda>r. \<not> own (block_file r)) rs = filter (\<lambda>r. \<not> own (block_file r)) (blocks t)"
      unfolding only_simps using b [OF q] new_b by (intro update_keyed_rows) (auto dest: block_keys_file)
    show "length (filter (\<lambda>b. under old_path (b_parent b)) (blocks (only own t))) =
        length (filter (\<lambda>b. under old_path (b_parent b)) (blocks t))"
      unfolding only_simps using b [OF q] by (subst filter_own(1)) auto
  qed
qed

lemma local_moves:
  assumes "own new" and "own old"
  shows "local_stmt own q (move_entry new old now)" and "local_stmt own q (move_blocks new old)"
proof -
  have new: "entry_key (r\<lparr>e_parent := fst new, e_name := snd new, e_mtime := now\<rparr>) = new"
    "block_file (b\<lparr>b_parent := fst new, b_name := snd new\<rparr>) = new" for r b
    by (simp_all add: entry_key_def block_file_def)
  show "local_stmt own q (move_entry new old now)"
    unfolding move_entry_def
  proof (rule local_entries)
    fix t
    show "case update_keyed entry_key (\<lambda>r. entry_key r = old)
          (\<lambda>r. r\<lparr>e_parent := fst new, e_name := snd new, e_mtime := now\<rparr>) [] (entries t) of
        None \<Rightarrow> update_keyed entry_key (\<lambda>r. entry_key r = old)
          (\<lambda>r. r\<lparr>e_parent := fst new, e_name := snd new, e_mtime := now\<rparr>) [] (entries (only own t)) = None
      | Some rs \<Rightarrow> update_keyed entry_key (\<lambda>r. entry_key r = old)
          (\<lambda>r. r\<lparr>e_parent := fst new, e_name := snd new, e_mtime := now\<rparr>) [] (entries (only own t)) =
            Some (filter (\<lambda>r. own (entry_key r)) rs) \<and>
          filter (\<lambda>r. \<not> own (entry_key r)) rs = filter (\<lambda>r. \<not> own (entry_key r)) (entries t)"
      unfolding only_simps using assms by (intro update_keyed_rows) (auto simp: new)
    show "length (select_entry old (only own t)) = length (select_entry old t)"
      by (simp only: select_own [of own, OF assms(2)])
  qed
  show "local_stmt own q (move_blocks new old)"
    unfolding move_blocks_def
  proof (rule local_blocks)
    fix t
    show "case update_keyed block_key (\<lambda>b. block_file b = old)
          (\<lambda>b. b\<lparr>b_parent := fst new, b_name := snd new\<rparr>) [] (blocks t) of
        None \<Rightarrow> update_keyed block_key (\<lambda>b. block_file b = old)
          (\<lambda>b. b\<lparr>b_parent := fst new, b_name := snd new\<rparr>) [] (blocks (only own t)) = None
      | Some rs \<Rightarrow> update_keyed block_key (\<lambda>b. block_file b = old)
          (\<lambda>b. b\<lparr>b_parent := fst new, b_name := snd new\<rparr>) [] (blocks (only own t)) =
            Some (filter (\<lambda>r. own (block_file r)) rs) \<and>
          filter (\<lambda>r. \<not> own (block_file r)) rs = filter (\<lambda>r. \<not> own (block_file r)) (blocks t)"
      unfolding only_simps using assms by (intro update_keyed_rows) (auto simp: new dest: block_keys_file)
    show "length (filter (\<lambda>b. block_file b = old) (blocks (only own t))) =
        length (filter (\<lambda>b. block_file b = old) (blocks t))"
      unfolding only_simps using assms(2) by (subst filter_own(1)) auto
  qed
qed

section \<open>Sequencing\<close>

lemma local_exec:
  assumes "local_stmt own q f"
  shows "local_to own q (pg_exec step f)"
proof (rule local_toI)
  fix s r s'
  assume q: "others own (tabs s) = q" and run: "pg_exec step f s = (r, s')"
  have stmt: "run_stmt step f (own_part own u) = (fst (run_stmt step f u), own_part own (snd (run_stmt step f u))) \<and>
      others own (tabs (snd (run_stmt step f u))) = q" if "tabs u = tabs s" for u
    using assms [unfolded local_stmt_def, rule_format, OF q] that q
    by (auto simp: run_stmt_def split: option.splits)
  from run stmt [of s] stmt [of "s\<lparr>fates := tl (fates s)\<rparr>"] q
  show "pg_exec step f (own_part own s) = (r, own_part own s') \<and> others own (tabs s') = q"
    by (auto simp: pg_exec_def Let_def split: list.splits fate.splits)
qed

lemma local_exec_now:
  assumes "\<And>now. local_stmt own q (f now)"
  shows "local_to own q (pg_exec_now step f)"
proof (rule local_toI)
  fix s r s'
  assume "others own (tabs s) = q" and "pg_exec_now step f s = (r, s')"
  from local_toD [OF local_exec [OF assms] this [unfolded pg_exec_now_def]]
  show "pg_exec_now step f (own_part own s) = (r, own_part own s') \<and> others own (tabs s') = q"
    by (simp add: pg_exec_now_def)
qed

lemma local_return: "local_to own q (db_return x)"
  and local_fail: "local_to own q (db_fail e)"
  and local_timed: "local_to own q (timed_return x)"
  and local_result: "local_to own q (\<lambda>s. (r, record_latency s))"
  by (auto simp: local_to_def db_return_def db_fail_def timed_return_def)

lemma local_bind:
  assumes "local_to own q m" and "\<And>x. local_to own q (f x)"
  shows "local_to own q (db_bind m f)"
proof (rule local_toI)
  fix s r s'
  assume q: "others own (tabs s) = q" and run: "db_bind m f s = (r, s')"
  obtain x s1 where m: "m s = (x, s1)" by (cases "m s")
  note at_m = local_toD [OF assms(1) q m]
  from run m at_m local_toD [OF assms(2) at_m(2)]
  show "db_bind m f (own_part own s) = (r, own_part own s') \<and> others own (tabs s') = q"
    by (cases x) (auto simp: db_bind_def)
qed

lemma local_for: "(\<And>x. x \<in> set xs \<Longrightarrow> local_to own q (body x)) \<Longrightarrow> local_to own q (db_for body xs)"
  by (induction xs) (auto intro: local_return local_bind)

lemma local_if:
  "(b \<Longrightarrow> local_to own q m) \<Longrightarrow> (\<not> b \<Longrightarrow> local_to own q m') \<Longrightarrow> local_to own q (if b then m else m')"
  by simp

lemma local_transaction:
  assumes "local_to own q body"
  shows "local_to own q (pg_transaction body)"
proof (rule local_toI)
  fix s r s'
  assume q: "others own (tabs s) = q" and run: "pg_transaction body s = (r, s')"
  obtain x s1 where b: "pg_exec Begin_txn (sql_read (\<lambda>_. ())) s = (x, s1)"
    by (cases "pg_exec Begin_txn (sql_read (\<lambda>_. ())) s")
  note at_b = local_toD [OF local_exec [OF local_read [of own q "\<lambda>_. ()", OF refl]] q b]
  obtain y s2 where c: "body s1 = (y, s2)" by (cases "body s1")
  note at_c = local_toD [OF assms at_b(2) c]
  show "pg_transaction body (own_part own s) = (r, own_part own s') \<and> others own (tabs s') = q"
    using run b c at_b at_c
    by (cases x; cases y) (auto simp: pg_transaction_def Let_def split: list.splits fate.splits)
qed

lemmas local_intros = local_exec local_exec_now local_read local_opt local_keyed local_return local_fail
  local_timed local_result local_bind local_for local_if local_transaction

section \<open>The operations\<close>

lemma local_getattr_primary: "own (parent, name) \<Longrightarrow> local_to own q (getattr_primary parent name)"
  unfolding getattr_primary_def by (intro local_intros) simp

lemma local_list_primary: "own_dir q parent \<Longrightarrow> local_to own q (list_primary parent)"
  unfolding list_primary_def by (intro local_intros) simp

lemma choose_standby_alone:
  "choose_standby (own_part own s) = (fst (choose_standby s), own_part own (snd (choose_standby s)))"
proof -
  have fresh: "replica_fresh (own_part own s) = replica_fresh s"
    unfolding replica_fresh_def own_part_simps ..
  have "replica_fresh_cached (own_part own s) =
      (fst (replica_fresh_cached s), own_part own (snd (replica_fresh_cached s)))"
    unfolding replica_fresh_cached_def Let_def fresh own_part_simps
    by (cases "freshness_checked_at s") (simp_all add: own_part_def)
  then show ?thesis
    by (cases "replica s") (simp_all add: choose_standby_def split: prod.split)
qed

lemma local_routed:
  assumes "local_to own q here" and "\<And>sb. local_to own q (there sb)"
  shows "local_to own q (\<lambda>s. case choose_standby s of
      (Some sb, s') \<Rightarrow> there sb (count_replica_read s')
    | (None, s') \<Rightarrow> here (record_replica_fallback_if_configured s'))"
proof (rule local_toI)
  fix s r s'
  assume q: "others own (tabs s) = q"
    and run: "(case choose_standby s of
      (Some sb, s') \<Rightarrow> there sb (count_replica_read s')
    | (None, s') \<Rightarrow> here (record_replica_fallback_if_configured s')) = (r, s')"
  obtain sb s1 where c: "choose_standby s = (sb, s1)" by (cases "choose_standby s")
  have counts: "count_replica_read (own_part own u) = own_part own (count_replica_read u)"
    "record_replica_fallback_if_configured (own_part own u) =
      own_part own (record_replica_fallback_if_configured u)"
    "tabs (count_replica_read u) = tabs u" "tabs (record_replica_fallback_if_configured u) = tabs u" for u
    by (simp_all add: count_replica_read_def record_replica_fallback_if_configured_def own_part_def)
  have "tabs s1 = tabs s"
    using c by (auto simp: choose_standby_def replica_fresh_cached_def Let_def split: option.splits if_splits)
  with q have "others own (tabs (count_replica_read s1)) = q"
    "others own (tabs (record_replica_fallback_if_configured s1)) = q" by (simp_all add: counts)
  from local_toD [OF assms(1) this(2)] local_toD [OF assms(2) this(1)] run c
  show "(case choose_standby (own_part own s) of
      (Some sb, s') \<Rightarrow> there sb (count_replica_read s')
    | (None, s') \<Rightarrow> here (record_replica_fallback_if_configured s')) = (r, own_part own s') \<and>
    others own (tabs s') = q"
    by (cases sb) (auto simp: choose_standby_alone counts)
qed

lemma local_standby_query: "local_to own q (standby_query step f sb)"
  by (auto simp: local_to_def standby_query_def Let_def own_part_def split: list.splits)

lemma local_getattr: "own (parent, name) \<Longrightarrow> local_to own q (getattr parent name)"
  unfolding getattr_def
  by (intro local_routed local_bind local_standby_query local_result local_getattr_primary)

lemma local_list_dir: "own_dir q parent \<Longrightarrow> local_to own q (list_dir parent)"
  unfolding list_dir_def
  by (intro local_routed local_bind local_standby_query local_result local_list_primary)

lemma local_read_range_primary:
  "own (parent, name) \<Longrightarrow> local_to own q (read_range_primary parent name offset len)"
  unfolding read_range_primary_def Let_def
  by (auto intro!: local_intros local_getattr_primary split: option.split)

lemma local_read_range:
  assumes "own (parent, name)"
  shows "local_to own q (read_range parent name offset len)"
proof (rule local_toI)
  fix s r s'
  assume "others own (tabs s) = q" and run: "read_range parent name offset len s = (r, s')"
  then have q: "others own (tabs (record_replica_fallback_if_configured s)) = q"
    by (simp add: record_replica_fallback_if_configured_def)
  have "record_replica_fallback_if_configured (own_part own s) =
      own_part own (record_replica_fallback_if_configured s)"
    by (simp add: record_replica_fallback_if_configured_def own_part_def)
  with local_toD [OF local_read_range_primary [of own, OF assms] q run [unfolded read_range_def]]
  show "read_range parent name offset len (own_part own s) = (r, own_part own s') \<and>
      others own (tabs s') = q"
    by (simp add: read_range_def)
qed

lemma local_write_range: "own (parent, name) \<Longrightarrow> local_to own q (write_range parent name offset data)"
proof -
  assume k: "own (parent, name)"
  have "local_to own q (write_block parent name offset data b)" for b
    unfolding write_block_def Let_def using k by (auto intro!: local_intros split: option.split)
  with k show ?thesis
    unfolding write_range_def write_range_txn_def Let_def
    by (auto intro!: local_intros local_getattr_primary split: option.split)
qed

lemma local_truncate: "own (parent, name) \<Longrightarrow> local_to own q (db_truncate parent name new_size)"
proof -
  assume k: "own (parent, name)"
  have "local_to own q (truncate_blocks parent name n)" for n
    unfolding truncate_blocks_def Let_def using k by (auto intro!: local_intros split: list.split)
  with k show ?thesis
    unfolding db_truncate_def truncate_txn_def Let_def
    by (auto intro!: local_intros local_getattr_primary split: option.split)
qed

lemma local_write_blocks_batch:
  "own (parent, name) \<Longrightarrow> local_to own q (write_blocks_batch parent name dirty new_size)"
  unfolding write_blocks_batch_def batch_txn_def put_blocks_def Let_def
  by (auto intro!: local_intros local_getattr_primary split: prod.split)

lemma local_write_whole: "own (parent, name) \<Longrightarrow> local_to own q (write_whole parent name data)"
  unfolding write_whole_def by (intro local_bind local_truncate local_write_range)

lemma local_read_whole: "own (parent, name) \<Longrightarrow> local_to own q (read_whole parent name)"
  unfolding read_whole_def by (rule local_read_range)

lemma local_create: "own (parent, name) \<Longrightarrow> local_to own q (create parent name)"
  and local_mkdir: "own (parent, name) \<Longrightarrow> local_to own q (mkdir parent name)"
  and local_unlink: "own (parent, name) \<Longrightarrow> local_to own q (unlink parent name)"
  unfolding create_def mkdir_def unlink_def by (intro local_intros; assumption)+

lemma local_rmdir:
  "own (parent, name) \<Longrightarrow> own_dir q (join parent name) \<Longrightarrow> local_to own q (rmdir parent name)"
  unfolding rmdir_def by (auto intro!: local_intros)

lemma local_rename:
  assumes "own (old_parent, old_name)" and "own (new_parent, new_name)"
    and "own_dir q (join new_parent new_name)"
    and "own_move own q (join old_parent old_name) (join new_parent new_name)"
  shows "local_to own q (rename old_parent old_name new_parent new_name)"
proof -
  have "local_to own q (rename_target new_parent new_name)"
    unfolding rename_target_def Let_def
    using assms by (auto intro!: local_intros split: option.split)
  moreover have "local_to own q (rename_descendants k (join old_parent old_name) (join new_parent new_name))" for k
    unfolding rename_descendants_def Let_def
    using assms by (auto intro!: local_intros local_rewrites)
  ultimately show ?thesis
    unfolding rename_def rename_txn_def Let_def
    using assms by (auto intro!: local_intros local_getattr_primary local_moves split: option.split)
qed

section \<open>Calls below a directory\<close>

datatype db_call =
    Call_getattr string string
  | Call_getattr_primary string string
  | Call_list string
  | Call_read string string nat nat
  | Call_write string string nat bytes
  | Call_truncate string string nat
  | Call_batch string string "(int \<times> bytes) list" nat
  | Call_create string string
  | Call_mkdir string string
  | Call_unlink string string
  | Call_rmdir string string
  | Call_rename string string string string

datatype db_answer =
    Meta "file_meta option"
  | Metas "file_meta list"
  | Contents "bytes option"
  | Flag bool
  | Finished

definition db_map :: "('a \<Rightarrow> 'b) \<Rightarrow> 'a dbm \<Rightarrow> 'b dbm" where
  "db_map f m = db_bind m (\<lambda>x. db_return (f x))"

fun call :: "db_call \<Rightarrow> db_answer dbm" where
  "call (Call_getattr p n) = db_map Meta (getattr p n)"
| "call (Call_getattr_primary p n) = db_map Meta (getattr_primary p n)"
| "call (Call_list p) = db_map Metas (list_dir p)"
| "call (Call_read p n offset len) = db_map Contents (read_range p n offset len)"
| "call (Call_write p n offset data) = db_map (\<lambda>_. Finished) (write_range p n offset data)"
| "call (Call_truncate p n sz) = db_map (\<lambda>_. Finished) (db_truncate p n sz)"
| "call (Call_batch p n dirty sz) = db_map (\<lambda>_. Finished) (write_blocks_batch p n dirty sz)"
| "call (Call_create p n) = db_map (\<lambda>_. Finished) (create p n)"
| "call (Call_mkdir p n) = db_map (\<lambda>_. Finished) (mkdir p n)"
| "call (Call_unlink p n) = db_map (\<lambda>_. Finished) (unlink p n)"
| "call (Call_rmdir p n) = db_map Flag (rmdir p n)"
| "call (Call_rename p n p' n') = db_map (\<lambda>_. Finished) (rename p n p' n')"

text \<open>Calls one after the other, each with its result or error.\<close>

fun calls :: "db_call list \<Rightarrow> db \<Rightarrow> (db_error + db_answer) list \<times> db" where
  "calls [] s = ([], s)"
| "calls (c # cs) s =
     (case call c s of (r, s1) \<Rightarrow> (case calls cs s1 of (rs, s2) \<Rightarrow> (r # rs, s2)))"

fun below :: "string \<Rightarrow> db_call \<Rightarrow> bool" where
  "below d (Call_getattr p n) = inside d p"
| "below d (Call_getattr_primary p n) = inside d p"
| "below d (Call_list p) = inside d p"
| "below d (Call_read p n offset len) = inside d p"
| "below d (Call_write p n offset data) = inside d p"
| "below d (Call_truncate p n sz) = inside d p"
| "below d (Call_batch p n dirty sz) = inside d p"
| "below d (Call_create p n) = inside d p"
| "below d (Call_mkdir p n) = inside d p"
| "below d (Call_unlink p n) = inside d p"
| "below d (Call_rmdir p n) = inside d p"
| "below d (Call_rename p n p' n') = (inside d p \<and> inside d p')"

text \<open>The rows below \<open>d\<close>: entries and blocks whose parent is \<open>d\<close> or deeper.\<close>

definition rows_below :: "string \<Rightarrow> key \<Rightarrow> bool" where
  "rows_below d k \<longleftrightarrow> inside d (fst k)"

lemma inside_join_prefix:
  assumes "d \<noteq> []" and "inside d p"
  shows "prefix (d @ [slash]) (join p n)"
proof -
  have "p \<noteq> []" using assms by (auto simp: inside_def)
  with assms(2) show ?thesis by (auto simp: inside_def join_def prefix_def)
qed

lemma own_dir_below: "inside d p \<Longrightarrow> own_dir (others (rows_below d) t) p"
  by (auto simp: own_dir_def rows_below_def entry_key_def)

text \<open>A pattern that starts with a literal directory matches only below it.\<close>

lemma like_literal_prefix:
  assumes "ascii a" and "no_wildcard a" and "sql_like (a @ slash # pat) s"
  shows "prefix (a @ [slash]) s"
proof -
  have "slash # pat = [] \<or> \<not> cont (hd (slash # pat))" using ascii_not_cont [OF byte_in_slash] by simp
  from pg_chars_ascii_append [OF assms(1) this]
  have pat: "pg_chars (a @ slash # pat) =
      map (\<lambda>c. [c]) a @ (slash # takeWhile cont pat) # pg_chars (dropWhile cont pat)" by simp
  have lit: "percent \<notin> set (map (\<lambda>c. [c]) a)" "underscore \<notin> set (map (\<lambda>c. [c]) a)"
    "backslash \<notin> set (map (\<lambda>c. [c]) a)"
    using assms(2) by (auto simp: no_wildcard_def wildcard_defs)
  from assms(3) obtain zs where s: "pg_chars s = map (\<lambda>c. [c]) a @ zs"
    and zs: "like ((slash # takeWhile cont pat) # pg_chars (dropWhile cont pat)) zs"
    unfolding sql_like_def pat like_literal [OF lit] by blast
  from zs obtain zs' where "zs = (slash # takeWhile cont pat) # zs'"
    by (auto simp: wildcard_defs split: list.splits)
  with s have "s = a @ slash # takeWhile cont pat @ concat zs'"
    by (metis append_Cons concat.simps(2) concat_append concat_pg_chars concat_singletons)
  then show ?thesis by (simp add: prefix_def)
qed

lemma own_move_below:
  assumes d: "d \<noteq> []" "ascii d" "no_wildcard d" and "inside d p" and "inside d p'"
  shows "own_move (rows_below d) (others (rows_below d) t) (join p n) (join p' n')"
proof -
  have "inside d x" if "under (join p n) x" for x
  proof -
    obtain pat where pat: "join p n = d @ slash # pat"
      using inside_join_prefix [OF d(1) assms(4)] by (auto simp: prefix_def)
    from that consider "x = join p n" | "sql_like (d @ slash # (pat @ ''/%'')) x"
      by (auto simp: under_def pat)
    then show ?thesis
    proof cases
      case 1
      then show ?thesis by (simp add: pat inside_def prefix_def)
    next
      case 2
      from like_literal_prefix [OF d(2,3) this] show ?thesis by (simp add: inside_def)
    qed
  qed
  moreover have "inside d x" if "prefix (join p' n') x" for x
    using prefix_order.trans [OF inside_join_prefix [OF d(1) assms(5)] that] by (simp add: inside_def)
  ultimately show ?thesis
    by (auto simp: own_move_def rows_below_def entry_key_def block_file_def)
qed

lemma inside_below: "d \<noteq> [] \<Longrightarrow> inside d p \<Longrightarrow> inside d (join p n)"
  using inside_join_prefix by (simp add: inside_def)

lemma local_map: "local_to own q m \<Longrightarrow> local_to own q (db_map f m)"
  unfolding db_map_def by (intro local_bind local_return)

lemma local_call:
  assumes d: "d \<noteq> []" "ascii d" "no_wildcard d" and c: "below d c"
  shows "local_to (rows_below d) (others (rows_below d) t) (call c)"
proof -
  have key: "rows_below d (p, n) = inside d p" for p n by (simp add: rows_below_def)
  note dirs = own_dir_below own_dir_below [OF inside_below [OF d(1)]]
  from c show ?thesis
    by (cases c)
      (auto simp: key intro!: local_map local_getattr local_getattr_primary local_list_dir
        local_read_range local_write_range local_truncate local_write_blocks_batch local_create
        local_mkdir local_unlink local_rmdir local_rename own_move_below [OF d] dirs)
qed

text \<open>C5. A directory is a world of its own: with a name free of pattern characters, calls on
  paths below it give, under any faults, the results they give when nothing else is in the
  tables, leave below it exactly what they leave then, and change no other row.\<close>

theorem directory_is_isolated:
  assumes "d \<noteq> []" and "ascii d" and "no_wildcard d" and "\<forall>c \<in> set cs. below d c"
    and "calls cs s = (rs, s')"
  shows "calls cs (own_part (rows_below d) s) = (rs, own_part (rows_below d) s') \<and>
    others (rows_below d) (tabs s') = others (rows_below d) (tabs s)"
  using assms(4,5)
proof (induction cs arbitrary: s rs)
  case (Cons c cs)
  obtain r s1 where c: "call c s = (r, s1)" by (cases "call c s")
  obtain rs1 where cs: "calls cs s1 = (rs1, s')" "rs = r # rs1"
    using Cons.prems(2) c by (auto split: prod.splits)
  from Cons.prems(1) have "below d c" by simp
  note at_c = local_toD [OF local_call [OF assms(1-3) this] refl c]
  from Cons.IH [OF _ cs(1)] Cons.prems(1) at_c cs(2) show ?case by simp
qed simp

theorem directory_is_isolated_witness:
  defines "cs \<equiv> [Call_create ''docs'' ''b'', Call_rename ''docs'' ''b'' ''docs/sub'' ''c'', Call_unlink ''docs'' ''a'']"
  shows "fst (calls cs (own_part (rows_below ''docs'') (db_with demo [Served, Reply_lost, Refused]))) =
      fst (calls cs (db_with demo [Served, Reply_lost, Refused])) \<and>
    others (rows_below ''docs'') (tabs (snd (calls cs (db_with demo [Served, Reply_lost, Refused])))) =
      others (rows_below ''docs'') demo"
proof -
  obtain rs s' where run: "calls cs (db_with demo [Served, Reply_lost, Refused]) = (rs, s')"
    by (cases "calls cs (db_with demo [Served, Reply_lost, Refused])")
  have "\<forall>c \<in> set cs. below ''docs'' c" by (simp add: cs_def inside_def)
  with directory_is_isolated [OF _ _ _ _ run, of "''docs''"] run show ?thesis
    by (simp add: byte_in_def no_wildcard_def)
qed

end
