(* ===== verification/Db_Tests_Correct.thy ===== *)
theory Db_Tests_Correct
  imports Db_Tests Db_Locality Reports
begin

text \<open>
  The tests of theory \<open>Db_Tests\<close> pass. Each is evaluated on empty tables, for any name of its
  directory, and is local to the rows below that directory and those its name's underscores
  match; so it passes on every database with no such rows, and leaves it as it was.
\<close>

section \<open>Evaluating a test on empty tables\<close>

definition no_rows :: tables where
  "no_rows = \<lparr>entries = [], blocks = []\<rparr>"

text \<open>A directory name as the tests make it up: nothing that a pattern or a path reads
  specially, but for underscores.\<close>

definition test_name :: "string \<Rightarrow> bool" where
  "test_name d \<longleftrightarrow> d \<noteq> [] \<and> ascii d \<and> CHR ''%'' \<notin> set d \<and> CHR 0x5C \<notin> set d \<and> slash \<notin> set d \<and>
     length d < 1000"

definition passes_alone :: "(nat \<Rightarrow> string \<Rightarrow> unit dbm) \<Rightarrow> bool" where
  "passes_alone test \<longleftrightarrow> (\<forall>fuel d s. test_name d \<longrightarrow> tabs s = no_rows \<longrightarrow> fates s = [] \<longrightarrow>
     replica s = None \<longrightarrow>
     (\<exists>s'. test (Suc (Suc (Suc fuel))) d s = (Inr (), s') \<and> tabs s' = no_rows))"

lemma passes_aloneI:
  assumes "\<And>fuel d s. test_name d \<Longrightarrow> d \<noteq> [] \<Longrightarrow> slash \<notin> set d \<Longrightarrow> tabs s = no_rows \<Longrightarrow> fates s = [] \<Longrightarrow>
    replica s = None \<Longrightarrow>
    \<exists>s'. test (Suc (Suc (Suc fuel))) d s = (Inr (), s') \<and> tabs s' = no_rows"
  shows "passes_alone test"
  using assms by (simp add: passes_alone_def test_name_def)

lemma getattr_alone: "replica s = None \<Longrightarrow> getattr p n s = getattr_primary p n s"
  and list_alone: "replica s = None \<Longrightarrow> list_dir p s = list_primary p s"
  by (simp_all add: getattr_def list_dir_def choose_standby_def record_replica_fallback_if_configured_def)

lemma read_loop_done: "\<not> c < e \<Longrightarrow> read_loop st e c r = Some r"
  by (subst read_loop.simps) simp

lemma read_loop_near:
  "c < e \<Longrightarrow> e \<le> 65536 \<Longrightarrow> read_loop st e c r = Some (append_block (st 0) c (e - c) r)"
  by (subst read_loop.simps) (simp add: BLOCK_SIZE_def as_i32_def read_loop_done)

lemma read_loop_far:
  assumes "c < e" and "65536 < e" and "e < 2 ^ 31"
  shows "read_loop st e c r = read_loop st e (min (c div 65536 * 65536 + 65536) e)
     (append_block (st (int (c div 65536))) (c mod 65536) (min (c div 65536 * 65536 + 65536) e - c) r)"
proof -
  define stop where "stop = min (c div 65536 * 65536 + 65536) e"
  have "c div 65536 < 2 ^ 31" using assms by (simp add: less_mult_imp_div_less)
  then have i: "as_i32 (c div BLOCK_SIZE) = int (c div 65536)" by (simp add: as_i32_small BLOCK_SIZE_def)
  have "c < c div 65536 * 65536 + 65536" using div_BLOCK_SIZE_bounds(2) [of c] by (simp add: BLOCK_SIZE_def)
  then have "\<not> stop < c" "c + (stop - c) = stop" using assms(1) by (simp_all add: stop_def)
  moreover have "min (nat (int (c div 65536)) * BLOCK_SIZE + BLOCK_SIZE) e = stop"
    "c - nat (int (c div 65536)) * BLOCK_SIZE = c mod 65536"
    by (simp_all add: stop_def BLOCK_SIZE_def minus_div_mult_eq_mod)
  ultimately show ?thesis unfolding stop_def [symmetric] using assms(1)
    by (subst read_loop.simps) (simp only: i Let_def of_nat_less_0_iff if_True if_False)
qed

lemma upto_few: "[0..1] = [0, 1 :: int]" "[0..2] = [0, 1, 2 :: int]"
  by (simp_all add: upto.simps)

lemmas run_simps = db_bind_def db_return_def db_fail_def timed_return_def pg_exec_calm pg_exec_now_calm
  run_stmt_def sql_read_def sql_opt_def Let_def check_def assert_that_def in_turn_def in_test_dir_def
  ignore_def if_ok_def no_rows_def join_def is_some_def
lemmas tree_simps = insert_entry_def select_entry_def delete_entry_def delete_blocks_def
  select_one_child_def select_children_def entry_key_def block_file_def update_size_def root_dir_def
  mkdir_def create_def unlink_def rmdir_def getattr_alone list_alone getattr_primary_def
  list_primary_def meta_opt_def row_to_meta_def cleanup_def
lemmas read_simps = read_whole_def read_range_def read_range_primary_def
  record_replica_fallback_if_configured_def select_blocks_def as_i32_def read_loop_near
  append_block_def rows_map_def BLOCK_SIZE_def resize0_def
lemmas write_simps = write_whole_def write_range_def db_truncate_def truncate_txn_def truncate_blocks_def
  write_range_txn_def write_block_def u64_add_def block_range_def block_span_def patch_block_def
  prune_blocks_def upsert_block_def splice_def byte_string_def
  as_i64_def write_blocks_batch_def batch_txn_def put_blocks_def
lemmas rename_simps = rename_def rename_txn_def rename_target_def rename_descendants_def
  move_entry_def move_blocks_def rewrite_entries_def rewrite_blocks_def
lemmas txn_simps = pg_transaction_def block_key_def

lemma alone_block_storage_partial_write_and_read_range: "passes_alone block_storage_partial_write_and_read_range"
  and alone_write_blocks_batch_flushes_dirty_blocks: "passes_alone write_blocks_batch_flushes_dirty_blocks"
  and alone_no_replica_serves_primary: "passes_alone no_replica_serves_primary"
  and alone_write_and_read_roundtrip: "passes_alone write_and_read_roundtrip"
  unfolding block_storage_partial_write_and_read_range_def write_blocks_batch_flushes_dirty_blocks_def no_replica_serves_primary_def write_and_read_roundtrip_def
  by (rule passes_aloneI, simp add: run_simps tree_simps read_simps txn_simps write_simps)+

lemma alone_write_overwrites_previous_content: "passes_alone write_overwrites_previous_content"
  unfolding write_overwrites_previous_content_def
  by (rule passes_aloneI, simp add: run_simps tree_simps read_simps txn_simps write_simps)+

lemma alone_create_file_and_getattr: "passes_alone create_file_and_getattr"
  and alone_getattr_root_level_file: "passes_alone getattr_root_level_file"
  and alone_mkdir_and_list_children: "passes_alone mkdir_and_list_children"
  and alone_list_mixed_children_sorted_by_name: "passes_alone list_mixed_children_sorted_by_name"
  unfolding create_file_and_getattr_def getattr_root_level_file_def mkdir_and_list_children_def list_mixed_children_sorted_by_name_def
  by (rule passes_aloneI, simp add: run_simps tree_simps)+

lemma alone_list_empty_directory: "passes_alone list_empty_directory"
  and alone_getattr_directory: "passes_alone getattr_directory"
  and alone_unlink_removes_file: "passes_alone unlink_removes_file"
  and alone_rmdir_empty_succeeds: "passes_alone rmdir_empty_succeeds"
  unfolding list_empty_directory_def getattr_directory_def unlink_removes_file_def rmdir_empty_succeeds_def
  by (rule passes_aloneI, simp add: run_simps tree_simps)+

lemma alone_rmdir_not_empty_fails: "passes_alone rmdir_not_empty_fails"
  and alone_rmdir_nonexistent_returns_false: "passes_alone rmdir_nonexistent_returns_false"
  and alone_rmdir_nested_empty_dirs: "passes_alone rmdir_nested_empty_dirs"
  and alone_create_existing_is_silent_noop: "passes_alone create_existing_is_silent_noop"
  unfolding rmdir_not_empty_fails_def rmdir_nonexistent_returns_false_def rmdir_nested_empty_dirs_def create_existing_is_silent_noop_def
  by (rule passes_aloneI, simp add: run_simps tree_simps)+

lemma alone_mkdir_existing_is_silent_noop: "passes_alone mkdir_existing_is_silent_noop"
  unfolding mkdir_existing_is_silent_noop_def
  by (rule passes_aloneI, simp add: run_simps tree_simps)+

lemma alone_read_empty_file: "passes_alone read_empty_file"
  and alone_read_nonexistent_file: "passes_alone read_nonexistent_file"
  unfolding read_empty_file_def read_nonexistent_file_def
  by (rule passes_aloneI, simp add: run_simps tree_simps read_simps)+

lemma alone_rename_file_simple: "passes_alone rename_file_simple"
  and alone_rename_file_overwrite_existing_file: "passes_alone rename_file_overwrite_existing_file"
  and alone_rename_onto_self_is_noop: "passes_alone rename_onto_self_is_noop"
  unfolding rename_file_simple_def rename_file_overwrite_existing_file_def rename_onto_self_is_noop_def
  by (rule passes_aloneI, simp add: run_simps tree_simps read_simps txn_simps write_simps rename_simps)+

lemma alone_rename_file_cross_directory: "passes_alone rename_file_cross_directory"
  unfolding rename_file_cross_directory_def
  by (rule passes_aloneI, simp add: run_simps tree_simps txn_simps write_simps read_simps rename_simps)+

text \<open>Payloads of several blocks, of which only the length matters.\<close>

lemma three_blocks: "length p = 153600 \<Longrightarrow> take 65536 p @ take 65536 (drop 65536 p) @ drop 131072 p = p"
  using append_take_drop_id [of 65536 "drop 65536 p"] append_take_drop_id [of 65536 p] by simp

lemma alone_truncate_payload:
  assumes "length p = 102400" and "p \<noteq> []"
  shows "passes_alone (in_test_dir (\<lambda>root.
     [create root ''trunc.bin'', write_range root ''trunc.bin'' 0 p, db_truncate root ''trunc.bin'' 10,
      check (read_range root ''trunc.bin'' 0 100) (\<lambda>truncated. truncated = Some (take 10 p))]))"
  using assms
  by (intro passes_aloneI)
    (simp add: run_simps tree_simps read_simps txn_simps write_simps upto_few)

lemma alone_batching_payload:
  assumes "length p = 153600" and "p \<noteq> []"
  shows "passes_alone (in_test_dir (\<lambda>root.
     [create root ''tx_batch.bin'', write_range root ''tx_batch.bin'' 0 p,
      check (read_range root ''tx_batch.bin'' 0 (length p)) (\<lambda>read_back. read_back = Some p)]))"
  using assms
  by (intro passes_aloneI)
    (simp add: run_simps tree_simps read_simps txn_simps write_simps upto_few read_loop_far
      read_loop_done three_blocks)

lemma alone_block_storage_truncate_prunes_blocks: "passes_alone block_storage_truncate_prunes_blocks"
proof -
  define p :: bytes where "p = replicate (100 * 1024) 1"
  have len: "length p = 102400" unfolding p_def length_replicate by simp
  then have "p \<noteq> []" by auto
  have "take 10 p = replicate 10 1" unfolding p_def take_replicate by simp
  with alone_truncate_payload [OF len \<open>p \<noteq> []\<close>] show ?thesis
    by (simp only: block_storage_truncate_prunes_blocks_def p_def)
qed

lemma alone_transaction_batching_multi_block_write: "passes_alone transaction_batching_multi_block_write"
proof -
  define p :: bytes where "p = replicate (150 * 1024) 42"
  have len: "length p = 153600" unfolding p_def length_replicate by simp
  then have "p \<noteq> []" by auto
  from alone_batching_payload [OF len \<open>p \<noteq> []\<close>] show ?thesis
    by (simp only: transaction_batching_multi_block_write_def p_def Let_def)
qed

text \<open>The pattern and the rewriting of a renamed directory \<open>src\<close> below the test's own.\<close>

lemma pg_chars_test:
  "test_name d \<Longrightarrow> a = [] \<or> \<not> cont (hd a) \<Longrightarrow> pg_chars (d @ a) = map (\<lambda>c. [c]) d @ pg_chars a"
  by (rule pg_chars_ascii_append) (simp add: test_name_def)

lemma like_test:
  "CHR ''%'' \<notin> set d \<and> CHR 0x5C \<notin> set d \<Longrightarrow> like (map (\<lambda>c. [c]) d @ ps) (map (\<lambda>c. [c]) d @ ys) = like ps ys"
  by (induction d) (auto simp: wildcard_defs)

lemma like_test_Nil:
  "d \<noteq> [] \<Longrightarrow> CHR ''%'' \<notin> set d \<and> CHR 0x5C \<notin> set d \<Longrightarrow> \<not> like (map (\<lambda>c. [c]) d @ ps) []"
  by (cases d) (auto simp: wildcard_defs)

lemma under_test:
  assumes "test_name d" and "b = [] \<or> \<not> cont (hd b)"
  shows "under (d @ slash # a) (d @ b) \<longleftrightarrow>
    b = slash # a \<or> like (pg_chars (slash # a @ ''/%'')) (pg_chars b)"
  using assms like_test [of d] ascii_not_cont [OF byte_in_slash]
  by (simp del: pg_chars.simps add: under_def sql_like_def pg_chars_test test_name_def)

lemma under_test_short:
  assumes "test_name d"
  shows "\<not> under (d @ slash # a) []"
    and "under (d @ slash # a) d \<longleftrightarrow> like (pg_chars (slash # a @ ''/%'')) []"
proof -
  have l: "CHR ''%'' \<notin> set d \<and> CHR 0x5C \<notin> set d" "d \<noteq> []"
    using assms by (simp_all add: test_name_def)
  have "pg_chars d = map (\<lambda>c. [c]) d" using pg_chars_test [OF assms, of "[]"] by simp
  then show "\<not> under (d @ slash # a) []"
    and "under (d @ slash # a) d \<longleftrightarrow> like (pg_chars (slash # a @ ''/%'')) []"
    using ascii_not_cont [OF byte_in_slash] l like_test [OF l(1), of _ "[]"] like_test_Nil [OF l(2,1)]
    by (simp_all del: pg_chars.simps(2) add: under_def sql_like_def pg_chars_test [OF assms])
qed

lemma under_src:
  assumes "test_name d"
  shows "under (d @ ''/src'') (d @ ''/src/sub'')" and "under (d @ ''/src'') (d @ ''/src'')"
    and "\<not> under (d @ ''/src'') d" and "\<not> under (d @ ''/src'') []"
  using assms by (simp_all add: under_test under_test_short cont_def wildcard_defs)

lemma reparent_src:
  assumes "test_name d"
  shows "reparent p (length d + 4) (d @ ''/src/sub'') = p @ ''/sub''"
    and "reparent p (length d + 4) (d @ ''/src'') = p"
proof -
  have "substring_after (length d + 4) (d @ b) = substring_after 4 b" if "\<not> cont (hd b)" for b
    using assms that by (simp add: substring_after_def pg_chars_test)
  then show "reparent p (length d + 4) (d @ ''/src/sub'') = p @ ''/sub''"
    and "reparent p (length d + 4) (d @ ''/src'') = p"
    by (simp_all add: reparent_def cont_def) (simp_all add: substring_after_def cont_def)
qed

lemma as_i32_src: "test_name d \<Longrightarrow> nat (as_i32 (Suc (Suc (Suc (Suc (length d)))))) = length d + 4"
  by (simp add: test_name_def as_i32_small)

lemma alone_rename_dir_with_children_cascades: "passes_alone rename_dir_with_children_cascades"
  and alone_rename_dir_overwrite_empty_dir: "passes_alone rename_dir_overwrite_empty_dir"
  unfolding rename_dir_with_children_cascades_def rename_dir_overwrite_empty_dir_def
  by (rule passes_aloneI, simp add: run_simps tree_simps txn_simps rename_simps under_src reparent_src
      as_i32_src)+

text \<open>What the failures say.\<close>

lemma says_no_source: "says ''does not exist'' (No_source p)"
  unfolding says_def rename_failure.simps failure_def story.simps located_def option.case sublist_def
  by (rule exI [of _ "''rename source '' @ debug_str p @ '' ''"]) simp

lemma says_not_empty: "says ''not empty'' (Target_not_empty p)"
  unfolding says_def rename_failure.simps failure_def story.simps located_def option.case sublist_def
  by (rule exI [of _ "''rename target directory '' @ debug_str p @ '' is ''"]) simp

lemma alone_rename_nonexistent_source_errors: "passes_alone rename_nonexistent_source_errors"
  and alone_rename_over_non_empty_dir_errors: "passes_alone rename_over_non_empty_dir_errors"
  unfolding rename_nonexistent_source_errors_def rename_over_non_empty_dir_errors_def
  by (rule passes_aloneI, simp add: run_simps tree_simps txn_simps rename_simps check_err_def
      says_no_source says_not_empty)+

section \<open>A test is local to its directory\<close>

text \<open>The directory's own row and all below it.\<close>

definition test_rows :: "string \<Rightarrow> key \<Rightarrow> bool" where
  "test_rows d k \<longleftrightarrow> k = ([], d) \<or> inside d (fst k)"

text \<open>What the other rows \<open>q\<close> must not hold: rows below the directory, and rows that the pattern
  of a path below it matches, as the underscores of its name could.\<close>

definition undisturbed :: "string \<Rightarrow> tables \<Rightarrow> bool" where
  "undisturbed d q \<longleftrightarrow> (\<forall>p. inside d p \<longrightarrow> own_dir q p) \<and>
     (\<forall>p \<in> e_parent ` set (entries q) \<union> b_parent ` set (blocks q). \<forall>x. \<not> under (d @ slash # x) p)"

lemma test_rows_simps [simp]:
  "test_rows d ([], d)" "test_rows d (d, n)" "d \<noteq> [] \<Longrightarrow> test_rows d (join d n, m)"
  "d \<noteq> [] \<Longrightarrow> test_rows d (join (join d n) m, k)"
  by (auto simp: test_rows_def inside_def join_def)

lemma undisturbed_dirs:
  assumes "undisturbed d q" and "d \<noteq> []"
  shows "own_dir q d" and "own_dir q (join d n)" and "own_dir q (join (join d n) m)"
proof -
  have "inside d d" by (simp add: inside_def)
  note one = inside_below [OF assms(2) this]
  note two = inside_below [OF assms(2) one]
  from assms(1) \<open>inside d d\<close> one two
  show "own_dir q d" and "own_dir q (join d n)" and "own_dir q (join (join d n) m)"
    by (simp_all add: undisturbed_def)
qed

lemma local_assert: "local_to own q (assert_that b)"
  unfolding assert_that_def by (intro local_if local_return local_fail)

lemma local_check: "local_to own q m \<Longrightarrow> local_to own q (check m p)"
  unfolding check_def by (intro local_bind local_assert)

lemma local_if_ok:
  assumes "local_to own q m" and "\<And>x. local_to own q (f x)"
  shows "local_to own q (if_ok m f)"
proof (rule local_toI)
  fix s r s'
  assume q: "others own (tabs s) = q" and run: "if_ok m f s = (r, s')"
  obtain x s1 where m: "m s = (x, s1)" by (cases "m s")
  note at_m = local_toD [OF assms(1) q m]
  from run m at_m local_toD [OF assms(2) at_m(2)]
  show "if_ok m f (own_part own s) = (r, own_part own s') \<and> others own (tabs s') = q"
    by (cases x) (auto simp: if_ok_def split: if_splits)
qed

lemma local_check_err:
  assumes "local_to own q m"
  shows "local_to own q (check_err m p)"
proof (rule local_toI)
  fix s r s'
  assume q: "others own (tabs s) = q" and run: "check_err m p s = (r, s')"
  obtain x s1 where m: "m s = (x, s1)" by (cases "m s")
  note at_m = local_toD [OF assms q m]
  from run m at_m local_toD [OF local_assert at_m(2)]
  show "check_err m p (own_part own s) = (r, own_part own s') \<and> others own (tabs s') = q"
    by (cases x) (auto simp: check_err_def split: if_splits)
qed

lemma local_ignore: "local_to own q m \<Longrightarrow> local_to own q (ignore m)"
  unfolding ignore_def by (intro local_if_ok local_return)

lemma local_remove_all:
  assumes "\<And>p. inside d p \<Longrightarrow> own_dir q p" and "\<And>p n. inside d p \<Longrightarrow> own (p, n)" and "d \<noteq> []"
  shows "inside d p \<Longrightarrow> local_to own q (remove_all fuel p)"
proof (induction fuel arbitrary: p)
  case 0
  then show ?case by (simp add: local_fail)
next
  case (Suc fuel)
  note below = inside_below [OF assms(3) Suc.prems]
  show ?case
    unfolding remove_all.simps Let_def
    by (auto split: kind.split intro!: local_if_ok local_list_dir local_for local_ignore local_unlink
        local_rmdir local_bind Suc.IH assms(1,2) below Suc.prems)
qed

lemma local_in_test_dir:
  assumes d: "d \<noteq> []" "undisturbed d q"
    and body: "\<And>m. m \<in> set (body d) \<Longrightarrow> local_to (test_rows d) q m"
  shows "local_to (test_rows d) q (in_test_dir body fuel d)"
proof -
  have "local_to (test_rows d) q (remove_all fuel d)"
    by (rule local_remove_all [of d]) (use d in \<open>auto simp: undisturbed_def test_rows_def inside_def\<close>)
  then have clean: "local_to (test_rows d) q (cleanup fuel d)"
    unfolding cleanup_def
    by (intro local_bind local_ignore local_rmdir) (simp_all add: undisturbed_dirs [OF d(2,1)])
  have main: "local_to (test_rows d) q (in_turn (body d))"
    unfolding in_turn_def by (rule local_for) (rule body)
  have "in_test_dir body fuel d =
      db_bind (mkdir [] d) (\<lambda>_. db_bind (in_turn (body d)) (\<lambda>_. cleanup fuel d))"
    by (rule ext) (simp add: in_test_dir_def root_dir_def db_bind_def db_return_def split: prod.split sum.split)
  moreover have "local_to (test_rows d) q
      (db_bind (mkdir [] d) (\<lambda>_. db_bind (in_turn (body d)) (\<lambda>_. cleanup fuel d)))"
    by (intro local_bind local_mkdir main clean) simp
  ultimately show ?thesis by simp
qed

lemmas local_ops = local_check local_check_err local_getattr local_list_dir local_read_range
  local_read_whole local_write_range local_truncate local_write_blocks_batch local_write_whole
  local_create local_mkdir local_unlink local_rmdir local_rename

text \<open>The keys and moves of the renames in the tests.\<close>

lemma own_move_test:
  assumes d: "d \<noteq> []" "undisturbed d q"
  shows "own_move (test_rows d) q (d @ slash # x) (d @ slash # y)"
proof -
  have "inside d p" if "prefix (d @ slash # y) p" for p
    using that by (auto simp: inside_def prefix_def)
  with d(2) show ?thesis by (simp add: own_move_def undisturbed_def test_rows_def)
qed

lemma own_moves_test:
  assumes d: "d \<noteq> []" "undisturbed d q"
  shows "own_move (test_rows d) q (join d m) (join d n)"
    and "own_move (test_rows d) q (join (join d k) m) (join (join d l) n)"
  using own_move_test [OF d] d(1) by (simp_all add: join_def)

lemma local_first_tests:
  assumes d: "d \<noteq> []" "undisturbed d q"
  shows "local_to (test_rows d) q (block_storage_partial_write_and_read_range fuel d)"
    and "local_to (test_rows d) q (block_storage_truncate_prunes_blocks fuel d)"
    and "local_to (test_rows d) q (transaction_batching_multi_block_write fuel d)"
    and "local_to (test_rows d) q (write_blocks_batch_flushes_dirty_blocks fuel d)"
    and "local_to (test_rows d) q (create_file_and_getattr fuel d)"
    and "local_to (test_rows d) q (getattr_root_level_file fuel d)"
    and "local_to (test_rows d) q (read_empty_file fuel d)"
    and "local_to (test_rows d) q (write_and_read_roundtrip fuel d)"
    and "local_to (test_rows d) q (write_overwrites_previous_content fuel d)"
    and "local_to (test_rows d) q (read_nonexistent_file fuel d)"
    and "local_to (test_rows d) q (mkdir_and_list_children fuel d)"
    and "local_to (test_rows d) q (list_mixed_children_sorted_by_name fuel d)"
    and "local_to (test_rows d) q (list_empty_directory fuel d)"
    and "local_to (test_rows d) q (getattr_directory fuel d)"
  unfolding block_storage_partial_write_and_read_range_def
    block_storage_truncate_prunes_blocks_def transaction_batching_multi_block_write_def
    write_blocks_batch_flushes_dirty_blocks_def create_file_and_getattr_def
    getattr_root_level_file_def read_empty_file_def write_and_read_roundtrip_def
    write_overwrites_previous_content_def read_nonexistent_file_def mkdir_and_list_children_def
    list_mixed_children_sorted_by_name_def list_empty_directory_def getattr_directory_def Let_def
  using undisturbed_dirs [OF d(2,1)] own_moves_test [OF d] d
  by (intro local_in_test_dir; auto intro!: local_ops)+

lemma local_other_tests:
  assumes d: "d \<noteq> []" "undisturbed d q"
  shows "local_to (test_rows d) q (unlink_removes_file fuel d)"
    and "local_to (test_rows d) q (rmdir_empty_succeeds fuel d)"
    and "local_to (test_rows d) q (rmdir_not_empty_fails fuel d)"
    and "local_to (test_rows d) q (rmdir_nonexistent_returns_false fuel d)"
    and "local_to (test_rows d) q (rmdir_nested_empty_dirs fuel d)"
    and "local_to (test_rows d) q (rename_file_simple fuel d)"
    and "local_to (test_rows d) q (rename_file_cross_directory fuel d)"
    and "local_to (test_rows d) q (rename_file_overwrite_existing_file fuel d)"
    and "local_to (test_rows d) q (rename_dir_with_children_cascades fuel d)"
    and "local_to (test_rows d) q (rename_dir_overwrite_empty_dir fuel d)"
    and "local_to (test_rows d) q (rename_nonexistent_source_errors fuel d)"
    and "local_to (test_rows d) q (rename_over_non_empty_dir_errors fuel d)"
    and "local_to (test_rows d) q (rename_onto_self_is_noop fuel d)"
    and "local_to (test_rows d) q (create_existing_is_silent_noop fuel d)"
    and "local_to (test_rows d) q (mkdir_existing_is_silent_noop fuel d)"
  unfolding unlink_removes_file_def rmdir_empty_succeeds_def rmdir_not_empty_fails_def
    rmdir_nonexistent_returns_false_def rmdir_nested_empty_dirs_def rename_file_simple_def
    rename_file_cross_directory_def rename_file_overwrite_existing_file_def
    rename_dir_with_children_cascades_def rename_dir_overwrite_empty_dir_def
    rename_nonexistent_source_errors_def rename_over_non_empty_dir_errors_def
    rename_onto_self_is_noop_def create_existing_is_silent_noop_def
    mkdir_existing_is_silent_noop_def Let_def
  using undisturbed_dirs [OF d(2,1)] own_moves_test [OF d] d
  by (intro local_in_test_dir; auto intro!: local_ops)+

lemma local_no_replica_serves_primary:
  assumes d: "d \<noteq> []" "undisturbed d q"
  shows "local_to (test_rows d) q (no_replica_serves_primary fuel d)"
proof (rule local_toI)
  fix s r s'
  let ?body = "in_test_dir (\<lambda>root. [create root ''r.txt'', write_whole root ''r.txt'' (byte_string ''primary''),
      check (read_whole root ''r.txt'') (\<lambda>data. data = Some (byte_string ''primary''))]) fuel d"
  assume q: "others (test_rows d) (tabs s) = q" and run: "no_replica_serves_primary fuel d s = (r, s')"
  have "local_to (test_rows d) q (db_bind (assert_that (replica s = None)) (\<lambda>_. ?body))"
    by (intro local_bind local_assert local_in_test_dir d) (auto intro!: local_ops)
  from local_toD [OF this q run [unfolded no_replica_serves_primary_def]]
  show "no_replica_serves_primary fuel d (own_part (test_rows d) s) = (r, own_part (test_rows d) s') \<and>
      others (test_rows d) (tabs s') = q"
    by (simp add: no_replica_serves_primary_def)
qed

section \<open>The suite\<close>

lemma tests_alone: "\<forall>test \<in> set db_tests. passes_alone test"
  by (simp add: db_tests_def alone_block_storage_partial_write_and_read_range alone_block_storage_truncate_prunes_blocks alone_transaction_batching_multi_block_write alone_write_blocks_batch_flushes_dirty_blocks alone_no_replica_serves_primary alone_create_file_and_getattr alone_getattr_root_level_file alone_read_empty_file alone_write_and_read_roundtrip alone_write_overwrites_previous_content alone_read_nonexistent_file alone_mkdir_and_list_children alone_list_mixed_children_sorted_by_name alone_list_empty_directory alone_getattr_directory alone_unlink_removes_file alone_rmdir_empty_succeeds alone_rmdir_not_empty_fails alone_rmdir_nonexistent_returns_false alone_rmdir_nested_empty_dirs alone_rename_file_simple alone_rename_file_cross_directory alone_rename_file_overwrite_existing_file alone_rename_dir_with_children_cascades alone_rename_dir_overwrite_empty_dir alone_rename_nonexistent_source_errors alone_rename_over_non_empty_dir_errors alone_rename_onto_self_is_noop alone_create_existing_is_silent_noop alone_mkdir_existing_is_silent_noop)

lemma tests_local:
  assumes "d \<noteq> []" and "undisturbed d q"
  shows "\<forall>test \<in> set db_tests. local_to (test_rows d) q (test fuel d)"
  using local_first_tests [OF assms] local_other_tests [OF assms]
    local_no_replica_serves_primary [OF assms]
  by (simp add: db_tests_def)

lemma length_decimal: "length (decimal n) \<le> k" if "n < 10 ^ k" "0 < k" for n k
  using that
proof (induction n arbitrary: k rule: decimal.induct)
  case (1 n)
  show ?case
  proof (cases "n < 10")
    case True
    with 1(3) show ?thesis by (subst decimal.simps) simp
  next
    case False
    with 1(2) obtain j where k: "k = Suc j" "0 < j" by (cases k; cases "k - 1") auto
    with 1(2) have "n div 10 < 10 ^ j" by auto
    with 1(1) [OF False, of j] k False show ?thesis by (subst decimal.simps) simp
  qed
qed

lemma test_name_test_dir:
  assumes "pid < 2 ^ 32" and "nanos < 2 ^ 128"
  shows "test_name (test_dir pid nanos)"
proof -
  have "length (decimal pid) \<le> 10" using assms(1) by (intro length_decimal) simp_all
  moreover have "length (decimal nanos) \<le> 39" using assms(2) by (intro length_decimal) simp_all
  moreover have "ascii (decimal n)" for n
    using decimal_digits [of n] by (auto simp: ascii_def list_all_iff byte_in_def is_digit_def)
  moreover have "CHR ''%'' \<notin> set (decimal n)" "CHR 0x5C \<notin> set (decimal n)" "slash \<notin> set (decimal n)" for n
    using decimal_digits [of n] by (auto simp: is_digit_def)
  ultimately show ?thesis by (simp add: test_name_def test_dir_def byte_in_def)
qed

lemma filter_parts:
  assumes "filter P xs = []" and "filter P ys = []" and "filter (\<lambda>x. \<not> P x) ys = filter (\<lambda>x. \<not> P x) xs"
  shows "ys = xs"
proof -
  have "filter (\<lambda>x. \<not> P x) xs = xs" "filter (\<lambda>x. \<not> P x) ys = ys"
    using assms(1,2) by (simp_all add: filter_id_conv filter_empty_conv)
  with assms(3) show ?thesis by simp
qed

lemma tables_back:
  assumes "only own t = no_rows" and "only own t' = no_rows" and "others own t' = others own t"
  shows "t' = t"
proof (rule tables.equality)
  show "entries t' = entries t"
    by (rule filter_parts [of "\<lambda>r. own (entry_key r)"]) (use assms in \<open>simp_all add: only_def no_rows_def\<close>)
  show "blocks t' = blocks t"
    by (rule filter_parts [of "\<lambda>b. own (block_file b)"]) (use assms in \<open>simp_all add: only_def no_rows_def\<close>)
qed simp

text \<open>The two tests without a directory of their own: a listing of the root answers when the rows
  are well-formed, and with no standby the first freshness check sets its time and a second
  one within the time to live leaves it.\<close>

lemma meta_all_answers:
  "\<forall>r \<in> set rs. (e_kind r = ''file'' \<or> e_kind r = ''dir'') \<and> 0 \<le> e_size r \<Longrightarrow> \<exists>ms. meta_all rs = Inr ms"
  by (induction rs) (auto simp: row_to_meta_ok)

lemma connect_test:
  assumes "fates s = []" and "replica s = None" and "rows_ok (tabs s)"
  shows "\<exists>s'. connect_and_schema_exists s = (Inr (), s') \<and> tabs s' = tabs s"
proof -
  obtain ms where "meta_all (select_children [] (tabs s)) = Inr ms"
    using meta_all_answers [of "select_children [] (tabs s)"] assms(3)
    by (auto simp: rows_ok_def select_children_def)
  moreover have "list_dir [] s = list_primary [] s"
    using assms(2) by (simp add: list_dir_def choose_standby_def record_replica_fallback_if_configured_def)
  ultimately show ?thesis
    using list_primary_calm [OF assms(1), of "[]"]
    by (simp add: connect_and_schema_exists_def check_def assert_that_def db_bind_def db_return_def)
qed

lemma freshness_test:
  "replica s = None \<Longrightarrow> freshness_checked_at s = None \<Longrightarrow> ms < FRESHNESS_TTL_MS \<Longrightarrow>
    replica_freshness_caches_verdict ms s"
  by (simp add: replica_freshness_caches_verdict_def replica_fresh_cached_def replica_fresh_def Let_def)

text \<open>C40. The program's own database tests hold of the model, with no fault and no standby. Those
  that work in a directory of their own: with a directory name as they make it up, no rows
  below that directory and no row whose path the underscores of the name match in \<open>LIKE\<close>, every
  test passes and leaves every table row as it found it. The test of the connection passes when
  the rows are well-formed, and changes none; the test of the freshness cache passes on a new
  connection when its two checks are less than the time to live apart.\<close>

theorem db_tests_pass:
  assumes "pid < 2 ^ 32" and "nanos < 2 ^ 128" and "3 \<le> fuel"
    and "fates s = []" and "replica s = None"
    and "only (test_rows (test_dir pid nanos)) (tabs s) = no_rows"
    and "undisturbed (test_dir pid nanos) (tabs s)"
  shows "(\<forall>test \<in> set db_tests.
      \<exists>s'. test fuel (test_dir pid nanos) s = (Inr (), s') \<and> tabs s' = tabs s) \<and>
    (rows_ok (tabs s) \<longrightarrow> (\<exists>s'. connect_and_schema_exists s = (Inr (), s') \<and> tabs s' = tabs s)) \<and>
    (freshness_checked_at s = None \<longrightarrow> ms < FRESHNESS_TTL_MS \<longrightarrow> replica_freshness_caches_verdict ms s)"
proof (intro conjI ballI impI)
  show "\<exists>s'. connect_and_schema_exists s = (Inr (), s') \<and> tabs s' = tabs s" if "rows_ok (tabs s)"
    using assms(4,5) that by (rule connect_test)
  show "replica_freshness_caches_verdict ms s" if "freshness_checked_at s = None" "ms < FRESHNESS_TTL_MS"
    using assms(5) that by (rule freshness_test)
next
  fix test
  assume test: "test \<in> set db_tests"
  define d where "d = test_dir pid nanos"
  have name: "test_name d" using assms(1,2) by (simp add: d_def test_name_test_dir)
  then have "d \<noteq> []" by (simp add: test_name_def)
  obtain n where fuel: "fuel = Suc (Suc (Suc n))" using le_Suc_ex [OF assms(3)] by auto
  define q where "q = others (test_rows d) (tabs s)"
  have "undisturbed d q"
    using assms(7) by (auto simp: q_def undisturbed_def own_dir_def d_def)
  with tests_local [OF \<open>d \<noteq> []\<close>] test have loc: "local_to (test_rows d) q (test fuel d)" by blast
  obtain r s' where run: "test fuel d s = (r, s')" by (cases "test fuel d s")
  note kept = local_toD [OF loc q_def [symmetric] run]
  obtain u where "test fuel d (own_part (test_rows d) s) = (Inr (), u)" "tabs u = no_rows"
  proof -
    have "passes_alone test" using tests_alone test by blast
    moreover have "tabs (own_part (test_rows d) s) = no_rows" "fates (own_part (test_rows d) s) = []"
      "replica (own_part (test_rows d) s) = None"
      using assms(4-6) by (simp_all add: d_def)
    ultimately show thesis using name that fuel unfolding passes_alone_def by blast
  qed
  with kept have "r = Inr ()" "only (test_rows d) (tabs s') = no_rows" by auto
  moreover have "tabs s' = tabs s"
    by (rule tables_back [of "test_rows d"]) (use assms(6) calculation(2) kept(2) in \<open>simp_all add: d_def q_def\<close>)
  ultimately show "\<exists>s'. test fuel (test_dir pid nanos) s = (Inr (), s') \<and> tabs s' = tabs s"
    using run by (auto simp: d_def)
qed

theorem db_tests_pass_witness:
  "list_all (\<lambda>test. \<exists>s'. test 3 (test_dir 7 5) (db_with demo []) = (Inr (), s') \<and> tabs s' = demo)
     db_tests \<and>
   (\<exists>s'. connect_and_schema_exists (db_with demo []) = (Inr (), s') \<and> tabs s' = demo) \<and>
   replica_freshness_caches_verdict 499 (db_with demo [])"
proof -
  have d: "test_dir 7 5 = ''_t_7_5''" by code_simp
  have "only (test_rows (test_dir 7 5)) demo = no_rows"
    by (simp add: d only_def no_rows_def demo_defs test_rows_def entry_key_def block_file_def inside_def)
  moreover have "undisturbed (test_dir 7 5) demo"
    by (auto simp: d undisturbed_def own_dir_def demo_defs inside_def under_def sql_like_def cont_def
        wildcard_defs)
  moreover have rows: "rows_ok demo" using demo_well_formed by (simp add: well_formed_def tree_rows_ok)
  ultimately show ?thesis
    using db_tests_pass [of 7 5 3 "db_with demo []" 499] rows
    by (simp add: list_all_iff FRESHNESS_TTL_MS_def) (simp add: db_with_def)
qed

end
