(* ===== verification/Cleanup_Correct.thy ===== *)
theory Cleanup_Correct
  imports Db_Tests_Correct Errors_Correct
begin

text \<open>
  Removing a whole directory with \<open>list\<close>, \<open>unlink\<close> and \<open>rmdir\<close>, as the tests' \<open>cleanup\<close> does
  and as the kernel does for \<open>rm -r\<close>: on well-formed tables the recursion ends and removes
  the directory with everything below it and nothing else.
\<close>

section \<open>What hangs on a row\<close>

text \<open>The keys of a row and of all that lies below its path.\<close>

definition hangs_on :: "entry \<Rightarrow> key \<Rightarrow> bool" where
  "hangs_on c k \<longleftrightarrow> k = entry_key c \<or> inside (path_of c) (fst k)"

lemma inside_trans: "inside a b \<Longrightarrow> inside b c \<Longrightarrow> inside a c"
  by (auto simp: inside_def prefix_def)

lemma inside_path_of:
  assumes "p \<noteq> []" and "e_parent c = p"
  shows "inside p (path_of c)"
  using assms inside_below [of p p "e_name c"] by (simp add: path_of_def inside_def)

lemma others_others: "others P (others Q t) = others (\<lambda>k. Q k \<or> P k) t"
  by (auto simp: only_def intro: filter_cong)

lemma others_cong:
  assumes "\<And>r. r \<in> set (entries t) \<Longrightarrow> P (entry_key r) = Q (entry_key r)"
    and "\<And>b. b \<in> set (blocks t) \<Longrightarrow> P (block_file b) = Q (block_file b)"
  shows "others P t = others Q t"
  using assms by (auto simp: only_def intro: filter_cong)

lemma well_formedD:
  assumes "well_formed t"
  shows "tree_ok t" and "no_orphans t" and "keys_ok t" and "rows_ok t"
  using assms by (simp_all add: well_formed_def tree_keys_ok tree_rows_ok)

text \<open>A tree stays one when a row goes with all that hangs on it.\<close>

lemma well_formed_without:
  assumes "well_formed t" and c: "c \<in> set (entries t)"
  shows "well_formed (others (hangs_on c) t)"
proof -
  note ok = well_formedD [OF assms(1)]
  let ?t = "others (hangs_on c) t"
  have "dir_path ?t (e_parent r)" if r: "r \<in> set (entries t)" "\<not> hangs_on c (entry_key r)" for r
  proof (cases "e_parent r = []")
    case False
    with tree_entry [OF ok(1) r(1)] obtain d where
      d: "d \<in> set (entries t)" "e_kind d = ''dir''" "path_of d = e_parent r"
      by (auto simp: entry_ok_def dir_path_def)
    have "\<not> hangs_on c (entry_key d)"
    proof
      assume "hangs_on c (entry_key d)"
      then consider "path_of d = path_of c" | "inside (path_of c) (e_parent d)"
        by (auto simp: hangs_on_def entry_key_def path_of_def)
      then have "inside (path_of c) (e_parent r)"
      proof cases
        case 1
        with d(3) show ?thesis by (simp add: inside_def)
      next
        case 2
        have "path_of c \<noteq> []"
          using tree_entry [OF ok(1) c] by (auto simp: entry_ok_def name_ok_def path_of_def)
        from inside_below [OF this 2, of "e_name d"] d(3) show ?thesis by (simp add: path_of_def)
      qed
      with r(2) show False by (simp add: hangs_on_def entry_key_def)
    qed
    with d show ?thesis by (auto simp: dir_path_def)
  qed (simp add: dir_path_def)
  then have "tree_ok ?t"
    using ok(1) by (auto simp: tree_ok_def entry_ok_def keys_ok_def distinct_map_filter)
  moreover have "no_orphans ?t"
    using ok(2) by (fastforce simp: no_orphans_def)
  ultimately show ?thesis by (simp add: well_formed_def)
qed

text \<open>On a file, or on a directory without children, only its own row and blocks hang.\<close>

lemma hangs_on_leaf:
  assumes "well_formed t" and c: "c \<in> set (entries t)"
    and leaf: "e_kind c \<noteq> ''dir'' \<or> childless t (path_of c)"
  shows "others (hangs_on c) t =
    \<lparr>entries = filter (\<lambda>r. entry_key r \<noteq> entry_key c) (entries t),
     blocks = filter (\<lambda>b. block_file b \<noteq> entry_key c) (blocks t)\<rparr>"
proof -
  note ok = well_formedD [OF assms(1)]
  have "path_of c \<noteq> []"
    using tree_entry [OF ok(1) c] by (auto simp: entry_ok_def name_ok_def path_of_def)
  moreover have "\<not> dir_path t (path_of c) \<or> childless t (path_of c)"
  proof (cases "dir_path t (path_of c)")
    case True
    with \<open>path_of c \<noteq> []\<close> obtain d where d: "d \<in> set (entries t)" "e_kind d = ''dir''" "path_of d = path_of c"
      by (auto simp: dir_path_def)
    with tree_path_unique [OF ok(1) d(1) c] leaf show ?thesis by auto
  qed simp
  ultimately have e: "\<not> inside (path_of c) (e_parent r)" if "r \<in> set (entries t)" for r
    using nothing_inside [OF ok(1) _ _ that] by blast
  have b: "\<not> inside (path_of c) (b_parent b)" if b: "b \<in> set (blocks t)" for b
  proof -
    obtain q where "q \<in> set (entries t)" "entry_key q = block_file b"
      using ok(2) b by (auto simp: no_orphans_def)
    with e [of q] show ?thesis by (simp add: entry_key_def block_file_def)
  qed
  show ?thesis
    using e b by (auto simp: only_def hangs_on_def entry_key_def block_file_def intro!: filter_cong)
qed

text \<open>Below a directory lie its children and what hangs on them.\<close>

lemma hangs_on_child:
  assumes "tree_ok t" and "p \<noteq> []" and r: "r \<in> set (entries t)"
  shows "inside p (e_parent r) \<longleftrightarrow>
    (\<exists>c \<in> set (select_children p t). hangs_on c (entry_key r))"
proof
  assume "inside p (e_parent r)"
  then consider "e_parent r = p" | b where "e_parent r = p @ slash # b"
    by (auto simp: inside_def elim!: prefixE)
  then show "\<exists>c \<in> set (select_children p t). hangs_on c (entry_key r)"
  proof cases
    case 1
    with r show ?thesis by (auto simp: select_children_def hangs_on_def)
  next
    case 2
    obtain n b' where b: "b = n @ b'" "slash \<notin> set n" "b' = [] \<or> hd b' = slash"
      by (rule that [of "takeWhile (\<lambda>c. c \<noteq> slash) b" "dropWhile (\<lambda>c. c \<noteq> slash) b"])
        (use hd_dropWhile [of "\<lambda>c. c \<noteq> slash" b] in \<open>auto dest: set_takeWhileD\<close>)
    have "dir_path t (join p n)"
    proof (cases b')
      case Nil
      with 2 b(1) assms(2) tree_entry [OF assms(1) r] show ?thesis by (simp add: entry_ok_def join_def)
    next
      case (Cons x rest)
      with 2 b assms(2) ancestor_dir [OF assms(1) r, of "join p n" rest] show ?thesis
        by (simp add: join_def)
    qed
    then obtain c where c: "c \<in> set (entries t)" "path_of c = join p n"
      using assms(2) by (auto simp: dir_path_def)
    have "e_parent c = p"
      using join_inject [of "e_name c" n "e_parent c" p] tree_entry [OF assms(1) c(1)] b(2) c(2)
      by (simp add: entry_ok_def name_ok_def path_of_def plain_name_def)
    moreover have "inside (path_of c) (e_parent r)"
      using 2 b(1,3) assms(2) c(2) by (cases b') (auto simp: inside_def join_def prefix_def)
    ultimately show ?thesis
      using c(1) by (auto simp: select_children_def hangs_on_def entry_key_def)
  qed
next
  assume "\<exists>c \<in> set (select_children p t). hangs_on c (entry_key r)"
  then obtain c where c: "e_parent c = p" "hangs_on c (entry_key r)" by (auto simp: select_children_def)
  show "inside p (e_parent r)"
  proof (cases "entry_key r = entry_key c")
    case True
    with c(1) show ?thesis by (simp add: entry_key_def inside_def)
  next
    case False
    with c(2) have "inside (path_of c) (e_parent r)" by (auto simp: hangs_on_def entry_key_def)
    from inside_trans [OF inside_path_of [OF assms(2) c(1)] this] show ?thesis .
  qed
qed

lemma rows_below_children:
  assumes "well_formed t" and "p \<noteq> []"
  shows "others (\<lambda>k. \<exists>c \<in> set (select_children p t). hangs_on c k) t = others (rows_below p) t"
proof (rule others_cong)
  note ok = well_formedD [OF assms(1)]
  have r: "(\<exists>c \<in> set (select_children p t). hangs_on c (entry_key r)) = rows_below p (entry_key r)"
    if "r \<in> set (entries t)" for r
    using hangs_on_child [OF ok(1) assms(2) that] by (simp add: rows_below_def entry_key_def)
  show "(\<exists>c \<in> set (select_children p t). hangs_on c (entry_key r)) = rows_below p (entry_key r)"
    if "r \<in> set (entries t)" for r by (rule r [OF that])
  show "(\<exists>c \<in> set (select_children p t). hangs_on c (block_file b)) = rows_below p (block_file b)"
    if "b \<in> set (blocks t)" for b
    using ok(2) that r by (fastforce simp: no_orphans_def)
qed

section \<open>The recursion\<close>

text \<open>The fuel is above the length of every directory path below \<open>p\<close>.\<close>

definition deep_enough :: "nat \<Rightarrow> string \<Rightarrow> tables \<Rightarrow> bool" where
  "deep_enough fuel p t \<longleftrightarrow> 0 < fuel \<and> (\<forall>r \<in> set (entries t). e_kind r = ''dir'' \<longrightarrow>
     inside p (e_parent r) \<longrightarrow> length (path_of r) < length p + fuel)"

text \<open>No faults and no standby, on well-formed tables.\<close>

definition settled :: "db \<Rightarrow> bool" where
  "settled s \<longleftrightarrow> fates s = [] \<and> replica s = None \<and> well_formed (tabs s)"

lemma settledD:
  assumes "settled s"
  shows "fates s = []" and "replica s = None" and "well_formed (tabs s)"
  using assms by (simp_all add: settled_def)

definition removes :: "(key \<Rightarrow> bool) \<Rightarrow> unit dbm \<Rightarrow> db \<Rightarrow> bool" where
  "removes P m s \<longleftrightarrow>
     (\<exists>s'. m s = (Inr (), s') \<and> settled s' \<and> tabs s' = others P (tabs s))"

definition remove_child :: "nat \<Rightarrow> string \<Rightarrow> file_meta \<Rightarrow> unit dbm" where
  "remove_child fuel parent child =
     (case m_kind child of
        File \<Rightarrow> ignore (unlink parent (m_name child))
      | Dir \<Rightarrow> db_bind (remove_all fuel (join parent (m_name child)))
                 (\<lambda>_. ignore (rmdir parent (m_name child))))"

lemma remove_all_Suc:
  "remove_all (Suc fuel) parent = if_ok (list_dir parent) (db_for (remove_child fuel parent))"
  unfolding remove_all.simps Let_def by (simp add: remove_child_def [abs_def] fun_eq_iff)

definition empties :: "nat \<Rightarrow> bool" where
  "empties fuel \<longleftrightarrow> (\<forall>p s. p \<noteq> [] \<longrightarrow> settled s \<longrightarrow> deep_enough fuel p (tabs s) \<longrightarrow>
     removes (rows_below p) (remove_all fuel p) s)"

lemma remove_plain_file:
  assumes s: "settled s" and c: "c \<in> set (entries (tabs s))" and "e_kind c \<noteq> ''dir''"
  shows "removes (hangs_on c) (ignore (unlink (e_parent c) (e_name c))) s"
proof -
  note s = s settledD [OF s]
  have "others (hangs_on c) (tabs s) = (tabs s)
      \<lparr>entries := filter (\<lambda>r. entry_key r \<noteq> entry_key c) (entries (tabs s)),
       blocks := filter (\<lambda>b. block_file b \<noteq> entry_key c) (blocks (tabs s))\<rparr>"
    using hangs_on_leaf [OF s(4) c] assms(3) by simp
  with s well_formed_without [OF s(4) c] show ?thesis
    by (simp add: removes_def settled_def ignore_def if_ok_def unlink_calm db_return_def entry_key_def)
qed

lemma remove_leaf_dir:
  assumes s: "settled s" and c: "c \<in> set (entries (tabs s))"
    and "e_kind c = ''dir''" and "childless (tabs s) (path_of c)"
  shows "removes (hangs_on c) (ignore (rmdir (e_parent c) (e_name c))) s"
proof -
  note s = s settledD [OF s]
  note ok = well_formedD [OF s(4)]
  have "block_file b \<noteq> entry_key c" if "b \<in> set (blocks (tabs s))" for b
  proof
    assume "block_file b = entry_key c"
    with ok(2) that obtain q where "q \<in> set (entries (tabs s))" "entry_key q = entry_key c"
      "e_kind q = ''file''" by (auto simp: no_orphans_def)
    with distinct_key_unique [of entry_key "entries (tabs s)" q c] c ok(3) assms(3)
    show False by (simp add: keys_ok_def)
  qed
  then have "filter (\<lambda>b. block_file b \<noteq> entry_key c) (blocks (tabs s)) = blocks (tabs s)"
    by (simp add: filter_id_conv)
  with hangs_on_leaf [OF s(4) c] assms(4)
  have "others (hangs_on c) (tabs s) =
      (tabs s)\<lparr>entries := filter (\<lambda>r. entry_key r \<noteq> entry_key c) (entries (tabs s))\<rparr>" by simp
  with assms(3,4) s well_formed_without [OF s(4) c] show ?thesis
    by (simp add: removes_def settled_def ignore_def if_ok_def rmdir_calm db_return_def entry_key_def
        path_of_def)
qed

lemma removes_then:
  assumes "removes P m s"
    and "\<forall>s'. settled s' \<longrightarrow> tabs s' = others P (tabs s) \<longrightarrow> removes Q k s'"
  shows "removes (\<lambda>x. P x \<or> Q x) (db_bind m (\<lambda>_. k)) s"
proof -
  obtain s' where m: "m s = (Inr (), s')" "settled s'" "tabs s' = others P (tabs s)"
    using assms(1) by (auto simp: removes_def)
  with assms(2) have "removes Q k s'" by blast
  with m show ?thesis by (auto simp: removes_def db_bind_def others_others)
qed

lemma removes_cong:
  "removes P m s \<Longrightarrow> others P (tabs s) = others Q (tabs s) \<Longrightarrow> removes Q m s"
  by (simp add: removes_def)

lemma child_paths:
  assumes "tree_ok t" and "c \<in> set (entries t)" and "p \<noteq> []" and "e_parent c = p"
  shows "length p + 2 \<le> length (path_of c)" and "\<not> inside (path_of c) p"
proof -
  from tree_entry [OF assms(1,2)] have "e_name c \<noteq> []" by (simp add: entry_ok_def name_ok_def)
  with assms(3,4) show "length p + 2 \<le> length (path_of c)"
    by (cases "e_name c") (simp_all add: path_of_def join_def)
  then show "\<not> inside (path_of c) p" by (auto simp: inside_def prefix_def)
qed

lemma deep_enough_child:
  assumes "well_formed t" and "deep_enough (Suc f) p t" and "p \<noteq> []"
    and c: "c \<in> set (entries t)" "e_parent c = p" "e_kind c = ''dir''"
  shows "deep_enough f (path_of c) t"
proof -
  note len = child_paths(1) [OF well_formedD(1) [OF assms(1)] c(1) assms(3) c(2)]
  have "length (path_of c) < length p + Suc f"
    using assms(2) c by (auto simp: deep_enough_def inside_def)
  moreover have "length (path_of r) < length (path_of c) + f"
    if "r \<in> set (entries t)" "e_kind r = ''dir''" "inside (path_of c) (e_parent r)" for r
    using assms(2) that len inside_trans [OF inside_path_of [OF assms(3) c(2)] that(3)]
    by (fastforce simp: deep_enough_def)
  ultimately show ?thesis using len by (simp add: deep_enough_def)
qed

lemma remove_child_removes:
  assumes ih: "empties f" and s: "settled s" and deep: "deep_enough (Suc f) p (tabs s)"
    and p: "p \<noteq> []" and c: "c \<in> set (entries (tabs s))" "e_parent c = p"
  shows "removes (hangs_on c) (remove_child f p (entry_meta c)) s"
proof (cases "e_kind c = ''dir''")
  case False
  with tree_entry [OF well_formedD(1) [OF settledD(3) [OF s]] c(1)] have "m_kind (entry_meta c) = File"
    by (simp add: entry_ok_def entry_meta_def)
  with remove_plain_file [OF s c(1) False] c(2) show ?thesis
    by (simp add: remove_child_def entry_meta_def)
next
  case True
  let ?q = "path_of c"
  note wf = settledD(3) [OF s]
  note paths = child_paths [OF well_formedD(1) [OF wf] c(1) p c(2)]
  have "?q \<noteq> []" using paths(1) by auto
  with ih s deep_enough_child [OF wf deep p c True]
  have below: "removes (rows_below ?q) (remove_all f ?q) s" unfolding empties_def by blast
  have own: "removes (hangs_on c) (ignore (rmdir p (e_name c))) s'"
    if "settled s'" and t: "tabs s' = others (rows_below ?q) (tabs s)" for s'
  proof -
    have "c \<in> set (entries (tabs s'))"
      using c paths(2) by (simp add: t rows_below_def entry_key_def)
    moreover have "childless (tabs s') ?q"
      by (auto simp: t childless_def rows_below_def entry_key_def inside_def)
    ultimately show ?thesis using remove_leaf_dir [OF that(1) _ True] c(2) by blast
  qed
  have child: "remove_child f p (entry_meta c) =
      db_bind (remove_all f ?q) (\<lambda>_. ignore (rmdir p (e_name c)))"
    using True c(2) by (simp add: remove_child_def entry_meta_def path_of_def)
  have "removes (\<lambda>k. rows_below ?q k \<or> hangs_on c k) (remove_child f p (entry_meta c)) s"
    unfolding child using own by (intro removes_then [OF below]) blast
  moreover have "(\<lambda>k. rows_below ?q k \<or> hangs_on c k) = hangs_on c"
    by (auto simp: rows_below_def hangs_on_def fun_eq_iff)
  ultimately show ?thesis by simp
qed

lemma remove_children:
  assumes ih: "empties f" and p: "p \<noteq> []" and "distinct cs" and "settled s"
    and "deep_enough (Suc f) p (tabs s)"
    and "\<forall>c \<in> set cs. c \<in> set (entries (tabs s)) \<and> e_parent c = p"
  shows "removes (\<lambda>k. \<exists>c \<in> set cs. hangs_on c k) (db_for (remove_child f p) (map entry_meta cs)) s"
  using assms(3-)
proof (induction cs arbitrary: s)
  case Nil
  have "others (\<lambda>_. False) (tabs s) = tabs s" by (simp add: only_def)
  with Nil show ?case by (simp add: removes_def db_return_def)
next
  case (Cons c cs)
  from Cons.prems(4) have c: "c \<in> set (entries (tabs s))" "e_parent c = p" by simp_all
  note ok = well_formedD [OF settledD(3) [OF Cons.prems(2)]]
  note first = remove_child_removes [OF ih Cons.prems(2,3) p c]
  have rest: "removes (\<lambda>k. \<exists>c \<in> set cs. hangs_on c k) (db_for (remove_child f p) (map entry_meta cs)) s'"
    if s': "settled s'" and t: "tabs s' = others (hangs_on c) (tabs s)" for s'
  proof (rule Cons.IH [OF _ s'])
    show "deep_enough (Suc f) p (tabs s')" using Cons.prems(3) by (auto simp: deep_enough_def t)
    show "\<forall>d \<in> set cs. d \<in> set (entries (tabs s')) \<and> e_parent d = p"
    proof
      fix d assume d: "d \<in> set cs"
      with Cons.prems(1,4) have "d \<noteq> c" "d \<in> set (entries (tabs s))" "e_parent d = p" by auto
      moreover from this have "entry_key d \<noteq> entry_key c"
        using distinct_key_unique [of entry_key "entries (tabs s)" d c] c(1) ok(3)
        unfolding keys_ok_def by blast
      ultimately show "d \<in> set (entries (tabs s')) \<and> e_parent d = p"
        using child_paths(2) [OF ok(1) c(1) p c(2)] by (simp add: t hangs_on_def entry_key_def)
    qed
  qed (use Cons.prems(1) in simp)
  have "removes (\<lambda>k. hangs_on c k \<or> (\<exists>c \<in> set cs. hangs_on c k))
      (db_bind (remove_child f p (entry_meta c)) (\<lambda>_. db_for (remove_child f p) (map entry_meta cs))) s"
    using rest by (intro removes_then [OF first]) blast
  then show ?case by simp
qed

lemma remove_all_empties: "empties fuel"
proof (induction fuel)
  case 0
  then show ?case by (simp add: empties_def deep_enough_def)
next
  case (Suc f)
  have "removes (rows_below p) (remove_all (Suc f) p) s"
    if p: "p \<noteq> []" and s: "settled s" and deep: "deep_enough (Suc f) p (tabs s)" for p s
  proof -
    note wf = settledD(3) [OF s]
    note ok = well_formedD [OF wf]
    let ?cs = "select_children p (tabs s)"
    let ?s = "record_latency s"
    have list: "list_dir p s = (Inr (map entry_meta ?cs), ?s)"
      using settledD [OF s] meta_all_children [OF ok(4)] by (simp add: list_alone list_primary_calm)
    have "distinct (filter (\<lambda>r. e_parent r = p) (entries (tabs s)))"
      using ok(3) by (simp add: keys_ok_def distinct_map)
    then have "distinct ?cs" by (simp add: select_children_def)
    from remove_children [OF Suc.IH p this, of ?s] s deep
    have "removes (\<lambda>k. \<exists>c \<in> set ?cs. hangs_on c k) (db_for (remove_child f p) (map entry_meta ?cs)) ?s"
      by (simp add: settled_def select_children_def)
    from removes_cong [OF this, of "rows_below p"] rows_below_children [OF wf p]
    have "removes (rows_below p) (db_for (remove_child f p) (map entry_meta ?cs)) ?s" by simp
    then show ?thesis
      unfolding remove_all_Suc if_ok_def removes_def list by simp
  qed
  then show ?case by (simp add: empties_def)
qed

text \<open>C17. On well-formed tables the recursion of \<open>cleanup\<close> ends within fuel above the length of
  every directory path below the directory, without an error, and removes the directory with
  all entries and blocks below it and no other row; what is left is a well-formed tree.\<close>

theorem cleanup_empties:
  assumes "settled s" and "name_ok d" and "dir_path (tabs s) d" and "deep_enough fuel d (tabs s)"
  shows "\<exists>s'. cleanup fuel d s = (Inr (), s') \<and> settled s' \<and>
    tabs s' = others (test_rows d) (tabs s)"
proof -
  note ok = well_formedD [OF settledD(3) [OF assms(1)]]
  have d: "d \<noteq> []" using assms(2) by (simp add: name_ok_def)
  with assms(3) obtain c where c: "c \<in> set (entries (tabs s))" "e_kind c = ''dir''" "path_of c = d"
    by (auto simp: dir_path_def)
  have key: "entry_key c = ([], d)"
    using c(3) assms(2) by (auto simp: name_ok_def plain_name_def path_of_def join_def entry_key_def
        split: if_splits)
  have below: "removes (rows_below d) (remove_all fuel d) s"
    using remove_all_empties assms(1,4) d unfolding empties_def by blast
  have own: "removes (hangs_on c) (ignore (rmdir [] d)) s'"
    if "settled s'" and t: "tabs s' = others (rows_below d) (tabs s)" for s'
  proof -
    have "c \<in> set (entries (tabs s'))" using c(1) key d by (simp add: t rows_below_def inside_def prefix_def)
    moreover have "childless (tabs s') (path_of c)"
      by (auto simp: t c(3) childless_def rows_below_def entry_key_def inside_def)
    moreover have "e_parent c = []" "e_name c = d" using key by (simp_all add: entry_key_def)
    ultimately show ?thesis using remove_leaf_dir [OF that(1) _ c(2)] by metis
  qed
  have "removes (\<lambda>k. rows_below d k \<or> hangs_on c k) (cleanup fuel d) s"
    unfolding cleanup_def using own by (intro removes_then [OF below]) blast
  moreover have "(\<lambda>k. rows_below d k \<or> hangs_on c k) = test_rows d"
    using key c(3) by (auto simp: rows_below_def hangs_on_def test_rows_def fun_eq_iff)
  ultimately show ?thesis by (simp add: removes_def)
qed

theorem cleanup_empties_witness:
  "fst (cleanup 3 ''docs'' (db_with demo [])) = Inr () \<and>
    tabs (snd (cleanup 3 ''docs'' (db_with demo []))) = no_rows"
proof -
  have "settled (db_with demo [])" using demo_well_formed by (simp add: settled_def)
  moreover have "name_ok ''docs''" by (simp add: name_ok_def plain_name_def byte_in_def)
  moreover have "dir_path (tabs (db_with demo [])) ''docs''"
    by (simp add: dir_path_def demo_def demo_entry_def path_of_def join_def)
  moreover have "deep_enough 3 ''docs'' (tabs (db_with demo []))"
    by (simp add: deep_enough_def demo_def demo_entry_def inside_def prefix_def)
  ultimately obtain s' where "cleanup 3 ''docs'' (db_with demo []) = (Inr (), s')"
    "tabs s' = others (test_rows ''docs'') (tabs (db_with demo []))"
    using cleanup_empties [of "db_with demo []" "''docs''" 3] by blast
  then show ?thesis
    by (simp add: demo_def demo_entry_def demo_block_def test_rows_def inside_def entry_key_def
        block_file_def only_def no_rows_def)
qed

end
