(* ===== verification/Unit_Tests.thy ===== *)
theory Unit_Tests
  imports Db_Tests Db_Connect Reports Profiling
begin

text \<open>
  The unit tests that need no rows: those of \<open>src/fs.rs\<close>, \<open>src/error.rs\<close>,
  \<open>src/metrics.rs\<close> and \<open>src/profiling.rs\<close>, and those of \<open>join\<close> and of connecting in
  \<open>src/db.rs\<close>. A test is the
  conjunction of its assertions; what it meets at run time (the clock, the process's owner,
  what the sampler gives) is an argument.
\<close>

section \<open>Paths\<close>

definition split_path_root_entry :: bool where
  "split_path_root_entry \<longleftrightarrow> split_path ''foo'' = ('''', ''foo'')"

definition split_path_nested :: bool where
  "split_path_nested \<longleftrightarrow> split_path ''a/b'' = (''a'', ''b'')"

definition split_path_deeply_nested :: bool where
  "split_path_deeply_nested \<longleftrightarrow> split_path ''a/b/c/d'' = (''a/b/c'', ''d'')"

definition split_path_single_char :: bool where
  "split_path_single_char \<longleftrightarrow> split_path ''x'' = ('''', ''x'')"

definition join_root_entry :: bool where
  "join_root_entry \<longleftrightarrow> join '''' ''foo'' = ''foo''"

definition join_nested_entry :: bool where
  "join_nested_entry \<longleftrightarrow> join ''a'' ''b'' = ''a/b'' \<and> join ''a/b'' ''c'' = ''a/b/c''"

text \<open>The two of \<open>src/db.rs\<close>.\<close>

definition db_join_root_entry :: bool where
  "db_join_root_entry \<longleftrightarrow> join '''' ''foo'' = ''foo''"

definition db_join_nested :: bool where
  "db_join_nested \<longleftrightarrow> join ''a'' ''b'' = ''a/b'' \<and> join ''a/b'' ''c'' = ''a/b/c''"

section \<open>The inode cache\<close>

text \<open>The allocator that \<open>ino_for_is_stable\<close> has of its own.\<close>

definition test_alloc :: "string \<Rightarrow> inodes \<Rightarrow> nat \<times> inodes" where
  "test_alloc path m =
     (case map_of (ino_by_path m) path of
        Some ino \<Rightarrow> (ino, m)
      | None \<Rightarrow>
          (next_ino m,
           \<lparr>ino_by_path = AList.update path (next_ino m) (ino_by_path m),
            path_by_ino = AList.update (next_ino m) path (path_by_ino m),
            next_ino = next_ino m + 1\<rparr>))"

definition ino_for_is_stable :: bool where
  "ino_for_is_stable \<longleftrightarrow>
     (case test_alloc ''foo'' \<lparr>ino_by_path = [], path_by_ino = [], next_ino = 5\<rparr> of (a, m1) \<Rightarrow>
        case test_alloc ''foo'' m1 of (b, m2) \<Rightarrow>
          case test_alloc ''bar'' m2 of (c, m3) \<Rightarrow>
            a = b \<and> a \<noteq> c \<and> next_ino m3 = 7 \<and> map_of (path_by_ino m3) a = Some ''foo'')"

text \<open>Maps built by \<open>insert\<close>; the counter is not one of them.\<close>

definition test_maps :: "(string \<times> nat) list \<Rightarrow> inodes" where
  "test_maps pairs =
     \<lparr>ino_by_path = pairs, path_by_ino = map prod.swap pairs, next_ino = 100\<rparr>"

definition rekey_single_file :: bool where
  "rekey_single_file \<longleftrightarrow>
     (let m = rekey_maps ''old.txt'' ''new.txt'' (test_maps [(''old.txt'', 10)]) in
      map_of (ino_by_path m) ''old.txt'' = None \<and>
      map_of (ino_by_path m) ''new.txt'' = Some 10 \<and>
      map_of (path_by_ino m) 10 = Some ''new.txt'')"

text \<open>\<open>order\<close> is the order in which the hash map gives its entries.\<close>

definition rekey_dir_with_descendants :: "(string \<times> nat) list \<Rightarrow> bool" where
  "rekey_dir_with_descendants order \<longleftrightarrow>
     (let m = rekey_maps ''src'' ''dest'' (test_maps order) in
      map_of (ino_by_path m) ''src'' = None \<and>
      map_of (ino_by_path m) ''src/file.txt'' = None \<and>
      map_of (ino_by_path m) ''src/sub/deep.txt'' = None \<and>
      map_of (ino_by_path m) ''dest'' = Some 10 \<and>
      map_of (ino_by_path m) ''dest/file.txt'' = Some 11 \<and>
      map_of (ino_by_path m) ''dest/sub/deep.txt'' = Some 12 \<and>
      map_of (path_by_ino m) 10 = Some ''dest'' \<and>
      map_of (path_by_ino m) 11 = Some ''dest/file.txt'' \<and>
      map_of (ino_by_path m) ''unrelated.txt'' = Some 99)"

definition cached_paths :: "(string \<times> nat) list" where
  "cached_paths =
     [(''src'', 10), (''src/file.txt'', 11), (''src/sub/deep.txt'', 12), (''unrelated.txt'', 99)]"

definition rekey_nonexistent_path_is_noop :: bool where
  "rekey_nonexistent_path_is_noop \<longleftrightarrow>
     (let m = rekey_maps ''ghost'' ''nope'' (test_maps [(''a.txt'', 5)]) in
      map_of (ino_by_path m) ''a.txt'' = Some 5 \<and>
      map_of (ino_by_path m) ''ghost'' = None \<and>
      map_of (ino_by_path m) ''nope'' = None)"

text \<open>The second result is the database the test leaves behind: it removes nothing.\<close>

definition writeback_cache_and_ino_handle_fallback :: "nat \<times> nat \<Rightarrow> int \<Rightarrow> db \<Rightarrow> bool \<times> db" where
  "writeback_cache_and_ino_handle_fallback ids now d =
     (case create [] ''ino_fallback.txt'' d of
        (Inl _, d') \<Rightarrow> (False, d')
      | (Inr _, d') \<Rightarrow>
          (1 < fst (ino_for ''ino_fallback.txt''
                 (inos (with_attr_ttl d' False 1000000000 ids now))), d'))"

section \<open>Attributes\<close>

definition root_attr_is_directory :: "nat \<times> nat \<Rightarrow> bool" where
  "root_attr_is_directory ids \<longleftrightarrow>
     (let a = root_attr ids in a_ino a = ROOT_INO \<and> a_kind a = Directory \<and> a_perm a = 7 * 64 + 5 * 8 + 5)"

definition file_attr_has_correct_permissions :: "nat \<times> nat \<Rightarrow> bool" where
  "file_attr_has_correct_permissions ids \<longleftrightarrow>
     (let a = file_attr 42 1024 0 ids in
      a_ino a = 42 \<and> a_kind a = RegularFile \<and> a_perm a = 6 * 64 + 4 * 8 + 4 \<and> a_size a = 1024 \<and>
      a_nlink a = 1 \<and> a_blocks a = (1024 + 512 - 1) div 512)"

definition dir_attr_has_correct_permissions :: "nat \<times> nat \<Rightarrow> bool" where
  "dir_attr_has_correct_permissions ids \<longleftrightarrow>
     (let a = dir_attr 7 ids in
      a_ino a = 7 \<and> a_kind a = Directory \<and> a_perm a = 7 * 64 + 5 * 8 + 5 \<and> a_nlink a = 2 \<and> a_size a = 0)"

section \<open>Error stories\<close>

abbreviation contains :: "string \<Rightarrow> string \<Rightarrow> bool" where
  "contains hay needle \<equiv> sublist needle hay"

text \<open>\<open>anyhow!("root cause")\<close>, and the call sites in \<open>src/error.rs\<close>.\<close>

abbreviation here :: string where
  "here \<equiv> ''src/error.rs''"

definition ctx_wraps_error_with_context :: bool where
  "ctx_wraps_error_with_context \<longleftrightarrow>
     (case ctx here 72 (Inl [''root cause''] :: chain + unit) ''load config'' of
        Inl err \<Rightarrow> contains (hd err) ''load config'' \<and> contains (hd err) ''src/error.rs''
      | Inr _ \<Rightarrow> False)"

definition ctx_preserves_root_cause :: bool where
  "ctx_preserves_root_cause \<longleftrightarrow>
     (case ctx here 88 (Inl [''root cause''] :: chain + unit) ''outer operation'' of
        Inl err \<Rightarrow> contains (story err) ''root cause''
      | Inr _ \<Rightarrow> False)"

definition ctx_on_ok_passes_through :: bool where
  "ctx_on_ok_passes_through \<longleftrightarrow>
     (case ctx here 100 (Inr 42 :: chain + int) ''should not matter'' of
        Inl _ \<Rightarrow> False
      | Inr n \<Rightarrow> n = 42)"

definition inner :: "chain + unit" where
  "inner = Inl (failure here 107 ''disk full'')"

definition middle :: "chain + unit" where
  "middle = ctx here 110 inner ''save file''"

definition outer :: "chain + unit" where
  "outer = ctx here 113 middle ''handle request''"

definition ctx_chaining_produces_layered_story :: bool where
  "ctx_chaining_produces_layered_story \<longleftrightarrow>
     (case outer of
        Inl err \<Rightarrow>
          contains (story err) ''handle request'' \<and> contains (story err) ''save file'' \<and>
          contains (story err) ''disk full''
      | Inr _ \<Rightarrow> False)"

definition failure_includes_call_site :: bool where
  "failure_includes_call_site \<longleftrightarrow>
     (let msg = hd (failure here 127 ''invariant broken'') in
      contains msg ''invariant broken'' \<and> contains msg ''src/error.rs'' \<and> CHR '':'' \<in> set msg)"

definition failure_is_anyhow_error :: bool where
  "failure_is_anyhow_error \<longleftrightarrow> (let err = failure here 139 ''test'' in hd err = hd err)"

section \<open>Metrics\<close>

text \<open>\<open>Histogram::snapshot\<close>: the loop that copies the buckets into an array of zeros.\<close>

definition snapshot :: "nat list \<Rightarrow> nat list" where
  "snapshot counts =
     fold (\<lambda>(i, c) s. s[i := c]) (List.enumerate 0 counts) (replicate HISTO_BUCKETS 0)"

definition histogram_buckets :: bool where
  "histogram_buckets \<longleftrightarrow>
     (let h = fold histogram_record [5, 50, 500, 5 * 1000, 50 * 1000, 500 * 1000, 2 * 1000000]
                histogram_new;
          s = snapshot h
      in s ! 0 = 1 \<and> s ! 1 = 1 \<and> s ! 2 = 1 \<and> s ! 3 = 1 \<and> s ! 4 = 1 \<and> s ! 5 = 1 \<and> s ! 6 = 1)"

definition histogram_empty_summary :: bool where
  "histogram_empty_summary \<longleftrightarrow> contains (summary_text ''test'' histogram_new) ''0 samples''"

definition histogram_with_data_summary :: bool where
  "histogram_with_data_summary \<longleftrightarrow>
     contains (summary_text ''test'' (histogram_record 5 histogram_new)) ''total=1''"

definition counters_increment :: "statics \<Rightarrow> bool \<times> statics" where
  "counters_increment m =
     (let m1 = m\<lparr>lookup_count := bump (lookup_count m)\<rparr>
      in (lookup_count m1 = 1, m1\<lparr>lookup_count := 0\<rparr>))"

text \<open>The four checks at monotonic times \<open>t1\<close> to \<open>t4\<close>.\<close>

definition liveness_check_detects_stall ::
  "nat \<Rightarrow> nat \<Rightarrow> nat \<Rightarrow> nat \<Rightarrow> statics \<Rightarrow> bool \<times> statics"
where
  "liveness_check_detects_stall t1 t2 t3 t4 m =
     (case check_liveness t1 m of (ok1, m1) \<Rightarrow>
        case check_liveness t2 (heartbeat m1) of (ok2, m2) \<Rightarrow>
          case check_liveness t3 (m2\<lparr>beat_deadline_at := 0\<rparr>) of (ok3, m3) \<Rightarrow>
            case check_liveness t4 (heartbeat m3) of (ok4, m4) \<Rightarrow>
              (ok1 \<and> ok2 \<and> \<not> ok3 \<and> ok4, m4))"

text \<open>The guard drops after \<open>us\<close> microseconds. A difference below zero panics.\<close>

definition latency_guard_records_one_sample :: "nat \<Rightarrow> statics \<Rightarrow> bool \<times> statics" where
  "latency_guard_records_one_sample us m =
     (let before = snapshot (fuse_latency m);
          m' = m\<lparr>fuse_latency := histogram_record us (fuse_latency m)\<rparr>;
          after = snapshot (fuse_latency m')
      in (list_all2 (\<le>) before after \<and> (\<Sum>(a, b) \<leftarrow> zip after before. a - b) = 1, m'))"

section \<open>The profiler switch\<close>

text \<open>\<open>str::replace\<close>\<close>

fun replace_all :: "string \<Rightarrow> string \<Rightarrow> string \<Rightarrow> string" where
  "replace_all from to [] = []"
| "replace_all from to (c # cs) =
     (if from \<noteq> [] \<and> prefix from (c # cs)
      then to @ replace_all from to (drop (length from - 1) cs)
      else c # replace_all from to cs)"

text \<open>The first call meets \<open>on\<close>, the second \<open>off\<close>; between them the sampler runs.\<close>

definition toggle_starts_and_stops ::
  "'guard toggle_env \<Rightarrow> 'guard toggle_env \<Rightarrow> files \<Rightarrow> bool"
where
  "toggle_starts_and_stops on off fs =
     (case toggle on None fs of (started, slot, fs1) \<Rightarrow>
        started = None \<and>
        (case toggle off slot fs1 of
           (None, _, _) \<Rightarrow> False
         | (Some stopped, slot', fs2) \<Rightarrow>
             prefix ''/tmp/pgfs-profile-'' stopped \<and>
             is_some (fs2 stopped) \<and>
             is_some (fs2 (replace_all ''.svg'' ''.stacks'' stopped)) \<and>
             slot' = None))"

definition toggle_is_noop_without_feature :: "'guard toggle_env \<Rightarrow> files \<Rightarrow> bool" where
  "toggle_is_noop_without_feature env fs \<longleftrightarrow> fst (toggle_stub env (None :: 'guard option) fs) = None"

section \<open>Connecting\<close>

definition test_conn_str :: "string \<Rightarrow> string" where
  "test_conn_str cwd = ''host='' @ cwd @ ''/testdata dbname=pgfs''"

definition connect_with_unlogged_tables ::
  "(string \<Rightarrow> 'cfg option) \<Rightarrow> (bool option \<Rightarrow> nat \<Rightarrow> 'cfg \<Rightarrow> 'pool option) \<Rightarrow>
    ('pool \<Rightarrow> 'conn option) \<Rightarrow> ('conn \<Rightarrow> string \<Rightarrow> bool) \<Rightarrow> string \<Rightarrow> bool"
where
  "connect_with_unlogged_tables parse build acquire prepare cwd =
     (case db_connect_opts parse build acquire prepare (test_conn_str cwd) None True of
        Inl _ \<Rightarrow> False
      | Inr _ \<Rightarrow> True)"

text \<open>The batch of \<open>on_acquire\<close> ends with \<open>SET synchronous_commit = off\<close>; \<open>dflt\<close> is the server's
  setting. The test shows the setting of a connection that has joined the pool.\<close>

definition synchronous_commit :: "string \<Rightarrow> fate \<Rightarrow> string" where
  "synchronous_commit dflt fate = (if fate = Refused then dflt else ''off'')"

definition connect_disables_synchronous_commit :: "string \<Rightarrow> fate \<Rightarrow> schema \<Rightarrow> bool" where
  "connect_disables_synchronous_commit dflt fate sc \<longleftrightarrow>
     fst (on_acquire False fate sc) \<and> synchronous_commit dflt fate = ''off''"

text \<open>\<open>acquires\<close> is what the pool does for each of the threads.\<close>

definition db_pool_concurrent_queries ::
  "(string \<Rightarrow> 'cfg option) \<Rightarrow> (bool option \<Rightarrow> nat \<Rightarrow> 'cfg \<Rightarrow> 'pool option) \<Rightarrow>
    ('pool \<Rightarrow> 'conn option) list \<Rightarrow> ('conn \<Rightarrow> string \<Rightarrow> bool) \<Rightarrow> string \<Rightarrow> db \<Rightarrow> bool"
where
  "db_pool_concurrent_queries parse build acquires prepare cwd s =
     (case pool_connect_opts parse build (test_conn_str cwd) None False 5 of
        Inl _ \<Rightarrow> False
      | Inr pool \<Rightarrow>
          list_all (\<lambda>acquire.
            case pool_get acquire prepare pool of
              Inl _ \<Rightarrow> False
            | Inr _ \<Rightarrow> fst (list_dir [] s) \<noteq> Inl Panic) acquires)"

section \<open>They pass\<close>

lemma split_path_tests:
  "split_path_root_entry" "split_path_nested" "split_path_deeply_nested" "split_path_single_char"
  by (code_simp)+

lemma join_tests: "join_root_entry" "join_nested_entry" "db_join_root_entry" "db_join_nested"
  by (code_simp)+

lemma ino_for_test: "ino_for_is_stable"
  by (simp add: ino_for_is_stable_def test_alloc_def)

text \<open>The test's own allocator is the one of the file system.\<close>

lemma test_alloc_ino_for: "test_alloc = ino_for"
  by (auto simp: fun_eq_iff test_alloc_def ino_for_def Let_def split: option.split)

lemma rekey_tests: "rekey_single_file" "rekey_nonexistent_path_is_noop"
  by (code_simp)+

lemma rekey_maps_gone:
  assumes "inodes_ok m" and apart: "\<not> prefix (old_path @ [slash]) new_path"
    "\<not> prefix (new_path @ [slash]) old_path" "old_path \<noteq> new_path"
    and q: "q = old_path \<or> prefix (old_path @ [slash]) q"
  shows "map_of (ino_by_path (rekey_maps old_path new_path m)) q = None"
proof -
  let ?m = "rekey_one old_path new_path m"
  note found = rekey_maps_find(2) [OF assms(1) apart, of q]
  have "\<not> prefix (new_path @ [slash]) q"
    using q
  proof
    assume "prefix (old_path @ [slash]) q"
    then obtain s where "q = old_path @ slash # s" by (auto elim: prefixE)
    with apart_children [OF apart(2,1) not_sym [OF apart(3)]] show ?thesis by simp
  qed (use apart in simp)
  then have "map_of (map prod.swap (map (re_rooted old_path new_path) (descendants old_path ?m))) q = None"
    by (auto simp: map_of_eq_None_iff)
  moreover have "map_of (ino_by_path ?m) old_path = None"
    using apart(3) by (simp add: rekey_one_lookup split: option.split)
  moreover have "map_of (ino_by_path ?m) q = None" if "q \<notin> set (descendants old_path ?m)"
    using that q calculation(2) by (auto simp: map_of_eq_None_iff)
  ultimately show ?thesis using found by (auto simp: image_iff)
qed

text \<open>The directory test passes in whatever order the hash maps give their entries.\<close>

lemma test_maps_ok:
  assumes "distinct order" and "set order = set cached_paths"
  shows "inodes_ok (test_maps order)" and "map_of order = map_of cached_paths"
proof -
  have "distinct (map fst order)" "distinct (map snd order)"
    using assms by (simp_all add: distinct_map cached_paths_def)
  then show look: "map_of order = map_of cached_paths"
    using assms(2) map_of_inject_set [of order cached_paths] by (simp add: cached_paths_def)
  have inos: "map_of (map prod.swap order) i = Some p \<longleftrightarrow> (p, i) \<in> set order" for i p
    using \<open>distinct (map snd order)\<close> by (subst map_of_eq_Some_iff) (simp add: o_def, force)
  have paths: "map_of order p = Some i \<longleftrightarrow> (p, i) \<in> set order" for i p
    using \<open>distinct (map fst order)\<close> by (rule map_of_eq_Some_iff)
  have "\<forall>(p, i) \<in> set order. i < 100"
    unfolding assms(2) by (simp add: cached_paths_def)
  then have "\<forall>i p. map_of (map prod.swap order) i = Some p \<longrightarrow> i < 100"
    unfolding inos by blast
  moreover have "\<forall>p i. map_of order p = Some i \<longrightarrow> map_of (map prod.swap order) i = Some p"
    unfolding inos paths by blast
  moreover have "distinct (map fst (map prod.swap order))"
    using \<open>distinct (map snd order)\<close> by (simp add: o_def)
  ultimately show "inodes_ok (test_maps order)"
    using \<open>distinct (map fst order)\<close> by (simp only: inodes_ok_def test_maps_def inodes.simps)
qed

lemma rekey_dir_test:
  assumes "distinct order" and "set order = set cached_paths"
  shows "rekey_dir_with_descendants order"
proof -
  note ok = test_maps_ok [OF assms]
  let ?m = "rekey_maps ''src'' ''dest'' (test_maps order)"
  have look: "map_of (ino_by_path (test_maps order)) = map_of cached_paths"
    using ok(2) by (simp add: test_maps_def)
  have apart: "\<not> prefix (''src'' @ [slash]) ''dest''" "\<not> prefix (''dest'' @ [slash]) ''src''"
    "''src'' \<noteq> ''dest''" by (simp_all add: prefix_def)
  note moved = rekey_maps_lookup [OF ok(1) apart, unfolded look]
  have gone: "map_of (ino_by_path ?m) q = None" if "q = ''src'' \<or> prefix (''src'' @ [slash]) q" for q
    by (rule rekey_maps_gone [OF ok(1) apart that])
  have cached: "map_of cached_paths ''src'' = Some 10" "map_of cached_paths ''src/file.txt'' = Some 11"
    "map_of cached_paths ''src/sub/deep.txt'' = Some 12" "map_of cached_paths ''unrelated.txt'' = Some 99"
    by (simp_all add: cached_paths_def)
  have "map_of (ino_by_path ?m) ''dest'' = Some 10"
    by (rule moved(1) [OF cached(1) refl])
  moreover have "map_of (ino_by_path ?m) (''dest'' @ slash # ''file.txt'') = Some 11"
    by (rule moved(2) [OF cached(2)]) simp
  moreover have "map_of (ino_by_path ?m) (''dest'' @ slash # ''sub/deep.txt'') = Some 12"
    by (rule moved(2) [OF cached(3)]) simp
  moreover have "map_of (ino_by_path ?m) ''unrelated.txt'' = Some 99"
    by (rule moved(3) [OF cached(4)]) simp_all
  moreover have "map_of (path_by_ino ?m) 10 = Some ''dest''"
    using inodes_okD(3) [OF rekey_maps_ok [OF ok(1)] calculation(1)] .
  moreover have "map_of (path_by_ino ?m) 11 = Some (''dest'' @ slash # ''file.txt'')"
    using inodes_okD(3) [OF rekey_maps_ok [OF ok(1)] calculation(2)] .
  ultimately show ?thesis
    unfolding rekey_dir_with_descendants_def Let_def
    using gone [of "''src''"] gone [of "''src/file.txt''"] gone [of "''src/sub/deep.txt''"] by simp
qed

lemma writeback_test:
  assumes "create [] ''ino_fallback.txt'' d = (Inr u, d')"
  shows "writeback_cache_and_ino_handle_fallback ids now d = (True, d')"
  using assms
  by (simp add: writeback_cache_and_ino_handle_fallback_def with_attr_ttl_def inodes_init_def ino_for_def
      ROOT_PATH_def ROOT_INO_def)

lemma attr_tests:
  "root_attr_is_directory ids" "file_attr_has_correct_permissions ids" "dir_attr_has_correct_permissions ids"
  by (simp_all add: root_attr_is_directory_def file_attr_has_correct_permissions_def
      dir_attr_has_correct_permissions_def root_attr_def file_attr_def dir_attr_def Let_def)

lemma error_tests:
  "ctx_wraps_error_with_context" "ctx_preserves_root_cause" "ctx_on_ok_passes_through"
  "ctx_chaining_produces_layered_story" "failure_includes_call_site" "failure_is_anyhow_error"
  by code_simp+

lemma snapshot_copies:
  assumes "length counts = HISTO_BUCKETS"
  shows "snapshot counts = counts"
proof -
  have "fold (\<lambda>(i, c) s. s[i := c]) (List.enumerate n cs) (xs @ replicate (length cs) 0) = xs @ cs"
    if "length xs = n" for n xs and cs :: "nat list"
    using that
  proof (induction cs arbitrary: n xs)
    case (Cons c cs)
    from Cons.IH [of "xs @ [c]" "Suc n"] Cons.prems show ?case by (simp add: list_update_append)
  qed simp
  from this [of "[]" 0 counts] assms show ?thesis by (simp add: snapshot_def)
qed

lemma histogram_tests: "histogram_buckets" "histogram_empty_summary" "histogram_with_data_summary"
proof -
  have new: "histogram_new = [0, 0, 0, 0, 0, 0, 0]"
    unfolding histogram_new_def HISTO_BUCKETS_def by (simp add: numeral_eq_Suc)
  have bucket: "bucket_of 5 = 0" "bucket_of 50 = Suc 0" "bucket_of 500 = Suc (Suc 0)"
    "bucket_of 5000 = Suc (Suc (Suc 0))" "bucket_of 50000 = Suc (Suc (Suc (Suc 0)))"
    "bucket_of 500000 = Suc (Suc (Suc (Suc (Suc 0))))"
    "bucket_of 2000000 = Suc (Suc (Suc (Suc (Suc (Suc 0)))))"
    by (simp_all add: bucket_of_def HISTO_THRESHOLDS_def HISTO_BUCKETS_def)
  have "fold histogram_record [5, 50, 500, 5000, 50000, 500000, 2000000] histogram_new =
      [1, 1, 1, 1, 1, 1, 1]"
    by (simp add: new histogram_record_def bucket bump_def)
  then show "histogram_buckets"
    by (simp add: histogram_buckets_def snapshot_copies HISTO_BUCKETS_def)
  have "summary_text ''test'' histogram_new = ''test=0 samples''"
    by (simp add: summary_text_def histogram_summary_def new)
  moreover have "sublist ''0 samples'' ''test=0 samples''" by code_simp
  ultimately show "histogram_empty_summary" by (simp add: histogram_empty_summary_def)
  have "histogram_record 5 histogram_new = [1, 0, 0, 0, 0, 0, 0]"
    by (simp add: new histogram_record_def bucket bump_def)
  moreover have "decimal 1 = ''1''" by code_simp
  ultimately have "prefix ''test total=1'' (summary_text ''test'' (histogram_record 5 histogram_new))"
    by (simp add: summary_text_def histogram_summary_def Let_def)
  then obtain rest where "summary_text ''test'' (histogram_record 5 histogram_new) =
      ''test '' @ ''total=1'' @ rest" by (auto simp: prefix_def)
  then show "histogram_with_data_summary"
    unfolding histogram_with_data_summary_def sublist_def by metis
qed

lemma counters_test:
  "lookup_count m = 0 \<Longrightarrow> counters_increment m = (True, m)"
  by (simp add: counters_increment_def bump_def)

lemma liveness_test:
  assumes "last_beat_seen m = U64_MAX" and "liveness m < U64_MAX - 1"
  shows "fst (liveness_check_detects_stall t1 t2 t3 t4 m)"
proof -
  have "bump (liveness m) = Suc (liveness m)" using assms(2) by (simp add: bump_def)
  moreover have "bump (Suc (liveness m)) \<noteq> Suc (liveness m)" using assms(2) by (simp add: bump_def)
  ultimately show ?thesis
    using assms by (simp add: liveness_check_detects_stall_def check_liveness_def heartbeat_def Let_def)
qed

lemma latency_guard_test:
  assumes "length (fuse_latency m) = HISTO_BUCKETS" and "\<forall>n \<in> set (fuse_latency m). n < U64 - 1"
  shows "fst (latency_guard_records_one_sample us m)"
proof -
  let ?h = "fuse_latency m" and ?b = "bucket_of us"
  have b: "?b < length ?h" using bucket_of_less assms(1) by simp
  with assms(2) have up: "histogram_record us ?h = ?h[?b := Suc (?h ! ?b)]"
    by (simp add: histogram_record_def bump_def)
  have "(\<Sum>(x, y) \<leftarrow> zip (h[i := Suc (h ! i)]) h. x - y) = 1" if "i < length h" for i and h :: "nat list"
    using that
  proof (induction h arbitrary: i)
    case (Cons x h)
    have "(\<Sum>(x, y) \<leftarrow> zip h h. x - y) = 0" by (induction h) auto
    with Cons show ?case by (cases i) auto
  qed simp
  moreover have "?h ! i \<le> ?h[?b := Suc (?h ! ?b)] ! i" if "i < HISTO_BUCKETS" for i
    using b by (cases "i = ?b") simp_all
  ultimately show ?thesis
    using b assms(1)
    by (simp add: latency_guard_records_one_sample_def snapshot_copies up Let_def list_all2_conv_all_nth)
qed

lemma replace_all_none: "CHR ''.'' \<notin> set s \<Longrightarrow> replace_all (CHR ''.'' # from) to (s @ r) = s @ replace_all (CHR ''.'' # from) to r"
  by (induction s) auto

lemma stacks_of_svg: "replace_all ''.svg'' ''.stacks'' (profile_path ts ''.svg'') = profile_path ts ''.stacks''"
proof -
  have "CHR ''.'' \<notin> set (''/tmp/pgfs-profile-'' @ decimal ts)"
    using decimal_digits [of ts] by (auto simp: is_digit_def)
  from replace_all_none [OF this] show ?thesis by (simp add: profile_path_def)
qed

lemma toggle_test:
  assumes "built on = Some g" and "since_epoch off = Some ts" and "report off g = Some r"
    and "svg_fate off = Written" and "stacks_fate off = Written"
  shows "toggle_starts_and_stops on off fs"
proof -
  obtain flamegraph stacks where r: "r = (flamegraph, stacks)" by (cases r)
  have "toggle on None fs = (None, Some g, fs)" using assms(1) by (simp add: toggle_def)
  moreover have "toggle off (Some g) fs = (Some (profile_path ts ''.svg''), None,
      fs(profile_path ts ''.svg'' \<mapsto> flamegraph, profile_path ts ''.stacks'' \<mapsto> stacks))"
    using assms(2-5) r by (simp add: toggle_def Let_def)
  moreover have "prefix ''/tmp/pgfs-profile-'' (profile_path ts ''.svg'')" by (simp add: profile_path_def)
  ultimately show ?thesis
    by (simp add: toggle_starts_and_stops_def stacks_of_svg is_some_def)
qed

lemma toggle_stub_test: "toggle_is_noop_without_feature env fs"
  by (simp add: toggle_is_noop_without_feature_def toggle_stub_def)

lemma synchronous_commit_test:
  "fst (on_acquire False fate sc) \<Longrightarrow> connect_disables_synchronous_commit dflt fate sc"
  by (cases fate) (simp_all add: connect_disables_synchronous_commit_def synchronous_commit_def on_acquire_def)

lemma prepare_all_served: "(\<And>sql. prepare c sql) \<Longrightarrow> prepare_all prepare c stmts = None"
  by (induction stmts) auto

lemma connect_tests:
  assumes "parse (test_conn_str cwd) = Some config" and "\<And>n u. build (Some u) n config = Some pool"
    and "\<And>c sql. prepare c sql"
  shows "acquire pool = Some c \<Longrightarrow> connect_with_unlogged_tables parse build acquire prepare cwd"
    and "\<forall>acquire \<in> set acquires. acquire pool \<noteq> None \<Longrightarrow> fst (list_dir [] s) \<noteq> Inl Panic \<Longrightarrow>
      db_pool_concurrent_queries parse build acquires prepare cwd s"
  using assms
  by (auto simp: connect_with_unlogged_tables_def db_pool_concurrent_queries_def db_connect_opts_def
      pool_connect_opts_def pool_get_def prepare_all_served list_all_iff)

end
