(* ===== verification/Launch.thy ===== *)
theory Launch
  imports Daemon_Correct Complex_Main
begin

text \<open>
  From the command line to the mounted file system: the arguments with their defaults, the
  tracing subscriber of both builds, the signal mask, and \<open>main\<close> and \<open>run\<close> up to the start of
  the threads, which theory \<open>Daemon\<close> takes over. What \<open>clap\<close> reads from the command line,
  what the environment holds and what \<open>libc\<close> and \<open>fuser\<close> answer are arguments.
\<close>

section \<open>Arguments\<close>

text \<open>An \<open>f64\<close> by its value: minus zero is zero.\<close>

datatype f64 = Finite rat | Infinity bool | NaN

record args =
  arg_mountpoint :: string
  arg_conn :: string
  arg_replica :: "string option"
  arg_attr_ttl :: f64
  arg_unlogged :: bool

text \<open>\<open>cwd\<close> is the current directory, when it can be had.\<close>

definition default_conn :: "string option \<Rightarrow> string" where
  "default_conn cwd =
     ''host='' @ (case cwd of Some p \<Rightarrow> p | None \<Rightarrow> '''') @ ''/testdata dbname=pgfs''"

definition args_given ::
  "string option \<Rightarrow> string \<Rightarrow> string option \<Rightarrow> string option \<Rightarrow> f64 option \<Rightarrow> bool \<Rightarrow> args"
where
  "args_given cwd mnt conn standby ttl unlogged =
     \<lparr>arg_mountpoint = mnt,
      arg_conn = (case conn of Some c \<Rightarrow> c | None \<Rightarrow> default_conn cwd),
      arg_replica = standby,
      arg_attr_ttl = (case ttl of Some t \<Rightarrow> t | None \<Rightarrow> Finite 1),
      arg_unlogged = unlogged\<rparr>"

section \<open>Durations\<close>

definition round_half_even :: "rat \<Rightarrow> int" where
  "round_half_even x =
     (let f = \<lfloor>x\<rfloor>; d = x - of_int f in
      if d < 1 / 2 \<or> d = 1 / 2 \<and> even f then f else f + 1)"

text \<open>\<open>Duration::from_secs_f64\<close> in nanoseconds; \<^term>\<open>None\<close> is its panic.\<close>

fun from_secs_f64 :: "f64 \<Rightarrow> nat option" where
  "from_secs_f64 (Finite x) =
     (if x < 0 \<or> 2 ^ 64 \<le> x then None else Some (nat (round_half_even (x * 10 ^ 9))))"
| "from_secs_f64 (Infinity _) = None"
| "from_secs_f64 NaN = None"

section \<open>Tracing\<close>

datatype log_format = Json | Text

record 'filter subscriber =
  env_filter :: 'filter
  format :: log_format
  trace_path :: "string option"

text \<open>\<open>from_env\<close> is the filter of the environment, if it has a valid one, \<open>directive\<close> the
  filter of a text; \<open>RUST_LOG_FORMAT\<close> may be unset.\<close>

definition init_tracing_default ::
  "'filter option \<Rightarrow> (string \<Rightarrow> 'filter) \<Rightarrow> string option \<Rightarrow> 'filter subscriber"
where
  "init_tracing_default from_env directive rust_log_format =
     \<lparr>env_filter = (case from_env of Some f \<Rightarrow> f | None \<Rightarrow> directive ''pgfs=info''),
      format = (if rust_log_format = Some ''json'' then Json else Text),
      trace_path = None\<rparr>"

definition init_tracing_profiling ::
  "'filter option \<Rightarrow> (string \<Rightarrow> 'filter) \<Rightarrow> string option \<Rightarrow> nat option \<Rightarrow> 'filter subscriber"
where
  "init_tracing_profiling from_env directive rust_log_format since_epoch_secs =
     (let ts = (case since_epoch_secs of Some d \<Rightarrow> d | None \<Rightarrow> 0) in
      \<lparr>env_filter = (case from_env of Some f \<Rightarrow> f | None \<Rightarrow> directive ''pgfs=info''),
       format = (if rust_log_format = Some ''json'' then Json else Text),
       trace_path = Some (''/tmp/pgfs-trace-'' @ decimal ts @ ''.json'')\<rparr>)"

section \<open>The signal mask\<close>

definition signals :: "signal list" where
  "signals = [SIGINT, SIGTERM, SIGHUP, SIGUSR1, SIGUSR2]"

text \<open>The signals blocked at the head of \<open>run\<close>: \<open>emptied\<close>, \<open>added\<close> and \<open>masked\<close> say whether
  \<open>sigemptyset\<close>, \<open>sigaddset\<close> on each, and \<open>pthread_sigmask\<close> succeed.\<close>

definition block_signals :: "bool \<Rightarrow> (signal \<Rightarrow> bool) \<Rightarrow> bool \<Rightarrow> signal list" where
  "block_signals emptied added masked =
     (if \<not> emptied \<or> list_ex (\<lambda>s. \<not> added s) signals then []
      else if \<not> masked then []
      else signals)"

section \<open>The start\<close>

text \<open>\<open>connect\<close> is \<open>Db::connect_opts\<close> on the state of its connections.\<close>

definition launch ::
  "settings \<Rightarrow> (string \<Rightarrow> string option \<Rightarrow> bool \<Rightarrow> connect_error + db) \<Rightarrow> nat \<times> nat \<Rightarrow> int \<Rightarrow>
    write_fate \<Rightarrow> bool \<Rightarrow> write_fate \<Rightarrow> args \<Rightarrow> files \<Rightarrow> ending \<times> files + 'guard daemon"
where
  "launch env connect ids now pid_fate mounts ready_fate a fs =
     (let e = env\<lparr>mountpoint := arg_mountpoint a\<rparr> in
      case connect (arg_conn a) (arg_replica a) (arg_unlogged a) of
        Inl err \<Rightarrow> Inl (Failed (Connecting err), fs)
      | Inr d \<Rightarrow>
          (case from_secs_f64 (arg_attr_ttl a) of
             None \<Rightarrow>
               (let fs1 = write_atomic (the_pid_path e) (decimal (process_id e)) pid_fate fs in
                Inl (if panic_aborts e then (Aborted, fs1) else (Unwound, drop_guards e fs1)))
           | Some ttl \<Rightarrow>
               (case startup e (Inr (with_attr_ttl d False ttl ids now)) pid_fate mounts ready_fate fs of
                  Inl (err, fs') \<Rightarrow> Inl (Failed err, fs')
                | Inr process \<Rightarrow> Inr process)))"

text \<open>The \<open>init\<close> callback: \<open>add\<close> is \<open>KernelConfig::add_capabilities\<close>, whose result is dropped.\<close>

definition fuse_init ::
  "('cap \<Rightarrow> 'config \<Rightarrow> bool \<times> 'config) \<Rightarrow> 'cap \<Rightarrow> 'cap \<Rightarrow> 'config \<Rightarrow> (int + unit) \<times> 'config"
where
  "fuse_init add writeback_cache big_writes config =
     (let config1 = snd (add writeback_cache config);
          config2 = snd (add big_writes config1)
      in (Inr (), config2))"

section \<open>What comes of a start\<close>

text \<open>One second is one second.\<close>

lemma default_ttl: "from_secs_f64 (arg_attr_ttl (args_given cwd mnt conn standby None unlogged)) = Some 1000000000"
  by (simp add: args_given_def round_half_even_def Let_def)

lemma signals_all_or_none: "block_signals emptied added masked \<in> {[], signals}"
  by (simp add: block_signals_def)

text \<open>C25. What \<open>main\<close> leaves behind when it does not come to serve. An error of the database
  changes no file. One of the mount, or a panic that unwinds, removes both health files. A
  time-to-live that is negative, not finite or too long is found out by a panic once the pid
  file is written, and in a release build, which aborts, the pid file of the daemon that
  never ran stays. Otherwise the daemon serves the mount with both files in place and
  nothing cached.\<close>

theorem launch_outcomes:
  assumes "permitted env = (\<lambda>_. True)" and "a = args_given cwd mnt conn standby ttl unlogged"
    and "launch env connect ids now Written mounts Written a fs = outcome"
  defines "e \<equiv> env\<lparr>mountpoint := mnt\<rparr>"
  shows "case connect (arg_conn a) standby unlogged of
      Inl err \<Rightarrow> outcome = Inl (Failed (Connecting err), fs)
    | Inr d \<Rightarrow>
        (case from_secs_f64 (arg_attr_ttl a) of
           None \<Rightarrow>
             if panic_aborts env
             then outcome = Inl (Aborted, fs(the_pid_path e \<mapsto> decimal (process_id env)))
             else outcome = Inl (Unwound, fs(the_pid_path e := None, the_ready_path e := None))
         | Some nanos \<Rightarrow>
             if mounts
             then \<exists>process. outcome = Inr process \<and> healthy e (files process) \<and>
               ended process = None \<and> mounted process \<and> reachable (served process) \<and>
               fs_db (served process) = d \<and> attr_ttl (served process) = nanos
             else outcome = Inl (Failed Mounting, fs(the_pid_path e := None, the_ready_path e := None)))"
proof -
  have args: "arg_mountpoint a = mnt" "arg_replica a = standby" "arg_unlogged a = unlogged"
    using assms(2) by (simp_all add: args_given_def)
  have id: "process_id e = process_id env" "panic_aborts e = panic_aborts env" "permitted e = (\<lambda>_. True)"
    using assms(1) by (simp_all add: e_def)
  note run = assms(3) [unfolded launch_def args, folded e_def, symmetric]
  have dropped: "drop_guards e fs1 = fs1(the_ready_path e := None, the_pid_path e := None)" for fs1
    by (simp add: drop_guards_def drop_guard_def remove_file_def id)
  note paths = health_paths(1) [of e]
  have reach: "reachable (with_attr_ttl d False nanos ids now)" for d nanos by (rule reachable.mounted)
  show ?thesis
    using run paths reach
    by (auto simp: Let_def startup_def write_atomic_def dropped id healthy_def fun_upd_twist
        with_attr_ttl_def split: sum.splits option.splits if_splits)
qed

theorem launch_outcomes_witness:
  defines "a \<equiv> args_given (Some ''/home/me'') ''mnt'' None None (Some (Finite (- 1))) False"
  shows "launch (demo_settings\<lparr>panic_aborts := True\<rparr>) (\<lambda>_ _ _. Inr (db_with demo [])) (0, 0) 0
      Written True Written a Map.empty =
    (Inl (Aborted, [the_pid_path demo_settings \<mapsto> decimal 42]) :: ending \<times> files + unit daemon)"
proof -
  let ?e = "demo_settings\<lparr>panic_aborts := True\<rparr>"
  have "permitted ?e = (\<lambda>_. True)" by (simp add: demo_settings_def)
  from launch_outcomes [OF this a_def [THEN meta_eq_to_obj_eq] refl, where ?connect = "\<lambda>_ _ _. Inr (db_with demo [])"
    and ids = "(0, 0)" and now = 0 and mounts = True and fs = Map.empty and ?'a = unit]
  show ?thesis
    by (simp add: a_def args_given_def demo_settings_def the_pid_path_def)
qed

end
