(* ===== verification/Spec2Isabelle.thy ===== *)
theory Spec2Isabelle
  imports Contents_Correct Known_Limits Numbers_Correct Observe_Correct Listing_Correct
    Reports_Correct Daemon_Correct Service_Tables Two_Clients Cleanup_Correct Unit_Tests Launch
begin

text \<open>
  pgfs: a FUSE file system whose directory tree and file contents are rows of a Postgres
  database. A verification of the daemon in \<open>src/src\<close>.

  \<^bold>\<open>The program.\<close> The daemon (\<open>main.rs\<close>) connects to Postgres, mounts, and serves the kernel's
  requests on its main thread. \<open>fs.rs\<close> answers them: it numbers paths with inodes, buffers the
  writes of open files by 64 KiB block, and calls \<open>db.rs\<close>, which keeps two tables, \<open>entries\<close> (the
  tree, keyed by parent path and name) and \<open>blocks\<close> (the contents, keyed by file and block
  number), and may read metadata from a standby. \<open>metrics.rs\<close> counts, measures and watches a
  heartbeat, \<open>error.rs\<close> tells errors as stories, \<open>profiling.rs\<close> switches a sampler. Threads
  beside the main one move the heartbeat, export metrics, wait for signals, and unmount when
  a callback has found the heartbeat stalled.

  \<^bold>\<open>The model, from the bottom up.\<close>
  \<^item> \<open>Basics\<close>: bytes, the casts between machine integers, lists and association lists.
  \<^item> \<open>Text_Paths\<close>: \<open>join\<close>, \<open>split_path\<close>, UTF-8, \<open>LIKE\<close> and \<open>substring\<close>. A string is its bytes.
  \<^item> \<open>Observability\<close>, \<open>Reports\<close>: the statics, histograms, the liveness check; the texts of the
    periodic export and of the state dump. \<open>Error_Story\<close>: \<open>ctx\<close> and \<open>failure\<close>.
  \<^item> \<open>Postgres\<close>: the tables, each SQL statement of \<open>db.rs\<close> as a function on them, and the
    connection: a list of fates says of each round trip whether it is served, refused, or
    carried out with its reply lost; a transaction rolls back when it is left early.
    \<open>Db_Connect\<close>: the DDL of a new connection, the pools, and the prepared statements.
  \<^item> \<open>Block_Math\<close>, \<open>Db_Reads\<close>, \<open>Db_Writes\<close>, \<open>Db_Namespace\<close>: the methods of \<open>Db\<close>, as
    functions from the state to a result or error and the new state. A failed check of a debug
    build (overflow, a slice out of range) is the error \<open>Panic\<close>.
  \<^item> \<open>Handle_Buffer\<close>, \<open>Inode_Maps\<close>, \<open>Fuse_Fs\<close>: the buffers of open files, the two maps of
    inodes and paths, and each callback of \<open>fs.rs\<close> as a function from the request's arguments
    and the state to the reply and the new state; \<open>handle\<close> dispatches a request.
  \<^item> \<open>Profiling\<close>, \<open>Daemon\<close>: files under \<open>/tmp\<close>, the profiler switch, and the process as an
    interleaving of its threads, with its start and its ends. \<open>Launch\<close>: the arguments with
    their defaults, the tracing subscriber, the signal mask, and \<open>main\<close> up to that start.
  \<^item> \<open>Db_Tests\<close>, \<open>Unit_Tests\<close>: the unit tests of the crate as programs on the model.

  \<^bold>\<open>Abstract views and what is proved.\<close>
  \<^item> \<open>Table_Lookup\<close> and \<open>Pg_Runs\<close> give the laws: what a lookup finds after a statement, and the
    contracts \<open>atomic_op\<close> (all or nothing, and success means all) and \<open>read_op\<close> (no change, and
    the result is that of a run without faults), proved once and interpreted for every method.
  \<^item> \<open>File_Contents\<close> and \<open>Contents_Correct\<close>: a file is its list of bytes; writes, truncations and
    flushes refine \<open>spec_write\<close>, \<open>spec_truncate\<close> and \<open>spec_writes\<close> under any faults, and reads
    return slices of it.
  \<^item> \<open>Dir_Tree\<close>, \<open>Db_Rename\<close>, \<open>Tree_Correct\<close>: the rows as a tree; creating, removing and
    relocating entries. \<open>Service_Tables\<close>: the tree survives every run of tame requests.
  \<^item> \<open>Db_Locality\<close>: work below one directory neither sees nor disturbs the rest of the tree.
    \<open>Db_Tests_Correct\<close> rests on it to show that the program's own tests pass on every database
    without rows below the test's directory or under a path that the underscores of its name
    match, and \<open>Cleanup_Correct\<close> shows that removing a tree recursively ends and removes just that. \<open>Two_Clients\<close>: two daemons on one database, one write between the two
    halves of another.
  \<^item> \<open>Fuse_Rules\<close>, \<open>Fuse_Steps\<close>, \<open>Service_Correct\<close>: rules for the callbacks, the step relation
    of the mounted file system, and the invariant of inode numbers and handles.
    \<open>Numbers_Correct\<close>: over whole runs, handle numbers are never handed out twice, and an inode
    stands for its path until a rename or a removal is served.
  \<^item> \<open>Db_Frames\<close>, \<open>Fuse_Frames\<close>, \<open>Fuse_Errors\<close>, \<open>Fuse_Refusals\<close>, \<open>Fuse_Dump\<close>: what operations
    and callbacks leave alone. \<open>Errors_Correct\<close>, \<open>Sessions_Correct\<close>, \<open>Listing_Correct\<close>: replies,
    refusals, whole sessions from \<open>open\<close> to \<open>fsync\<close>, directory listings.
  \<^item> \<open>Observe_Correct\<close>, \<open>Reports_Correct\<close>, \<open>Daemon_Correct\<close>: the heartbeat check, histograms,
    routing to the standby, exports, the watchdog, health files and signals. \<open>Launch\<close> ends
    with what is left behind by a start that fails.
  \<^item> \<open>Known_Limits\<close>: where the code does less than one would expect, as theorems: zeroed gaps,
    bytes that reappear, handles that outlive their entry, patterns that match siblings.

  \<^bold>\<open>Bounds.\<close> File sizes up to \<open>MAX_BYTES = 2 ^ 47\<close>, the last byte whose block number fits an
  \<open>i32\<close>; sizes below \<open>2 ^ 63\<close>, where \<open>bigint\<close> ends. Counters wrap at \<open>2 ^ 64\<close>; inode and handle
  numbers, which would have to be allocated \<open>2 ^ 64\<close> times, and the sums of a histogram do not.
  Loops run over lists of blocks, children or results, and the watchdog's loop over the
  results of its unmounts, of which five are enough. The one definition with fuel is the
  recursion of the tests' \<open>cleanup\<close>; three is enough for the tests, and in general any number
  above the length of the paths below the directory.

  \<^bold>\<open>Not modelled.\<close> What \<open>clap\<close> reads from the command line, \<open>libc\<close> and the environment answer, and
  the \<open>postgres\<close>, \<open>r2d2\<close>, \<open>fuser\<close>, \<open>tracing\<close> and \<open>pprof\<close> crates are arguments or fates. The
  running daemon is taken with its signals blocked; when the mask could not be set a signal
  has its default action. The advisory lock of the DDL concerns the server, and so does
  \<open>synchronous_commit = off\<close>, but for the setting itself. Another client of the same tables is
  considered for \<open>write_range\<close> alone, between its two halves; statements of two transactions
  do not interleave. The shell scripts and the requirement texts under \<open>src/spec\<close> carry no
  logic of the daemon.
\<close>

end
